(* ===== verification/Prelude.thy ===== *)
theory Prelude
  imports Main "HOL-Library.Word" "HOL-Library.Monad_Syntax" "HOL-Library.Code_Target_Numeral"
begin

text \<open>
  Vocabulary shared by every component: the machine integers of the Rust code as words of
  their width, byte strings as lists, the outcome of code that may panic, the reading and
  writing of slices, big-endian integers and ASCII case folding.  The type \<open>usize\<close> is
  \<^typ>\<open>nat\<close>: a Rust slice holds fewer than \<open>2 ^ 63\<close> bytes and every offset computed from
  one stays within \<open>2 ^ 17\<close> of its length, so no addition of the code wraps.
\<close>

unbundle bit_operations_syntax

named_theorems panic_free \<open>code that returns instead of panicking\<close>
named_theorems wire_bounds \<open>offsets returned by the wire readers stay inside the message\<close>

section \<open>Machine integers and byte strings\<close>

type_synonym u8 = "8 word"
type_synonym u16 = "16 word"
type_synonym u32 = "32 word"
type_synonym bytes = "8 word list"

definition saturating_sub :: "'a::len word \<Rightarrow> 'a word \<Rightarrow> 'a word" where
  "saturating_sub a b = (if b \<le> a then a - b else 0)"

lemma unat_saturating_sub: "unat (saturating_sub a b) = unat a - unat b"
  by (simp add: saturating_sub_def unat_sub word_le_nat_alt)

lemma saturating_sub_0 [simp]: "saturating_sub a 0 = a"
  by (simp add: saturating_sub_def)

lemma saturating_sub_le [simp]: "saturating_sub a b \<le> a"
  by (simp add: word_le_nat_alt unat_saturating_sub)

definition clamp :: "nat \<Rightarrow> nat \<Rightarrow> nat \<Rightarrow> nat" where
  "clamp lo hi x = (if x < lo then lo else if x > hi then hi else x)"

lemma clamp_bounds: "lo \<le> hi \<Longrightarrow> lo \<le> clamp lo hi x \<and> clamp lo hi x \<le> hi"
  by (simp add: clamp_def)

lemma map_sum_id_Inr [simp]: "map_sum f id z = Inr r \<longleftrightarrow> z = Inr r"
  by (cases z) auto

text \<open>Clock readings are nanoseconds; durations are subtracted with saturation.\<close>

definition second :: nat where
  "second = 1000000000"

section \<open>Code that may panic\<close>

text \<open>A slice index out of range aborts the program; \<open>Panic\<close> is that outcome.\<close>

datatype 'a run = Panic | Ret 'a

fun run_bind :: "'a run \<Rightarrow> ('a \<Rightarrow> 'b run) \<Rightarrow> 'b run" where
  "run_bind Panic f = Panic"
| "run_bind (Ret x) f = f x"

text \<open>The value of a call that is proved not to panic.\<close>

fun returned :: "'a option run \<Rightarrow> 'a option" where
  "returned Panic = None"
| "returned (Ret x) = x"

fun fold_run :: "('a \<Rightarrow> 's \<Rightarrow> 's run) \<Rightarrow> 'a list \<Rightarrow> 's \<Rightarrow> 's run" where
  "fold_run f [] s = Ret s"
| "fold_run f (x # xs) s = run_bind (f x s) (fold_run f xs)"

text \<open>A step that keeps an invariant and never panics keeps it over a whole sequence.\<close>

lemma fold_run_invariant:
  assumes "\<And>e s. e \<in> set es \<Longrightarrow> I s \<Longrightarrow> \<exists>s'. f e s = Ret s' \<and> I s'" and "I s"
  shows "\<exists>s'. fold_run f es s = Ret s' \<and> I s'"
  using assms
proof (induction es arbitrary: s)
  case (Cons e es)
  then obtain s1 where "f e s = Ret s1" "I s1" by (metis list.set_intros(1))
  with Cons.IH [of s1] Cons.prems(1) show ?case by simp
qed simp

section \<open>Slices\<close>

definition get :: "'a list \<Rightarrow> nat \<Rightarrow> 'a option" where
  "get xs i = (if i < length xs then Some (xs ! i) else None)"

definition get_range :: "'a list \<Rightarrow> nat \<Rightarrow> nat \<Rightarrow> 'a list option" where
  "get_range xs a b = (if a \<le> b \<and> b \<le> length xs then Some (take (b - a) (drop a xs)) else None)"

definition write_range :: "'a list \<Rightarrow> nat \<Rightarrow> 'a list \<Rightarrow> 'a list run" where
  "write_range xs a ys =
     (if a + length ys \<le> length xs then Ret (take a xs @ ys @ drop (a + length ys) xs) else Panic)"

definition patch :: "'a list \<Rightarrow> nat \<Rightarrow> 'a list \<Rightarrow> 'a list" where
  "patch xs a ys = take a xs @ ys @ drop (a + length ys) xs"

lemma get_Some_iff: "get xs i = Some x \<longleftrightarrow> i < length xs \<and> x = xs ! i"
  by (auto simp: get_def)

lemma get_None_iff: "get xs i = None \<longleftrightarrow> length xs \<le> i"
  by (auto simp: get_def)

lemma get_range_Some_iff:
  "get_range xs a b = Some ys \<longleftrightarrow> a \<le> b \<and> b \<le> length xs \<and> ys = take (b - a) (drop a xs)"
  by (auto simp: get_range_def)

lemma get_range_length: "get_range xs a b = Some ys \<Longrightarrow> length ys = b - a"
  by (auto simp: get_range_def split: if_splits)

lemma length_patch [simp]: "a + length ys \<le> length xs \<Longrightarrow> length (patch xs a ys) = length xs"
  by (simp add: patch_def)

lemma nth_patch:
  assumes "a + length ys \<le> length xs" and "i < length xs"
  shows "patch xs a ys ! i = (if a \<le> i \<and> i < a + length ys then ys ! (i - a) else xs ! i)"
  using assms by (auto simp: patch_def nth_append)

lemma patch_self:
  assumes "a + n \<le> length xs" shows "patch xs a (take n (drop a xs)) = xs"
proof -
  have "take n (drop a xs) @ drop (a + n) xs = drop a xs"
    by (metis append_take_drop_id drop_drop add.commute)
  then show ?thesis using assms by (simp add: patch_def)
qed

section \<open>Big-endian integers\<close>

definition from_be16 :: "u8 \<Rightarrow> u8 \<Rightarrow> u16" where
  "from_be16 a b = word_of_nat (unat a * 2 ^ 8 + unat b)"

definition from_be32 :: "u8 \<Rightarrow> u8 \<Rightarrow> u8 \<Rightarrow> u8 \<Rightarrow> u32" where
  "from_be32 a b c d =
     word_of_nat (unat a * 2 ^ 24 + unat b * 2 ^ 16 + unat c * 2 ^ 8 + unat d)"

definition to_be16 :: "u16 \<Rightarrow> bytes" where
  "to_be16 w = [word_of_nat (unat w div 2 ^ 8), word_of_nat (unat w mod 2 ^ 8)]"

definition to_be32 :: "u32 \<Rightarrow> bytes" where
  "to_be32 w =
     [word_of_nat (unat w div 2 ^ 24), word_of_nat (unat w div 2 ^ 16 mod 2 ^ 8),
      word_of_nat (unat w div 2 ^ 8 mod 2 ^ 8), word_of_nat (unat w mod 2 ^ 8)]"

lemma unat_u8_lt: "unat (b :: u8) < 256"
  using unsigned_less [of b] by simp

lemma unat_u16_lt: "unat (b :: u16) < 65536"
  using unsigned_less [of b] by simp

lemma unat_u32_lt: "unat (b :: u32) < 4294967296"
  using unsigned_less [of b] by simp

lemma unat_from_be16: "unat (from_be16 a b) = unat a * 256 + unat b"
  using unat_u8_lt [of a] unat_u8_lt [of b]
  by (simp only: from_be16_def unat_of_nat) simp

lemma length_to_be16 [simp]: "length (to_be16 w) = 2"
  by (simp add: to_be16_def)

lemma length_to_be32 [simp]: "length (to_be32 w) = 4"
  by (simp add: to_be32_def)

lemma be16_roundtrip: "from_be16 (to_be16 w ! 0) (to_be16 w ! 1) = w"
proof -
  have "unat w div 256 < 256" using unat_u16_lt [of w] by arith
  then have "unat (to_be16 w ! 0) * 2 ^ 8 + unat (to_be16 w ! 1) = unat w"
    by (simp add: to_be16_def unat_of_nat)
  then show ?thesis unfolding from_be16_def by simp
qed

lemma be32_digits:
  "n div 16777216 * 16777216 + n div 65536 mod 256 * 65536 + n div 256 mod 256 * 256 + n mod 256
     = (n :: nat)"
proof -
  define p q r where "p = n div 256" and "q = p div 256" and "r = q div 256"
  have "n div 65536 = q" "n div 16777216 = r"
    by (simp_all add: p_def q_def r_def flip: div_mult2_eq)
  moreover have "n = 256 * p + n mod 256" "p = 256 * q + p mod 256" "q = 256 * r + q mod 256"
    unfolding p_def q_def r_def by simp_all
  ultimately show ?thesis unfolding p_def [symmetric] by (simp only:)
qed

lemma be32_roundtrip:
  "from_be32 (to_be32 w ! 0) (to_be32 w ! 1) (to_be32 w ! 2) (to_be32 w ! 3) = w"
proof -
  have "unat w div 16777216 < 256" using unat_u32_lt [of w] by arith
  then have "unat (to_be32 w ! 0) * 2 ^ 24 + unat (to_be32 w ! 1) * 2 ^ 16
      + unat (to_be32 w ! 2) * 2 ^ 8 + unat (to_be32 w ! 3) = unat w"
    using be32_digits [of "unat w"] by (simp add: to_be32_def unat_of_nat)
  then show ?thesis unfolding from_be32_def by simp
qed

section \<open>ASCII case\<close>

definition ascii_lower :: "u8 \<Rightarrow> u8" where
  "ascii_lower b = (if 65 \<le> b \<and> b \<le> 90 then b + 32 else b)"

definition make_ascii_lowercase :: "bytes \<Rightarrow> bytes" where
  "make_ascii_lowercase = map ascii_lower"

definition eq_ignore_ascii_case :: "bytes \<Rightarrow> bytes \<Rightarrow> bool" where
  "eq_ignore_ascii_case xs ys \<longleftrightarrow>
     length xs = length ys \<and> list_all2 (\<lambda>x y. ascii_lower x = ascii_lower y) xs ys"

lemma eq_ignore_ascii_case_iff:
  "eq_ignore_ascii_case xs ys \<longleftrightarrow> make_ascii_lowercase xs = make_ascii_lowercase ys"
  unfolding eq_ignore_ascii_case_def make_ascii_lowercase_def
  by (auto simp: list_all2_conv_all_nth list_eq_iff_nth_eq)

lemma make_ascii_lowercase_append [simp]:
  "make_ascii_lowercase (xs @ ys) = make_ascii_lowercase xs @ make_ascii_lowercase ys"
  by (simp add: make_ascii_lowercase_def)

lemma length_make_ascii_lowercase [simp]: "length (make_ascii_lowercase xs) = length xs"
  by (simp add: make_ascii_lowercase_def)

section \<open>Association lists as maps\<close>

definition put :: "'a \<Rightarrow> 'b \<Rightarrow> ('a \<times> 'b) list \<Rightarrow> ('a \<times> 'b) list" where
  "put k v kvs = (k, v) # filter (\<lambda>kv. fst kv \<noteq> k) kvs"

definition drop_key :: "'a \<Rightarrow> ('a \<times> 'b) list \<Rightarrow> ('a \<times> 'b) list" where
  "drop_key k kvs = filter (\<lambda>kv. fst kv \<noteq> k) kvs"

lemma map_of_drop_key [simp]: "map_of (drop_key k kvs) = (map_of kvs)(k := None)"
  by (induction kvs) (auto simp: drop_key_def fun_eq_iff)

lemma map_of_put [simp]: "map_of (put k v kvs) = (map_of kvs)(k \<mapsto> v)"
  using map_of_drop_key [of k kvs] by (simp add: put_def drop_key_def fun_upd_def fun_eq_iff)

end
