(* ===== verification/Samples.thy ===== *)
theory Samples
  imports Prelude
begin

text \<open>
  Concrete messages that the properties are evaluated on: a query for the A record of the
  one-letter name \<open>A\<close>, its upper-case twin, and a response with one address and a TTL of
  60 seconds.
\<close>

definition sample_query :: bytes where
  "sample_query = [0, 7, 1, 0, 0, 1, 0, 0, 0, 0, 0, 0, 1, 97, 0, 0, 1, 0, 1]"

definition sample_query_upper :: bytes where
  "sample_query_upper = [0, 9, 1, 0, 0, 1, 0, 0, 0, 0, 0, 0, 1, 65, 0, 0, 1, 0, 1]"

definition sample_response :: bytes where
  "sample_response = [0, 7, 129, 128, 0, 1, 0, 1, 0, 0, 0, 0, 1, 97, 0, 0, 1, 0, 1,
                      192, 12, 0, 1, 0, 1, 0, 0, 0, 60, 0, 4, 1, 2, 3, 4]"

text \<open>A name error with the SOA record its negative TTL comes from: TTL 900, minimum 300.\<close>

definition sample_nxdomain :: bytes where
  "sample_nxdomain = [0, 7, 129, 131, 0, 1, 0, 0, 0, 1, 0, 0, 1, 97, 0, 0, 1, 0, 1,
                      192, 12, 0, 6, 0, 1, 0, 0, 3, 132, 0, 22, 0, 0,
                      0, 0, 0, 1, 0, 0, 0, 2, 0, 0, 0, 3, 0, 0, 0, 4, 0, 0, 1, 44]"

text \<open>A query with an OPT record advertising 1232 bytes.\<close>

definition sample_edns_query :: bytes where
  "sample_edns_query = [0, 7, 1, 0, 0, 1, 0, 0, 0, 0, 0, 1, 1, 97, 0, 0, 1, 0, 1,
                        0, 0, 41, 4, 208, 0, 0, 0, 0, 0, 0]"

text \<open>An answer whose response code is SERVFAIL.\<close>

definition sample_servfail :: bytes where
  "sample_servfail = [0, 7, 129, 130, 0, 1, 0, 0, 0, 0, 0, 0, 1, 97, 0, 0, 1, 0, 1]"

lemmas samples = sample_query_def sample_query_upper_def sample_response_def
  sample_nxdomain_def sample_edns_query_def sample_servfail_def

end
