(* ===== verification/Wire_Names.thy ===== *)
theory Wire_Names
  imports Samples
begin

text \<open>
  Compressed DNS names, \<open>src/src/wire.rs\<close>: the integer readers, the walker that validates
  a name and shows each wire label to a visitor, and its two simple clients.  The walker
  is specified by the list of labels it visits (\<open>name_labels\<close>); the contract between the
  walker and a visitor is the locale \<open>label_visitor\<close>.
\<close>

section \<open>Constants and integer readers\<close>

abbreviation HEADER_LEN :: nat where "HEADER_LEN \<equiv> 12"
definition TYPE_CNAME :: u16 where "TYPE_CNAME = 5"
definition TYPE_SOA :: u16 where "TYPE_SOA = 6"
definition TYPE_OPT :: u16 where "TYPE_OPT = 41"

definition read_u16 :: "bytes \<Rightarrow> nat \<Rightarrow> u16 option" where
  "read_u16 message offset = do {
     a \<leftarrow> get message offset;
     b \<leftarrow> get message (offset + 1);
     Some (from_be16 a b) }"

definition read_u32 :: "bytes \<Rightarrow> nat \<Rightarrow> u32 option" where
  "read_u32 message offset = do {
     a \<leftarrow> get message offset;
     b \<leftarrow> get message (offset + 1);
     c \<leftarrow> get message (offset + 2);
     d \<leftarrow> get message (offset + 3);
     Some (from_be32 a b c d) }"

lemma read_u16_Some_iff:
  "read_u16 m k = Some v \<longleftrightarrow> k + 2 \<le> length m \<and> v = from_be16 (m ! k) (m ! (k + 1))"
  by (auto simp: read_u16_def get_def split: bind_splits if_splits)

lemma read_u32_Some_iff:
  "read_u32 m k = Some v \<longleftrightarrow> k + 4 \<le> length m
     \<and> v = from_be32 (m ! k) (m ! (k + 1)) (m ! (k + 2)) (m ! (k + 3))"
  by (auto simp: read_u32_def get_def split: bind_splits if_splits)

lemma read_u16_bound [wire_bounds]: "read_u16 m k = Some v \<Longrightarrow> k + 2 \<le> length m"
  by (simp add: read_u16_Some_iff)

lemma read_u32_bound [wire_bounds]: "read_u32 m k = Some v \<Longrightarrow> k + 4 \<le> length m"
  by (simp add: read_u32_Some_iff)

lemma read_u16_defined: "k + 2 \<le> length m \<Longrightarrow> \<exists>v. read_u16 m k = Some v"
  by (simp add: read_u16_Some_iff)

section \<open>The walker\<close>

text \<open>
  One round of the loop of \<open>walk_name\<close> looks at the octet under the cursor: it refuses the
  name, follows a compression pointer, reaches the root label, or takes a label (its length
  octet included).
\<close>

datatype name_step = Reject | Jump nat | Root bytes | Label bytes

definition walk_step :: "bytes \<Rightarrow> nat \<Rightarrow> nat \<Rightarrow> nat \<Rightarrow> name_step" where
  "walk_step message cursor jumps name_len =
     (case get message cursor of
        None \<Rightarrow> Reject
      | Some len \<Rightarrow>
          if len AND 0xC0 = 0xC0 then
            (case get message (cursor + 1) of
               None \<Rightarrow> Reject
             | Some next_byte \<Rightarrow>
                 let pointer = push_bit 8 (unat (len AND 0x3F)) OR unat next_byte in
                 if pointer \<ge> length message \<or> jumps \<ge> 128 then Reject else Jump pointer)
          else if len AND 0xC0 \<noteq> 0 \<or> len > 63 then Reject
          else if len = 0 then Root (take 1 (drop cursor message))
          else
            (case get_range message cursor (cursor + 1 + unat len) of
               None \<Rightarrow> Reject
             | Some label \<Rightarrow> if name_len + (1 + unat len) \<ge> 255 then Reject else Label label))"

lemma walk_step_Jump:
  "walk_step m c j n = Jump p \<Longrightarrow> p < length m \<and> c + 2 \<le> length m \<and> j < 128"
  by (auto simp: walk_step_def Let_def get_def split: option.splits if_splits)

lemma walk_step_Root:
  assumes "walk_step m c j n = Root l" shows "l = [0] \<and> c < length m"
proof -
  from assms have "c < length m" "m ! c = 0" "l = take 1 (drop c m)"
    by (auto simp: walk_step_def Let_def get_Some_iff split: option.splits if_splits)
  then show ?thesis by (simp flip: Cons_nth_drop_Suc)
qed

lemma walk_step_Label:
  assumes "walk_step m c j n = Label l"
  shows "l = take (length l) (drop c m)" "c + length l \<le> length m" "n + length l < 255"
    "2 \<le> length l" "length l \<le> 64" "length l = 1 + unat (hd l)"
proof -
  from assms obtain len where len: "get m c = Some len" "len \<noteq> 0" "len \<le> 63"
    "get_range m c (c + 1 + unat len) = Some l" "n + (1 + unat len) < 255"
    by (auto simp: walk_step_def Let_def split: option.splits if_splits)
  then have l: "l = take (1 + unat len) (drop c m)" "c + 1 + unat len \<le> length m"
    "c < length m" "m ! c = len"
    by (auto simp: get_range_Some_iff get_Some_iff)
  then have n: "length l = 1 + unat len" by simp
  moreover have "unat len \<le> 63" "0 < unat len"
    using len(2,3) by (simp_all add: word_le_nat_alt unat_gt_0)
  moreover have "hd l = len" using l by (simp add: hd_drop_conv_nth)
  ultimately show "l = take (length l) (drop c m)" "c + length l \<le> length m"
    "n + length l < 255" "2 \<le> length l" "length l \<le> 64" "length l = 1 + unat (hd l)"
    using l len(5) by simp_all
qed

lemma walk_step_Label_decreases [termination_simp]:
  "walk_step m c j n = Label l \<Longrightarrow> 255 - (n + length l) < 255 - n"
  using walk_step_Label(3,4) [of m c j n l] by linarith

lemma walk_step_Jump_decreases [termination_simp]:
  "walk_step m c j n = Jump p \<Longrightarrow> 127 - j < 128 - j"
  using walk_step_Jump [of m c j n p] by linarith

text \<open>
  The loop: \<open>end_at\<close> is the end of the name in the enclosing message, fixed by the first
  compression pointer; \<open>st\<close> is the state the visitor closure has captured.  A name the
  walker refuses is \<open>None\<close>, a visitor that indexes outside its buffer is \<open>Panic\<close>.
\<close>

function walk_loop ::
  "(bytes \<Rightarrow> 's \<Rightarrow> 's run) \<Rightarrow> bytes \<Rightarrow> nat \<Rightarrow> nat option \<Rightarrow> nat \<Rightarrow> nat \<Rightarrow> 's \<Rightarrow> (nat option \<times> 's) run"
where
  "walk_loop visit message cursor end_at jumps name_len st =
     (case walk_step message cursor jumps name_len of
        Reject \<Rightarrow> Ret (None, st)
      | Jump pointer \<Rightarrow>
          walk_loop visit message pointer
            (case end_at of None \<Rightarrow> Some (cursor + 2) | Some e \<Rightarrow> Some e) (jumps + 1) name_len st
      | Root label \<Rightarrow>
          run_bind (visit label st)
            (\<lambda>st'. Ret (Some (case end_at of None \<Rightarrow> cursor + 1 | Some e \<Rightarrow> e), st'))
      | Label label \<Rightarrow>
          run_bind (visit label st)
            (walk_loop visit message (cursor + length label) end_at jumps
               (name_len + length label)))"
  by pat_completeness auto
termination
  by (relation "measures [\<lambda>(_, _, _, _, jumps, _, _). 128 - jumps,
                          \<lambda>(_, _, _, _, _, name_len, _). 255 - name_len]")
     (simp_all add: walk_step_Label_decreases walk_step_Jump_decreases)

declare walk_loop.simps [simp del]

definition walk_name ::
  "(bytes \<Rightarrow> 's \<Rightarrow> 's run) \<Rightarrow> bytes \<Rightarrow> nat \<Rightarrow> 's \<Rightarrow> (nat option \<times> 's) run"
where
  "walk_name visit message start st = walk_loop visit message start None 0 0 st"

definition skip_visit :: "bytes \<Rightarrow> unit \<Rightarrow> unit run" where
  "skip_visit label st = Ret ()"

definition skip_name :: "bytes \<Rightarrow> nat \<Rightarrow> nat option" where
  "skip_name message offset =
     returned (run_bind (walk_name skip_visit message offset ()) (\<lambda>(end_at, _). Ret end_at))"

text \<open>The closure of \<open>read_name\<close>: a 255-byte stack buffer and the number of bytes used.\<close>

definition copy_visit :: "bytes \<Rightarrow> bytes \<times> nat \<Rightarrow> (bytes \<times> nat) run" where
  "copy_visit label = (\<lambda>(name, name_len).
     run_bind (write_range name name_len label)
       (\<lambda>name'. Ret (name', name_len + length label)))"

definition empty_name :: "bytes \<times> nat" where
  "empty_name = (replicate 255 0, 0)"

definition read_name :: "bytes \<Rightarrow> nat \<Rightarrow> (bytes \<times> nat) option run" where
  "read_name message start =
     run_bind (walk_name copy_visit message start empty_name)
       (\<lambda>(end_at, name, name_len).
          case end_at of
            None \<Rightarrow> Ret None
          | Some e \<Rightarrow> Ret (Some (make_ascii_lowercase (take name_len name), e)))"

section \<open>The labels of a name\<close>

text \<open>The reference reading: the end of the name and the wire labels up to the root.\<close>

function label_loop :: "bytes \<Rightarrow> nat \<Rightarrow> nat option \<Rightarrow> nat \<Rightarrow> nat \<Rightarrow> nat option \<times> bytes list" where
  "label_loop message cursor end_at jumps name_len =
     (case walk_step message cursor jumps name_len of
        Reject \<Rightarrow> (None, [])
      | Jump pointer \<Rightarrow>
          label_loop message pointer
            (case end_at of None \<Rightarrow> Some (cursor + 2) | Some e \<Rightarrow> Some e) (jumps + 1) name_len
      | Root label \<Rightarrow> (Some (case end_at of None \<Rightarrow> cursor + 1 | Some e \<Rightarrow> e), [label])
      | Label label \<Rightarrow>
          map_prod id ((#) label)
            (label_loop message (cursor + length label) end_at jumps (name_len + length label)))"
  by pat_completeness auto
termination
  by (relation "measures [\<lambda>(_, _, _, jumps, _). 128 - jumps,
                          \<lambda>(_, _, _, _, name_len). 255 - name_len]")
     (simp_all add: walk_step_Label_decreases walk_step_Jump_decreases)

declare label_loop.simps [simp del]

definition name_labels :: "bytes \<Rightarrow> nat \<Rightarrow> nat option \<times> bytes list" where
  "name_labels message start = label_loop message start None 0 0"

text \<open>Walking is folding the visitor over the labels.\<close>

lemma run_bind_assoc: "run_bind (run_bind m f) g = run_bind m (\<lambda>x. run_bind (f x) g)"
  by (cases m) simp_all

lemma run_bind_Ret [simp]: "run_bind m Ret = m"
  by (cases m) simp_all

lemma walk_loop_labels:
  "walk_loop visit m c e j n st =
     (case label_loop m c e j n of (r, ls) \<Rightarrow>
        run_bind (fold_run visit ls st) (\<lambda>st'. Ret (r, st')))"
proof (induction m c e j n arbitrary: st rule: label_loop.induct)
  case (1 m c e j n)
  show ?case
  proof (cases "walk_step m c j n")
    case (Label l)
    obtain r ls where "label_loop m (c + length l) e j (n + length l) = (r, ls)" by fastforce
    with "1.IH"(2) [OF Label] have "walk_loop visit m (c + length l) e j (n + length l)
        = (\<lambda>st. run_bind (fold_run visit ls st) (\<lambda>st'. Ret (r, st')))" by (simp add: fun_eq_iff)
    with Label \<open>label_loop _ _ _ _ _ = _\<close> show ?thesis
      by (simp add: walk_loop.simps [of visit m c] label_loop.simps [of m c] run_bind_assoc)
  qed (use "1.IH" in \<open>auto simp: walk_loop.simps [of visit m c] label_loop.simps [of m c]
         run_bind_assoc\<close>)
qed

lemma walk_name_labels:
  "walk_name visit m c st =
     (case name_labels m c of (r, ls) \<Rightarrow>
        run_bind (fold_run visit ls st) (\<lambda>st'. Ret (r, st')))"
  by (simp add: walk_name_def name_labels_def walk_loop_labels)

text \<open>Where a name may end, how long its labels are, and that the root label closes it.\<close>

lemma label_loop_shape:
  "label_loop m c e j n = (r, ls) \<Longrightarrow> n \<le> 254 \<Longrightarrow>
     n + length (concat ls) \<le> 255 \<and>
     (\<forall>x. r = Some x \<longrightarrow> (\<exists>ks. ls = ks @ [[0]] \<and> (\<forall>k \<in> set ks. 2 \<le> length k \<and> length k \<le> 64
                 \<and> length k = 1 + unat (hd k)))
        \<and> (case e of None \<Rightarrow> c < x \<and> x \<le> length m | Some y \<Rightarrow> x = y))"
proof (induction m c e j n arbitrary: r ls rule: label_loop.induct)
  case (1 m c e j n)
  show ?case
  proof (cases "walk_step m c j n")
    case Reject
    with "1.prems" show ?thesis by (simp add: label_loop.simps [of m c])
  next
    case (Root l)
    with "1.prems" walk_step_Root [OF Root] show ?thesis
      by (auto simp: label_loop.simps [of m c] split: option.splits)
  next
    case (Jump p)
    let ?e = "case e of None \<Rightarrow> Some (c + 2) | Some y \<Rightarrow> Some y"
    from Jump "1.prems" have "label_loop m p ?e (j + 1) n = (r, ls)"
      by (simp add: label_loop.simps [of m c])
    from "1.IH"(1) [OF Jump this "1.prems"(2)] walk_step_Jump [OF Jump] show ?thesis
      by (auto split: option.splits)
  next
    case (Label l)
    note L = walk_step_Label [OF Label]
    obtain ks where ks: "label_loop m (c + length l) e j (n + length l) = (r, ks)" "ls = l # ks"
      using Label "1.prems"
      by (cases "label_loop m (c + length l) e j (n + length l)")
         (auto simp: label_loop.simps [of m c])
    have "n + length l \<le> 254" using L(3) by simp
    from "1.IH"(2) [OF Label ks(1) this] L ks(2) show ?thesis
      by (fastforce split: option.splits)
  qed
qed

lemma name_labels_shape:
  assumes "name_labels m c = (r, ls)"
  shows "length (concat ls) \<le> 255"
    and "r = Some x \<Longrightarrow> c < x \<and> x \<le> length m"
    and "r = Some x \<Longrightarrow> \<exists>ks. ls = ks @ [[0]] \<and>
           (\<forall>k \<in> set ks. 2 \<le> length k \<and> length k \<le> 64 \<and> length k = 1 + unat (hd k))"
  using label_loop_shape [OF assms [unfolded name_labels_def]] by auto

section \<open>The contract between the walker and a visitor\<close>

text \<open>
  A visitor promises to return, and to have seen the label in the sense of \<open>seen\<close>, as long
  as the labels shown so far fit 255 bytes; the walker promises never to show more.
\<close>

locale label_visitor =
  fixes visit :: "bytes \<Rightarrow> 's \<Rightarrow> 's run"
    and init :: 's
    and seen :: "bytes list \<Rightarrow> 's \<Rightarrow> bool"
  assumes seen_init: "seen [] init"
    and seen_visit: "seen ls st \<Longrightarrow> length (concat (ls @ [l])) \<le> 255 \<Longrightarrow>
           \<exists>st'. visit l st = Ret st' \<and> seen (ls @ [l]) st'"
begin

lemma fold_seen:
  "seen ls st \<Longrightarrow> length (concat (ls @ ks)) \<le> 255 \<Longrightarrow>
     \<exists>st'. fold_run visit ks st = Ret st' \<and> seen (ls @ ks) st'"
proof (induction ks arbitrary: ls st)
  case Nil
  then show ?case by simp
next
  case (Cons k ks)
  then have "length (concat (ls @ [k])) \<le> 255" by simp
  from seen_visit [OF Cons.prems(1) this] obtain st1 where
    st1: "visit k st = Ret st1" "seen (ls @ [k]) st1" by blast
  from Cons.IH [OF st1(2)] Cons.prems(2) show ?case by (simp add: st1(1))
qed

lemma walk_returns:
  "\<exists>st. walk_name visit m start init = Ret (fst (name_labels m start), st)
      \<and> seen (snd (name_labels m start)) st"
proof -
  obtain r ls where rl: "name_labels m start = (r, ls)" by fastforce
  from fold_seen [OF seen_init] name_labels_shape(1) [OF rl]
  obtain st where "fold_run visit ls init = Ret st" "seen ls st" by auto
  then show ?thesis by (simp add: walk_name_labels rl)
qed

end

interpretation skip: label_visitor skip_visit "()" "\<lambda>_ _. True"
  by unfold_locales (simp_all add: skip_visit_def)

definition copy_seen :: "bytes list \<Rightarrow> bytes \<times> nat \<Rightarrow> bool" where
  "copy_seen ls = (\<lambda>(name, name_len).
     length name = 255 \<and> name_len = length (concat ls) \<and> take name_len name = concat ls)"

interpretation copy: label_visitor copy_visit empty_name copy_seen
proof unfold_locales
  fix ls l st
  assume "copy_seen ls st" "length (concat (ls @ [l])) \<le> 255"
  then show "\<exists>st'. copy_visit l st = Ret st' \<and> copy_seen (ls @ [l]) st'"
    by (cases st) (auto simp: copy_visit_def copy_seen_def write_range_def)
qed (simp add: copy_seen_def empty_name_def)

lemma skip_name_labels: "skip_name m start = fst (name_labels m start)"
  using skip.walk_returns [of m start] by (auto simp: skip_name_def)

lemma skip_name_bound [wire_bounds]:
  assumes "skip_name m start = Some x" shows "start < x \<and> x \<le> length m"
proof -
  obtain ls where "name_labels m start = (Some x, ls)"
    using assms by (cases "name_labels m start") (simp add: skip_name_labels)
  then show ?thesis using name_labels_shape(2) by blast
qed

text \<open>The stack buffer is never overrun, and holds the labels of the name.\<close>

lemma read_name_labels [panic_free]:
  "read_name m start = Ret (map_option (\<lambda>e. (make_ascii_lowercase (concat (snd (name_labels m start))), e))
                              (fst (name_labels m start)))"
proof -
  obtain name k where "walk_name copy_visit m start empty_name
      = Ret (fst (name_labels m start), name, k)" "copy_seen (snd (name_labels m start)) (name, k)"
    using copy.walk_returns [of m start] by auto
  then show ?thesis
    by (cases "fst (name_labels m start)") (auto simp: read_name_def copy_seen_def)
qed

lemma read_name_Some:
  assumes "returned (read_name m start) = Some (qname, x)"
  shows "skip_name m start = Some x" "qname = make_ascii_lowercase (concat (snd (name_labels m start)))"
    "length qname \<le> 255" "start < x" "x \<le> length m"
proof -
  obtain ls where ls: "name_labels m start = (Some x, ls)"
      "qname = make_ascii_lowercase (concat ls)"
    using assms by (cases "name_labels m start") (auto simp: read_name_labels)
  with name_labels_shape [OF ls(1)] show "skip_name m start = Some x"
    "qname = make_ascii_lowercase (concat (snd (name_labels m start)))"
    "length qname \<le> 255" "start < x" "x \<le> length m"
    by (simp_all add: skip_name_labels)
qed

lemma read_name_None_iff: "returned (read_name m start) = None \<longleftrightarrow> skip_name m start = None"
  by (simp add: read_name_labels skip_name_labels)

section \<open>Canonical names are prefix codes\<close>

definition wire_label :: "bytes \<Rightarrow> bool" where
  "wire_label l \<longleftrightarrow> 2 \<le> length l \<and> length l \<le> 64 \<and> length l = 1 + unat (hd l)"

fun canonical_labels :: "bytes list \<Rightarrow> bool" where
  "canonical_labels [] = False"
| "canonical_labels (l # ls) = ((ls = [] \<and> l = [0]) \<or> (canonical_labels ls \<and> wire_label l))"

lemma canonical_labels_snoc: "\<forall>k \<in> set ks. wire_label k \<Longrightarrow> canonical_labels (ks @ [[0]])"
  by (induction ks) simp_all

lemma canonical_concat_inject:
  "canonical_labels ls \<Longrightarrow> canonical_labels ks \<Longrightarrow> concat ls = concat ks \<Longrightarrow> ls = ks"
proof (induction ls arbitrary: ks)
  case Nil
  then show ?case by simp
next
  case (Cons l ls)
  then obtain k ks' where ks: "ks = k # ks'" by (cases ks) auto
  have ne: "l \<noteq> []" "k \<noteq> []" and len: "length l = 1 + unat (hd l)" "length k = 1 + unat (hd k)"
    using Cons.prems(1,2) by (auto simp: ks wire_label_def)
  have "hd (concat (l # ls)) = hd (concat ks)" using Cons.prems(3) by simp
  then have hd: "hd l = hd k" using ne by (simp add: ks)
  then have "length l = length k" using len by simp
  then have "l = k" "concat ls = concat ks'" using Cons.prems(3) by (simp_all add: ks)
  moreover have "(ls = [] \<and> ks' = []) \<or> (canonical_labels ls \<and> canonical_labels ks')"
    using Cons.prems(1,2) \<open>l = k\<close> by (auto simp: ks wire_label_def)
  ultimately show ?case using Cons.IH by (auto simp: ks)
qed

lemma ascii_lower_length_octet: "unat b \<le> 63 \<Longrightarrow> ascii_lower b = b"
  by (simp add: ascii_lower_def word_le_nat_alt)

lemma wire_label_lower: "wire_label l \<Longrightarrow> wire_label (make_ascii_lowercase l)"
  using ascii_lower_length_octet [of "hd l"]
  by (cases l) (simp_all add: wire_label_def make_ascii_lowercase_def)

lemma canonical_labels_lower:
  "canonical_labels ls \<Longrightarrow> canonical_labels (map make_ascii_lowercase ls)"
proof (induction ls)
  case (Cons l ls)
  have "make_ascii_lowercase [0] = [0]" by (simp add: make_ascii_lowercase_def ascii_lower_def)
  with Cons show ?case by (auto simp: wire_label_lower)
qed simp

lemma name_labels_canonical:
  assumes "fst (name_labels m s) = Some x" shows "canonical_labels (snd (name_labels m s))"
proof -
  have "name_labels m s = (Some x, snd (name_labels m s))" using assms by (simp add: prod_eq_iff)
  from name_labels_shape(3) [OF this refl] obtain ks where
    "snd (name_labels m s) = ks @ [[0]]" "\<forall>k \<in> set ks. wire_label k"
    by (auto simp: wire_label_def)
  then show ?thesis by (simp add: canonical_labels_snoc)
qed

lemma make_ascii_lowercase_concat:
  "make_ascii_lowercase (concat ls) = concat (map make_ascii_lowercase ls)"
  by (induction ls) (simp_all add: make_ascii_lowercase_def)

lemma lowercase_labels_inject:
  assumes "canonical_labels ls" "canonical_labels ks"
    and "make_ascii_lowercase (concat ls) = make_ascii_lowercase (concat ks)"
  shows "map make_ascii_lowercase ls = map make_ascii_lowercase ks"
  using assms canonical_concat_inject [OF canonical_labels_lower canonical_labels_lower]
  by (simp add: make_ascii_lowercase_concat)

section \<open>Properties\<close>

text \<open>C20: Reading a compressed name never overruns the 255-byte buffer and never panics, whatever
  the message: it yields the lower-cased concatenation of well-formed wire labels ending in the
  root label, at most 255 bytes, with an end offset after the start and inside the message, and
  it succeeds exactly when the name can be skipped.\<close>

theorem read_name_total:
  "\<exists>out. read_name m start = Ret out \<and>
     (case out of
        None \<Rightarrow> skip_name m start = None
      | Some (name, e) \<Rightarrow> skip_name m start = Some e \<and> start < e \<and> e \<le> length m \<and> length name \<le> 255
          \<and> (\<exists>ls. canonical_labels ls \<and> name = make_ascii_lowercase (concat ls)))"
proof (cases "fst (name_labels m start)")
  case (Some e)
  then have r: "returned (read_name m start)
      = Some (make_ascii_lowercase (concat (snd (name_labels m start))), e)"
    by (simp add: read_name_labels)
  from read_name_Some [OF r] name_labels_canonical [OF Some] Some show ?thesis
    by (auto simp: read_name_labels)
qed (simp add: read_name_labels skip_name_labels)

end
