(* ===== verification/Wire_Records.thy ===== *)
theory Wire_Records
  imports Wire_Names
begin

text \<open>
  Resource records, \<open>src/src/wire.rs\<close>: parsing one record, finding the end of the question
  section, ageing every TTL in place and computing for how long a response may be cached.
  \<open>cache_ttl_ref\<close> restates the cache lifetime over the parsed sections, without the scan.
\<close>

section \<open>One resource record\<close>

record resource_record =
  rr_kind :: u16
  rr_class :: u16
  rr_ttl :: u32
  ttl_offset :: nat
  rdata_offset :: nat
  rdlen :: nat
  rr_end :: nat

definition parse_rr :: "bytes \<Rightarrow> nat \<Rightarrow> resource_record option" where
  "parse_rr message start = do {
     offset \<leftarrow> skip_name message start;
     kind \<leftarrow> read_u16 message offset;
     cls \<leftarrow> read_u16 message (offset + 2);
     let ttl_off = offset + 4;
     ttl \<leftarrow> read_u32 message ttl_off;
     len \<leftarrow> read_u16 message (offset + 8);
     let rdata_off = offset + 10;
     let end_off = rdata_off + unat len;
     if end_off \<le> length message
     then Some \<lparr>rr_kind = kind, rr_class = cls, rr_ttl = ttl, ttl_offset = ttl_off,
                rdata_offset = rdata_off, rdlen = unat len, rr_end = end_off\<rparr>
     else None }"

lemma parse_rr_bounds [wire_bounds]:
  assumes "parse_rr m start = Some rr"
  shows "start + 5 \<le> ttl_offset rr" "ttl_offset rr + 6 \<le> rr_end rr" "rr_end rr \<le> length m"
    "read_u32 m (ttl_offset rr) = Some (rr_ttl rr)" "rr_end rr = rdata_offset rr + rdlen rr"
proof -
  obtain off where off: "skip_name m start = Some off" "start < off"
    "ttl_offset rr = off + 4" "rdata_offset rr = off + 10" "rr_end rr = off + 10 + rdlen rr"
    "rr_end rr \<le> length m" "read_u32 m (off + 4) = Some (rr_ttl rr)"
    using assms skip_name_bound
    by (auto simp: parse_rr_def Let_def bind_eq_Some_conv split: if_splits)
  then show "start + 5 \<le> ttl_offset rr" "ttl_offset rr + 6 \<le> rr_end rr" "rr_end rr \<le> length m"
    "read_u32 m (ttl_offset rr) = Some (rr_ttl rr)" "rr_end rr = rdata_offset rr + rdlen rr"
    by simp_all
qed

fun questions_loop :: "nat \<Rightarrow> bytes \<Rightarrow> nat \<Rightarrow> nat option" where
  "questions_loop 0 message offset = Some offset"
| "questions_loop (Suc n) message offset = do {
     name_end \<leftarrow> skip_name message offset;
     let offset' = name_end + 4;
     if offset' > length message then None else questions_loop n message offset' }"

definition questions_end :: "bytes \<Rightarrow> nat option" where
  "questions_end message = do {
     count \<leftarrow> read_u16 message 4;
     questions_loop (unat count) message HEADER_LEN }"

lemma questions_loop_bound:
  "questions_loop n m off = Some e \<Longrightarrow> off \<le> e \<and> (off \<le> length m \<longrightarrow> e \<le> length m)"
proof (induction n arbitrary: off)
  case (Suc n)
  then obtain x where "skip_name m off = Some x" "x + 4 \<le> length m"
      "questions_loop n m (x + 4) = Some e"
    by (auto simp: Let_def bind_eq_Some_conv split: if_splits)
  with Suc.IH skip_name_bound [of m off x] show ?case by fastforce
qed simp

lemma questions_end_bound [wire_bounds]:
  assumes "questions_end m = Some e"
  shows "12 \<le> e" "12 \<le> length m \<Longrightarrow> e \<le> length m"
  using assms questions_loop_bound by (auto simp: questions_end_def bind_eq_Some_conv)

definition total_rr_count :: "bytes \<Rightarrow> nat option" where
  "total_rr_count message = do {
     a \<leftarrow> read_u16 message 6;
     b \<leftarrow> read_u16 message 8;
     c \<leftarrow> read_u16 message 10;
     Some (unat a + unat b + unat c) }"

definition soa_minimum :: "bytes \<Rightarrow> resource_record \<Rightarrow> u32 option" where
  "soa_minimum message rr = do {
     let rdata_end = rdata_offset rr + rdlen rr;
     offset \<leftarrow> skip_name message (rdata_offset rr);
     if offset > rdata_end then None else do {
       offset \<leftarrow> skip_name message offset;
       if offset + 20 > rdata_end then None
       else read_u32 message (offset + 16) } }"

section \<open>Ageing the TTLs\<close>

definition age_record :: "u32 \<Rightarrow> resource_record \<Rightarrow> bytes \<Rightarrow> bytes" where
  "age_record elapsed rr message =
     (if rr_kind rr \<noteq> TYPE_OPT
      then patch message (ttl_offset rr) (to_be32 (saturating_sub (rr_ttl rr) elapsed))
      else message)"

fun adjust_loop :: "nat \<Rightarrow> bytes \<Rightarrow> nat \<Rightarrow> u32 \<Rightarrow> bool \<times> bytes" where
  "adjust_loop 0 message offset elapsed = (offset = length message, message)"
| "adjust_loop (Suc n) message offset elapsed =
     (case parse_rr message offset of
        None \<Rightarrow> (False, message)
      | Some rr \<Rightarrow> adjust_loop n (age_record elapsed rr message) (rr_end rr) elapsed)"

text \<open>\<open>elapsed_secs.min(u32::MAX) as u32\<close>; the source's \<open>&mut [u8]\<close> is returned updated.\<close>

definition clamp_elapsed :: "nat \<Rightarrow> u32" where
  "clamp_elapsed elapsed_secs = word_of_nat (min elapsed_secs (2 ^ 32 - 1))"

definition adjust_ttls :: "bytes \<Rightarrow> nat \<Rightarrow> bool \<times> bytes" where
  "adjust_ttls message elapsed_secs =
     (if length message < HEADER_LEN then (False, message)
      else case questions_end message of
        None \<Rightarrow> (False, message)
      | Some offset \<Rightarrow>
          (case total_rr_count message of
             None \<Rightarrow> (False, message)
           | Some count \<Rightarrow> adjust_loop count message offset (clamp_elapsed elapsed_secs)))"

lemma unat_clamp_elapsed: "unat (clamp_elapsed n) = min n (2 ^ 32 - 1)"
  by (simp add: clamp_elapsed_def unat_of_nat)

text \<open>The records the loop meets, in order.\<close>

fun adjust_trace :: "nat \<Rightarrow> bytes \<Rightarrow> nat \<Rightarrow> u32 \<Rightarrow> resource_record list" where
  "adjust_trace 0 message offset elapsed = []"
| "adjust_trace (Suc n) message offset elapsed =
     (case parse_rr message offset of
        None \<Rightarrow> []
      | Some rr \<Rightarrow>
          rr # adjust_trace n (age_record elapsed rr message) (rr_end rr) elapsed)"

definition aged_records :: "bytes \<Rightarrow> nat \<Rightarrow> resource_record list" where
  "aged_records message elapsed_secs =
     (case (questions_end message, total_rr_count message) of
        (Some offset, Some count) \<Rightarrow> adjust_trace count message offset (clamp_elapsed elapsed_secs)
      | _ \<Rightarrow> [])"

definition ttl_field :: "resource_record \<Rightarrow> nat set" where
  "ttl_field rr = {ttl_offset rr ..< ttl_offset rr + 4}"

lemma read_u32_cong:
  "length m = length m' \<Longrightarrow> (\<And>i. k \<le> i \<Longrightarrow> i < k + 4 \<Longrightarrow> i < length m \<Longrightarrow> m ! i = m' ! i) \<Longrightarrow>
     read_u32 m k = read_u32 m' k"
  by (auto simp: read_u32_def get_def)

lemma read_u32_patch:
  assumes "k + 4 \<le> length m" shows "read_u32 (patch m k (to_be32 v)) k = Some v"
  using assms be32_roundtrip [of v] by (simp add: read_u32_Some_iff nth_patch)

text \<open>
  What ageing does to a message from \<open>off\<close> on, when it met the records \<open>rrs\<close>: the length
  stays, only TTL fields of records other than OPT change, and every TTL read before is the
  one subtracted from.
\<close>

definition aged_to :: "u32 \<Rightarrow> nat \<Rightarrow> resource_record list \<Rightarrow> bytes \<Rightarrow> bytes \<Rightarrow> bool" where
  "aged_to e off rrs m m' \<longleftrightarrow> length m' = length m
     \<and> (\<forall>i < length m. i < off \<longrightarrow> m' ! i = m ! i)
     \<and> (\<forall>i < length m. (\<forall>rr \<in> set rrs. rr_kind rr \<noteq> TYPE_OPT \<longrightarrow> i \<notin> ttl_field rr) \<longrightarrow> m' ! i = m ! i)
     \<and> (\<forall>rr \<in> set rrs. off \<le> ttl_offset rr \<and> read_u32 m (ttl_offset rr) = Some (rr_ttl rr)
           \<and> read_u32 m' (ttl_offset rr)
               = Some (if rr_kind rr = TYPE_OPT then rr_ttl rr else saturating_sub (rr_ttl rr) e))"

lemma aged_to_refl [simp]: "aged_to e off [] m m"
  by (simp add: aged_to_def)

lemma aged_to_Cons:
  assumes rr: "parse_rr m off = Some rr"
    and IH: "aged_to e (rr_end rr) rrs (age_record e rr m) m'"
  shows "aged_to e off (rr # rrs) m m'"
proof -
  let ?p = "age_record e rr m"
  note B = parse_rr_bounds [OF rr]
  have lp: "length ?p = length m" using B by (simp add: age_record_def)
  have np: "?p ! i = m ! i" if "i < length m" "rr_kind rr \<noteq> TYPE_OPT \<longrightarrow> i \<notin> ttl_field rr" for i
    using that B by (auto simp: age_record_def nth_patch ttl_field_def)
  have before: "m' ! i = ?p ! i" if "i < rr_end rr" "i < length m" for i
    using IH that lp by (simp add: aged_to_def)
  have "read_u32 m' (ttl_offset rr) = read_u32 ?p (ttl_offset rr)"
    using IH lp B before by (intro read_u32_cong) (auto simp: aged_to_def)
  then have here: "read_u32 m' (ttl_offset rr)
      = Some (if rr_kind rr = TYPE_OPT then rr_ttl rr else saturating_sub (rr_ttl rr) e)"
    using B by (auto simp: age_record_def read_u32_patch)
  have later: "off \<le> ttl_offset r \<and> read_u32 m (ttl_offset r) = Some (rr_ttl r)"
    if "r \<in> set rrs" for r
  proof -
    have r: "rr_end rr \<le> ttl_offset r" "read_u32 ?p (ttl_offset r) = Some (rr_ttl r)"
      using IH that by (auto simp: aged_to_def)
    have "read_u32 m (ttl_offset r) = read_u32 ?p (ttl_offset r)"
      using r B lp by (intro read_u32_cong) (auto simp: np ttl_field_def)
    with r B show ?thesis by simp
  qed
  have "m' ! i = m ! i" if "i < length m" "i < off" for i
    using that before np B by (auto simp: ttl_field_def)
  moreover have "m' ! i = m ! i"
    if "i < length m" "\<forall>r \<in> set (rr # rrs). rr_kind r \<noteq> TYPE_OPT \<longrightarrow> i \<notin> ttl_field r" for i
    using that IH lp np by (simp add: aged_to_def)
  ultimately show ?thesis using IH lp B here later by (simp add: aged_to_def)
qed

lemma adjust_loop_aged:
  "adjust_loop n m off e = (ok, m') \<Longrightarrow> aged_to e off (adjust_trace n m off e) m m'
     \<and> (ok \<longrightarrow> length (adjust_trace n m off e) = n)"
proof (induction n m off e arbitrary: ok m' rule: adjust_loop.induct)
  case (2 n m off e)
  then show ?case by (cases "parse_rr m off") (auto intro: aged_to_Cons)
qed simp

lemma aged_to_mono: "aged_to e off rrs m m' \<Longrightarrow> k \<le> off \<Longrightarrow> aged_to e k rrs m m'"
  by (fastforce simp: aged_to_def)

lemma total_rr_count_bound: "total_rr_count m = Some n \<Longrightarrow> 12 \<le> length m"
  by (auto simp: total_rr_count_def bind_eq_Some_conv dest: read_u16_bound)

lemma adjust_ttls_cases:
  assumes "adjust_ttls m secs = (ok, m')"
  obtains (refused) "\<not> ok" "m' = m" "aged_records m secs = []"
  | (aged) q n where "questions_end m = Some q" "total_rr_count m = Some n" "12 \<le> q"
      "adjust_loop n m q (clamp_elapsed secs) = (ok, m')"
      "aged_records m secs = adjust_trace n m q (clamp_elapsed secs)"
proof (cases "length m < 12 \<or> questions_end m = None \<or> total_rr_count m = None")
  case True
  moreover have "total_rr_count m = None" if "length m < 12"
    using that total_rr_count_bound [of m] by (cases "total_rr_count m") auto
  ultimately have "\<not> ok" "m' = m" "aged_records m secs = []"
    using assms by (auto simp: adjust_ttls_def aged_records_def split: option.splits)
  then show ?thesis by (rule refused)
next
  case False
  then obtain q n where "questions_end m = Some q" "total_rr_count m = Some n" "\<not> length m < 12"
    by auto
  with assms questions_end_bound(1) [of m q] show ?thesis
    by (intro aged [of q n]) (auto simp: adjust_ttls_def aged_records_def)
qed

lemma adjust_ttls_aged:
  assumes "adjust_ttls m secs = (ok, m')"
  shows "aged_to (clamp_elapsed secs) 12 (aged_records m secs) m m'"
    and "ok \<Longrightarrow> 12 \<le> length m \<and> total_rr_count m = Some (length (aged_records m secs))"
    and "questions_end m = Some q \<Longrightarrow> i < q \<Longrightarrow> i < length m \<Longrightarrow> m' ! i = m ! i"
  by (cases rule: adjust_ttls_cases [OF assms];
      use adjust_loop_aged total_rr_count_bound in \<open>fastforce simp: aged_to_def\<close>)+

lemma adjust_ttls_length: "adjust_ttls m secs = (ok, m') \<Longrightarrow> length m' = length m"
  using adjust_ttls_aged(1) by (auto simp: aged_to_def)

section \<open>How long a response may be cached\<close>

record ttl_scan =
  positive_min :: "u32 option"
  soa_min :: "u32 option"
  has_requested_answer :: bool
  has_cname :: bool

definition min_into :: "u32 option \<Rightarrow> u32 \<Rightarrow> u32 option" where
  "min_into acc t = Some (case acc of None \<Rightarrow> t | Some ttl \<Rightarrow> min ttl t)"

text \<open>The body of the record loop: \<open>None\<close> is the early return on a malformed SOA.\<close>

definition scan_rr :: "bytes \<Rightarrow> u16 \<Rightarrow> nat \<Rightarrow> nat \<Rightarrow> nat \<Rightarrow> resource_record \<Rightarrow> ttl_scan \<Rightarrow> ttl_scan option"
where
  "scan_rr message query_type answers authorities index rr scan =
     (let in_answer = index < answers;
          in_authority = index \<ge> answers \<and> index < answers + authorities;
          scan = (if in_answer \<or> in_authority
                  then scan\<lparr>positive_min := min_into (positive_min scan) (rr_ttl rr)\<rparr> else scan);
          scan = (if in_answer
                  then scan\<lparr>has_requested_answer := has_requested_answer scan \<or> rr_kind rr = query_type,
                            has_cname := has_cname scan \<or> rr_kind rr = TYPE_CNAME\<rparr> else scan)
      in if in_authority \<and> rr_kind rr = TYPE_SOA
         then do {
           minimum \<leftarrow> soa_minimum message rr;
           Some (scan\<lparr>soa_min := min_into (soa_min scan) (min (rr_ttl rr) minimum)\<rparr>) }
         else Some scan)"

fun scan_loop :: "bytes \<Rightarrow> u16 \<Rightarrow> nat \<Rightarrow> nat \<Rightarrow> nat \<Rightarrow> nat \<Rightarrow> nat \<Rightarrow> ttl_scan \<Rightarrow> (nat \<times> ttl_scan) option"
where
  "scan_loop message query_type answers authorities index 0 offset scan = Some (offset, scan)"
| "scan_loop message query_type answers authorities index (Suc n) offset scan = do {
     rr \<leftarrow> parse_rr message offset;
     scan \<leftarrow> scan_rr message query_type answers authorities index rr scan;
     scan_loop message query_type answers authorities (index + 1) n (rr_end rr) scan }"

definition empty_scan :: ttl_scan where
  "empty_scan = \<lparr>positive_min = None, soa_min = None, has_requested_answer = False, has_cname = False\<rparr>"

definition cacheable_header :: "bytes \<Rightarrow> bool" where
  "cacheable_header message \<longleftrightarrow>
     \<not> (length message < HEADER_LEN \<or> message ! 2 AND 0x80 = 0 \<or> message ! 2 AND 0x02 \<noteq> 0)
     \<and> (message ! 3 AND 0x0F = 0 \<or> message ! 3 AND 0x0F = 3)"

definition chosen_ttl :: "u8 \<Rightarrow> ttl_scan \<Rightarrow> u32 option" where
  "chosen_ttl rcode scan =
     (if rcode = 3 \<or> (rcode = 0 \<and> soa_min scan \<noteq> None \<and> \<not> has_requested_answer scan)
      then do {
        ttl \<leftarrow> soa_min scan;
        ttl \<leftarrow> (if has_cname scan then map_option (min ttl) (positive_min scan) else Some ttl);
        if ttl > 0 then Some (min ttl 600) else None }
      else do {
        ttl \<leftarrow> positive_min scan;
        if ttl > 0 then Some (min ttl 86400) else None })"

definition cache_ttl :: "bytes \<Rightarrow> u16 \<Rightarrow> u32 option" where
  "cache_ttl message query_type =
     (if \<not> cacheable_header message then None else do {
        answers \<leftarrow> read_u16 message 6;
        authorities \<leftarrow> read_u16 message 8;
        additionals \<leftarrow> read_u16 message 10;
        offset \<leftarrow> questions_end message;
        (offset, scan) \<leftarrow> scan_loop message query_type (unat answers) (unat authorities) 0
                            (unat answers + unat authorities + unat additionals) offset empty_scan;
        if offset \<noteq> length message then None
        else chosen_ttl (message ! 3 AND 0x0F) scan })"

section \<open>The lifetime over the parsed sections\<close>

fun parse_rrs :: "bytes \<Rightarrow> nat \<Rightarrow> nat \<Rightarrow> (resource_record list \<times> nat) option" where
  "parse_rrs message offset 0 = Some ([], offset)"
| "parse_rrs message offset (Suc n) = do {
     rr \<leftarrow> parse_rr message offset;
     (rrs, e) \<leftarrow> parse_rrs message (rr_end rr) n;
     Some (rr # rrs, e) }"

definition minimum_of :: "u32 list \<Rightarrow> u32 option" where
  "minimum_of ts = (if ts = [] then None else Some (Min (set ts)))"

text \<open>The answer, authority and additional records of a response that is consumed exactly.\<close>

definition sections :: "bytes \<Rightarrow> (resource_record list \<times> resource_record list) option" where
  "sections message = do {
     answers \<leftarrow> read_u16 message 6;
     authorities \<leftarrow> read_u16 message 8;
     additionals \<leftarrow> read_u16 message 10;
     offset \<leftarrow> questions_end message;
     (rrs, e) \<leftarrow> parse_rrs message offset (unat answers + unat authorities + unat additionals);
     if e \<noteq> length message then None
     else Some (take (unat answers) rrs, take (unat authorities) (drop (unat answers) rrs)) }"

definition soa_lifetimes :: "bytes \<Rightarrow> resource_record list \<Rightarrow> u32 list option" where
  "soa_lifetimes message rrs =
     those (map (\<lambda>rr. map_option (min (rr_ttl rr)) (soa_minimum message rr))
              (filter (\<lambda>rr. rr_kind rr = TYPE_SOA) rrs))"

definition section_lifetime ::
  "u8 \<Rightarrow> u16 \<Rightarrow> resource_record list \<Rightarrow> resource_record list \<Rightarrow> u32 list \<Rightarrow> u32 option" where
  "section_lifetime rcode query_type answer authority negatives =
     (let ttls = map rr_ttl (answer @ authority);
          requested = (\<exists>rr \<in> set answer. rr_kind rr = query_type);
          aliased = (\<exists>rr \<in> set answer. rr_kind rr = TYPE_CNAME)
      in if rcode = 3 \<or> (negatives \<noteq> [] \<and> \<not> requested)
         then (if negatives = [] then None else do {
                 ttl \<leftarrow> minimum_of (if aliased then negatives @ ttls else negatives);
                 if ttl = 0 then None else Some (min ttl 600) })
         else do {
           ttl \<leftarrow> minimum_of ttls;
           if ttl = 0 then None else Some (min ttl 86400) })"

definition cache_ttl_ref :: "bytes \<Rightarrow> u16 \<Rightarrow> u32 option" where
  "cache_ttl_ref message query_type =
     (if \<not> cacheable_header message then None else do {
        (answer, authority) \<leftarrow> sections message;
        negatives \<leftarrow> soa_lifetimes message authority;
        section_lifetime (message ! 3 AND 0x0F) query_type answer authority negatives })"

lemma min_into_minimum: "min_into (minimum_of ts) t = minimum_of (ts @ [t])"
  by (auto simp: min_into_def minimum_of_def min.commute)

lemma those_append:
  "those (xs @ ys) = (case those xs of None \<Rightarrow> None | Some as \<Rightarrow> map_option ((@) as) (those ys))"
proof (induction xs)
  case Nil
  show ?case by (cases "those ys") simp_all
next
  case (Cons x xs)
  then show ?case by (cases "those ys") (auto split: option.splits)
qed

text \<open>The state of the scan after the records \<open>rrs\<close>, read off the sections.\<close>

definition scan_of :: "bytes \<Rightarrow> u16 \<Rightarrow> nat \<Rightarrow> nat \<Rightarrow> resource_record list \<Rightarrow> ttl_scan option" where
  "scan_of m qt a b rrs =
     map_option (\<lambda>negatives. \<lparr>positive_min = minimum_of (map rr_ttl (take (a + b) rrs)),
          soa_min = minimum_of negatives,
          has_requested_answer = (\<exists>rr \<in> set (take a rrs). rr_kind rr = qt),
          has_cname = (\<exists>rr \<in> set (take a rrs). rr_kind rr = TYPE_CNAME)\<rparr>)
       (soa_lifetimes m (take b (drop a rrs)))"

lemma scan_of_Nil: "scan_of m qt a b [] = Some empty_scan"
  by (simp add: scan_of_def soa_lifetimes_def empty_scan_def minimum_of_def)

lemma take_snoc: "take k (xs @ [x]) = (if length xs < k then take k xs @ [x] else take k xs)"
  by (cases "k - length xs") auto

lemma section_snoc:
  "take b (drop a (xs @ [x])) =
     (if a \<le> length xs \<and> length xs < a + b then take b (drop a xs) @ [x] else take b (drop a xs))"
  by (cases "a \<le> length xs") (auto simp: take_snoc)

lemma soa_lifetimes_snoc:
  "soa_lifetimes m (rrs @ [rr]) =
     (if rr_kind rr = TYPE_SOA
      then do { ts \<leftarrow> soa_lifetimes m rrs; t \<leftarrow> soa_minimum m rr; Some (ts @ [min (rr_ttl rr) t]) }
      else soa_lifetimes m rrs)"
  by (auto simp: soa_lifetimes_def those_append split: option.split bind_split)

lemma scan_of_snoc:
  "scan_of m qt a b (rrs @ [rr]) = Option.bind (scan_of m qt a b rrs) (scan_rr m qt a b (length rrs) rr)"
proof (cases "soa_lifetimes m (take b (drop a rrs))")
  case None
  then show ?thesis
    by (simp add: scan_of_def section_snoc soa_lifetimes_snoc del: take_append drop_append)
next
  case (Some ts)
  consider "length rrs < a" | "a \<le> length rrs" "length rrs < a + b" | "a + b \<le> length rrs"
    by linarith
  then show ?thesis
    by cases (use Some in \<open>auto simp: scan_of_def scan_rr_def Let_def take_snoc section_snoc soa_lifetimes_snoc
        min_into_minimum split: bind_split\<close>)
qed

lemma scan_of_prefix_None: "scan_of m qt a b rrs = None \<Longrightarrow> scan_of m qt a b (rrs @ later) = None"
proof (induction later rule: rev_induct)
  case (snoc x xs)
  then show ?case by (simp flip: append_assoc add: scan_of_snoc)
qed simp

lemma scan_loop_parse:
  assumes "scan_of m qt a b seen = Some scan"
  shows "scan_loop m qt a b (length seen) n off scan =
     (case parse_rrs m off n of None \<Rightarrow> None
      | Some (rrs, e) \<Rightarrow> map_option (Pair e) (scan_of m qt a b (seen @ rrs)))"
  using assms
proof (induction n arbitrary: off seen scan)
  case (Suc n)
  show ?case
  proof (cases "parse_rr m off")
    case (Some rr)
    have snoc: "scan_of m qt a b (seen @ [rr]) = scan_rr m qt a b (length seen) rr scan"
      by (simp add: scan_of_snoc Suc.prems)
    show ?thesis
    proof (cases "scan_rr m qt a b (length seen) rr scan")
      case None
      with snoc have "scan_of m qt a b (seen @ rr # later) = None" for later
        using scan_of_prefix_None [of m qt a b "seen @ [rr]" later] by simp
      with None Some show ?thesis by (auto split: option.split bind_split)
    next
      case (Some scan')
      from Suc.IH [of "seen @ [rr]" scan'] snoc Some \<open>parse_rr m off = Some rr\<close>
      show ?thesis by (auto split: option.split bind_split)
    qed
  qed simp
qed simp

lemma parse_rrs_length: "parse_rrs m off n = Some (rrs, e) \<Longrightarrow> length rrs = n"
  by (induction n arbitrary: off rrs) (auto simp: bind_eq_Some_conv)

lemma minimum_of_eq_None [simp]: "minimum_of ts = None \<longleftrightarrow> ts = []"
  by (simp add: minimum_of_def)

lemma minimum_of_Nil [simp]: "minimum_of [] = None"
  by (simp add: minimum_of_def)

lemma minimum_of_append:
  "ts \<noteq> [] \<Longrightarrow> us \<noteq> [] \<Longrightarrow> minimum_of (ts @ us) = Some (min (the (minimum_of ts)) (the (minimum_of us)))"
  by (simp add: minimum_of_def Min_Un)

lemma chosen_ttl_ref:
  assumes "scan_of m qt a b rrs = Some scan" "rcode = 0 \<or> rcode = 3"
    and "soa_lifetimes m (take b (drop a rrs)) = Some negatives"
  shows "chosen_ttl rcode scan
     = section_lifetime rcode qt (take a rrs) (take b (drop a rrs)) negatives"
proof -
  let ?ttls = "map rr_ttl (take (a + b) rrs)"
  let ?aliased = "\<exists>rr \<in> set (take a rrs). rr_kind rr = TYPE_CNAME"
  have scan: "positive_min scan = minimum_of ?ttls" "soa_min scan = minimum_of negatives"
    "has_requested_answer scan = (\<exists>rr \<in> set (take a rrs). rr_kind rr = qt)"
    "has_cname scan = ?aliased"
    using assms(1,3) by (auto simp: scan_of_def)
  have ne: "?ttls \<noteq> []" if ?aliased using that by (cases rrs; cases a) auto
  have ttls: "map rr_ttl (take a rrs @ take b (drop a rrs)) = ?ttls" by (simp add: take_add)
  show ?thesis
  proof (cases "negatives = []")
    case True
    then show ?thesis unfolding section_lifetime_def ttls Let_def using assms(2)
      by (auto simp: chosen_ttl_def scan word_gt_0 split: bind_split)
  next
    case False
    then show ?thesis unfolding section_lifetime_def ttls Let_def using ne assms(2)
      by (auto simp: chosen_ttl_def scan word_gt_0 minimum_of_append split: bind_split)
  qed
qed

text \<open>The streaming scan computes the sectioned lifetime.\<close>

lemma scan_chosen:
  assumes "rcode = 0 \<or> rcode = 3"
  shows "Option.bind (scan_loop m qt a b 0 n off empty_scan)
       (\<lambda>(offset, scan). if offset \<noteq> length m then None else chosen_ttl rcode scan)
     = do {
         (rrs, e) \<leftarrow> parse_rrs m off n;
         if e \<noteq> length m then None else do {
           negatives \<leftarrow> soa_lifetimes m (take b (drop a rrs));
           section_lifetime rcode qt (take a rrs) (take b (drop a rrs)) negatives } }"
proof (cases "parse_rrs m off n")
  case None
  then show ?thesis using scan_loop_parse [OF scan_of_Nil, of m qt a b n off] by simp
next
  case (Some p)
  obtain rrs e where p: "p = (rrs, e)" by fastforce
  have "scan_loop m qt a b 0 n off empty_scan = map_option (Pair e) (scan_of m qt a b rrs)"
    using scan_loop_parse [OF scan_of_Nil, of m qt a b n off] Some p by simp
  then show ?thesis
    using Some p chosen_ttl_ref [OF _ assms, of m qt a b rrs]
    by (cases "soa_lifetimes m (take b (drop a rrs))") (auto simp: scan_of_def)
qed

lemma cache_ttl_is_ref: "cache_ttl m qt = cache_ttl_ref m qt"
proof (cases "cacheable_header m")
  case True
  then have "m ! 3 AND 0x0F = 0 \<or> m ! 3 AND 0x0F = 3" by (simp add: cacheable_header_def)
  then show ?thesis
    using True unfolding cache_ttl_def cache_ttl_ref_def sections_def
    by (auto simp: scan_chosen split: bind_split)
qed (simp add: cache_ttl_def cache_ttl_ref_def)

lemma u32_600_le: "(t :: u32) \<le> 600 \<Longrightarrow> t \<le> 86400"
  by (erule order_trans) simp

lemma section_lifetime_bounds:
  assumes "section_lifetime rcode qt answer authority negatives = Some t"
  shows "0 < t" "t \<le> 86400" "rcode = 3 \<Longrightarrow> t \<le> 600"
  using assms
  by (auto simp: section_lifetime_def Let_def min_def word_gt_0 bind_eq_Some_conv u32_600_le
      split: if_splits)

lemma minimum_of_le: "minimum_of ts = Some t \<Longrightarrow> u \<in> set ts \<Longrightarrow> t \<le> u"
  by (auto simp: minimum_of_def split: if_splits)

text \<open>No lifetime exceeds a TTL it was derived from: short TTLs are never extended.\<close>

lemma section_lifetime_le:
  assumes "section_lifetime rcode qt answer authority negatives = Some t"
  shows "if rcode = 3 \<or> (negatives \<noteq> [] \<and> \<not> (\<exists>rr \<in> set answer. rr_kind rr = qt))
     then \<forall>n \<in> set negatives. t \<le> n else \<forall>rr \<in> set (answer @ authority). t \<le> rr_ttl rr"
proof (cases "rcode = 3 \<or> (negatives \<noteq> [] \<and> \<not> (\<exists>rr \<in> set answer. rr_kind rr = qt))")
  case True
  then obtain u where u: "minimum_of (if \<exists>rr \<in> set answer. rr_kind rr = TYPE_CNAME
      then negatives @ map rr_ttl (answer @ authority) else negatives) = Some u" "t = min u 600"
    using assms by (auto simp: section_lifetime_def Let_def bind_eq_Some_conv split: if_splits)
  then have "t \<le> n" if "n \<in> set negatives" for n
    using minimum_of_le [OF u(1)] that by (auto simp: min_le_iff_disj)
  with True show ?thesis by simp
next
  case False
  then obtain u where u: "minimum_of (map rr_ttl (answer @ authority)) = Some u" "t = min u 86400"
    using assms unfolding section_lifetime_def Let_def
    by (auto simp: bind_eq_Some_conv split: if_splits)
  then have "t \<le> rr_ttl rr" if "rr \<in> set (answer @ authority)" for rr
    using minimum_of_le [OF u(1)] that by (auto simp: min_le_iff_disj)
  with False show ?thesis by auto
qed

lemma cache_ttl_Some:
  assumes "cache_ttl m qt = Some t"
  shows "0 < t" "t \<le> 86400" "m ! 3 AND 0x0F = 3 \<Longrightarrow> t \<le> 600" "12 \<le> length m" "cacheable_header m"
  using assms section_lifetime_bounds
  by (auto simp: cache_ttl_is_ref cache_ttl_ref_def bind_eq_Some_conv cacheable_header_def
      split: if_splits)

section \<open>Properties\<close>

text \<open>C25: Ageing a message rewrites nothing but the TTL fields of its records: every record but
  OPT loses the elapsed seconds, saturating at zero, OPT records and all bytes outside TTL fields
  are kept, and success means that every counted record was aged.\<close>

theorem adjust_ttls_effect:
  assumes "adjust_ttls m secs = (ok, m')"
  shows "length m' = length m \<and> aged_to (clamp_elapsed secs) 12 (aged_records m secs) m m'
     \<and> (ok \<longrightarrow> total_rr_count m = Some (length (aged_records m secs)))"
  using adjust_ttls_aged [OF assms] adjust_ttls_length [OF assms] by blast

lemma adjust_ttls_effect_witness:
  "fst (adjust_ttls sample_response 20) \<and>
   total_rr_count sample_response = Some (length (aged_records sample_response 20))"
proof -
  have ok: "fst (adjust_ttls sample_response 20)" by code_simp
  then have "adjust_ttls sample_response 20 = (True, snd (adjust_ttls sample_response 20))"
    by (cases "adjust_ttls sample_response 20") simp
  from adjust_ttls_effect [OF this] ok show ?thesis by simp
qed

text \<open>C18: The single scan that computes a response's cache lifetime agrees with the specification
  that first parses the sections and then takes minima.\<close>

theorem cache_ttl_reference: "cache_ttl m qt = cache_ttl_ref m qt"
  by (rule cache_ttl_is_ref)

text \<open>C19: A cache lifetime is positive, at most a day, at most ten minutes for a name error, and
  never longer than a TTL it stands for: the SOA lifetimes of a negative answer, or the TTL of
  every answer and authority record of a positive one.\<close>

theorem cache_ttl_never_extends:
  assumes "cache_ttl m qt = Some t"
  shows "0 < t \<and> t \<le> 86400 \<and> (m ! 3 AND 0x0F = 3 \<longrightarrow> t \<le> 600) \<and>
    (\<exists>answer authority negatives. sections m = Some (answer, authority)
       \<and> soa_lifetimes m authority = Some negatives
       \<and> (if m ! 3 AND 0x0F = 3 \<or> (negatives \<noteq> [] \<and> \<not> (\<exists>rr \<in> set answer. rr_kind rr = qt))
          then \<forall>n \<in> set negatives. t \<le> n
          else \<forall>rr \<in> set (answer @ authority). t \<le> rr_ttl rr))"
proof -
  from assms obtain answer authority negatives where
    s: "sections m = Some (answer, authority)" "soa_lifetimes m authority = Some negatives"
      "section_lifetime (m ! 3 AND 0x0F) qt answer authority negatives = Some t"
    by (auto simp: cache_ttl_is_ref cache_ttl_ref_def bind_eq_Some_conv split: if_splits)
  from section_lifetime_le [OF s(3)] s(1,2) cache_ttl_Some(1,2,3) [OF assms] show ?thesis by blast
qed

lemma cache_ttl_never_extends_witness:
  "cache_ttl sample_nxdomain 1 = Some 300 \<and>
   (\<exists>answer authority. sections sample_nxdomain = Some (answer, authority))"
proof -
  have t: "cache_ttl sample_nxdomain 1 = Some 300" by code_simp
  from cache_ttl_never_extends [OF t] t show ?thesis by blast
qed

end
