(* ===== verification/Wire_Query.thy ===== *)
theory Wire_Query
  imports Wire_Records
begin

text \<open>
  Whole-message operations of \<open>src/src/wire.rs\<close>: the cache key of a query, the UDP payload
  size a client advertises, truncation, the check that a response answers a query, and the
  test for several questions.  The allocation-free question comparison is specified by
  comparing canonical names.
\<close>

section \<open>Query metadata\<close>

record query_key =
  qname :: bytes
  qtype :: u16
  qclass :: u16
  do_bit :: bool
  edns :: bool
  dnssec_header_bits :: u8

record query_meta =
  key :: query_key
  udp_size :: nat

fun skip_rrs :: "nat \<Rightarrow> bytes \<Rightarrow> nat \<Rightarrow> nat option" where
  "skip_rrs 0 message offset = Some offset"
| "skip_rrs (Suc n) message offset = do {
     rr \<leftarrow> parse_rr message offset;
     skip_rrs n message (rr_end rr) }"

record edns_scan =
  es_udp_size :: nat
  es_do_bit :: bool
  es_saw_opt :: bool

text \<open>The loop over the additional section: at most one OPT, without options, of version 0.\<close>

fun edns_loop :: "nat \<Rightarrow> bytes \<Rightarrow> nat \<Rightarrow> edns_scan \<Rightarrow> (nat \<times> edns_scan) option" where
  "edns_loop 0 message offset scan = Some (offset, scan)"
| "edns_loop (Suc n) message offset scan = do {
     rr \<leftarrow> parse_rr message offset;
     if rr_kind rr \<noteq> TYPE_OPT \<or> es_saw_opt scan then None else do {
       version \<leftarrow> (if rdlen rr \<noteq> 0 then None else get message (ttl_offset rr + 1));
       if version \<noteq> 0 then None else do {
         flags \<leftarrow> read_u32 message (ttl_offset rr);
         edns_loop n message (rr_end rr)
           \<lparr>es_udp_size = clamp 512 4096 (unat (rr_class rr)),
            es_do_bit = (flags AND 0x8000 \<noteq> 0), es_saw_opt = True\<rparr> } } }"

definition parse_query_meta :: "bytes \<Rightarrow> query_meta option" where
  "parse_query_meta message =
     (if length message < HEADER_LEN then None else do {
        flags \<leftarrow> read_u16 message 2;
        questions \<leftarrow> read_u16 message 4;
        if flags AND 0x8000 \<noteq> 0 \<or> flags AND 0x7800 \<noteq> 0 \<or> flags AND 0x0100 = 0 \<or> questions \<noteq> 1
        then None else do {
          (qname, offset) \<leftarrow> returned (read_name message HEADER_LEN);
          qtype \<leftarrow> read_u16 message offset;
          qclass \<leftarrow> read_u16 message (offset + 2);
          answer_count \<leftarrow> read_u16 message 6;
          authority_count \<leftarrow> read_u16 message 8;
          offset \<leftarrow> skip_rrs (unat answer_count + unat authority_count) message (offset + 4);
          additional_count \<leftarrow> read_u16 message 10;
          (offset, scan) \<leftarrow> edns_loop (unat additional_count) message offset
                              \<lparr>es_udp_size = 512, es_do_bit = False, es_saw_opt = False\<rparr>;
          if offset \<noteq> length message then None
          else Some \<lparr>key = \<lparr>qname = qname, qtype = qtype, qclass = qclass, do_bit = es_do_bit scan,
                             edns = es_saw_opt scan, dnssec_header_bits = message ! 3 AND 0x30\<rparr>,
                     udp_size = es_udp_size scan\<rparr> } })"

fun payload_loop :: "nat \<Rightarrow> bytes \<Rightarrow> nat \<Rightarrow> nat" where
  "payload_loop 0 message offset = 512"
| "payload_loop (Suc n) message offset =
     (case parse_rr message offset of
        None \<Rightarrow> 512
      | Some rr \<Rightarrow>
          if rr_kind rr = TYPE_OPT then clamp 512 4096 (unat (rr_class rr))
          else payload_loop n message (rr_end rr))"

definition udp_payload_size :: "bytes \<Rightarrow> nat" where
  "udp_payload_size message =
     (case do {
        offset \<leftarrow> questions_end message;
        answer_count \<leftarrow> read_u16 message 6;
        authority_count \<leftarrow> read_u16 message 8;
        offset \<leftarrow> skip_rrs (unat answer_count + unat authority_count) message offset;
        additional_count \<leftarrow> read_u16 message 10;
        Some (payload_loop (unat additional_count) message offset) } of
        None \<Rightarrow> 512
      | Some payload \<Rightarrow> payload)"

definition is_multi_question_query :: "bytes \<Rightarrow> bool" where
  "is_multi_question_query message \<longleftrightarrow>
     length message \<ge> HEADER_LEN \<and> message ! 2 AND 0x80 = 0 \<and> message ! 2 AND 0x78 = 0
     \<and> (case read_u16 message 4 of None \<Rightarrow> False | Some count \<Rightarrow> count > 1)"

section \<open>Truncation\<close>

definition mark_truncated :: "bytes \<Rightarrow> bytes" where
  "mark_truncated message =
     patch (message[2 := message ! 2 OR 0x02]) 6 (replicate 6 0)"

definition truncate_to :: "bytes \<Rightarrow> nat \<Rightarrow> bytes" where
  "truncate_to message limit =
     (if length message \<le> limit \<or> length message < HEADER_LEN then message
      else let marked = mark_truncated message in
        case questions_end marked of
          Some q \<Rightarrow> if q \<le> limit then take q marked
                    else take HEADER_LEN (patch marked 4 [0, 0])
        | None \<Rightarrow> take HEADER_LEN (patch marked 4 [0, 0]))"

section \<open>Does a response answer the query?\<close>

datatype validation_error =
  TooShort | NotAResponse | OpcodeMismatch | QdCountMismatch | QuestionMismatch

text \<open>The second closure of \<open>questions_match\<close>, over the query's name \<open>sent\<close>.\<close>

definition compare_visit :: "bytes \<Rightarrow> bytes \<Rightarrow> bool \<times> nat \<Rightarrow> (bool \<times> nat) run" where
  "compare_visit sent label = (\<lambda>(matches, echoed_len).
     Ret (matches \<and> (case get_range sent echoed_len (echoed_len + length label) of
                       None \<Rightarrow> False
                     | Some part \<Rightarrow> eq_ignore_ascii_case part label),
          echoed_len + length label))"

definition questions_match :: "bytes \<Rightarrow> bytes \<Rightarrow> bool option run" where
  "questions_match query response =
     run_bind (walk_name copy_visit query HEADER_LEN empty_name) (\<lambda>(query_end, name, name_len).
       case Option.bind query_end (\<lambda>e. get_range query e (e + 4)) of
         None \<Rightarrow> Ret None
       | Some sent_fields \<Rightarrow>
           run_bind (walk_name (compare_visit (take name_len name)) response HEADER_LEN (True, 0))
             (\<lambda>(response_end, matches, echoed_len).
               case Option.bind response_end (\<lambda>e. get_range response e (e + 4)) of
                 None \<Rightarrow> Ret None
               | Some echoed_fields \<Rightarrow>
                   Ret (Some (matches \<and> name_len = echoed_len \<and> sent_fields = echoed_fields))))"

definition validate_response :: "bytes \<Rightarrow> bytes \<Rightarrow> validation_error + unit" where
  "validate_response query response =
     (if length query < HEADER_LEN \<or> length response < HEADER_LEN then Inl TooShort
      else if response ! 2 AND 0x80 = 0 then Inl NotAResponse
      else if (query ! 2 XOR response ! 2) AND 0x78 \<noteq> 0 then Inl OpcodeMismatch
      else case read_u16 query 4 of
        None \<Rightarrow> Inl TooShort
      | Some qd_query \<Rightarrow>
          (case read_u16 response 4 of
             None \<Rightarrow> Inl TooShort
           | Some qd_response \<Rightarrow>
               if qd_response \<noteq> qd_query then Inl QdCountMismatch
               else if qd_query \<noteq> 1 then Inr ()
               else if returned (questions_match query response) = Some True then Inr ()
               else Inl QuestionMismatch))"

lemmas read_u16_simps = read_u16_Some_iff

section \<open>Facts about queries\<close>

lemma skip_rrs_bound [wire_bounds]:
  "skip_rrs n m off = Some e \<Longrightarrow> off \<le> e \<and> (off \<le> length m \<longrightarrow> e \<le> length m)"
proof (induction n arbitrary: off)
  case (Suc n)
  then obtain rr where "parse_rr m off = Some rr" "skip_rrs n m (rr_end rr) = Some e"
    by (auto simp: bind_eq_Some_conv)
  with Suc.IH parse_rr_bounds [of m off rr] show ?case by fastforce
qed simp

lemma edns_loop_saw:
  assumes "edns_loop n m off scan = Some (e, scan')" "es_saw_opt scan"
  shows "n = 0 \<and> scan' = scan \<and> e = off"
  using assms by (cases n) (auto simp: bind_eq_Some_conv split: if_splits)

text \<open>An accepted query has no additional record, or exactly one OPT.\<close>

lemma edns_loop_cases:
  assumes "edns_loop n m off \<lparr>es_udp_size = 512, es_do_bit = False, es_saw_opt = False\<rparr> = Some (e, scan)"
  obtains (none) "n = 0" "e = off" "scan = \<lparr>es_udp_size = 512, es_do_bit = False, es_saw_opt = False\<rparr>"
  | (opt) rr flags where "n = 1" "parse_rr m off = Some rr" "rr_kind rr = TYPE_OPT" "rdlen rr = 0"
      "e = rr_end rr" "read_u32 m (ttl_offset rr) = Some flags" "get m (ttl_offset rr + 1) = Some 0"
      "scan = \<lparr>es_udp_size = clamp 512 4096 (unat (rr_class rr)),
                es_do_bit = (flags AND 0x8000 \<noteq> 0), es_saw_opt = True\<rparr>"
proof (cases n)
  case (Suc k)
  then obtain rr flags where rr: "parse_rr m off = Some rr" "rr_kind rr = TYPE_OPT" "rdlen rr = 0"
      "read_u32 m (ttl_offset rr) = Some flags" "get m (ttl_offset rr + 1) = Some 0"
      "edns_loop k m (rr_end rr) \<lparr>es_udp_size = clamp 512 4096 (unat (rr_class rr)),
         es_do_bit = (flags AND 0x8000 \<noteq> 0), es_saw_opt = True\<rparr> = Some (e, scan)"
    using assms by (auto simp: bind_eq_Some_conv split: if_splits)
  from edns_loop_saw [OF rr(6)] Suc opt [OF _ rr(1-3) _ rr(4,5)] show ?thesis by simp
qed (use assms none in auto)

text \<open>Everything \<open>parse_query_meta\<close> has checked when it accepts a query.\<close>

definition accepted_query :: "bytes \<Rightarrow> query_meta \<Rightarrow> nat \<Rightarrow> nat \<Rightarrow> bool" where
  "accepted_query m meta q off \<longleftrightarrow> 12 \<le> length m
     \<and> returned (read_name m 12) = Some (qname (key meta), q) \<and> q + 4 \<le> length m
     \<and> read_u16 m 4 = Some 1
     \<and> read_u16 m q = Some (qtype (key meta)) \<and> read_u16 m (q + 2) = Some (qclass (key meta))
     \<and> dnssec_header_bits (key meta) = m ! 3 AND 0x30
     \<and> (\<exists>a b c scan. read_u16 m 6 = Some a \<and> read_u16 m 8 = Some b \<and> read_u16 m 10 = Some c
          \<and> skip_rrs (unat a + unat b) m (q + 4) = Some off
          \<and> edns_loop (unat c) m off \<lparr>es_udp_size = 512, es_do_bit = False, es_saw_opt = False\<rparr>
              = Some (length m, scan)
          \<and> udp_size meta = es_udp_size scan \<and> do_bit (key meta) = es_do_bit scan
          \<and> edns (key meta) = es_saw_opt scan)"

lemma parse_query_meta_accepted:
  assumes "parse_query_meta m = Some meta"
  obtains q off flags where "accepted_query m meta q off"
    "read_u16 m 2 = Some flags" "flags AND 0x8000 = 0" "flags AND 0x7800 = 0" "flags AND 0x0100 \<noteq> 0"
proof -
  from assms obtain flags nm q ty cl a b off c scan where
    "12 \<le> length m" "read_u16 m 2 = Some flags" "read_u16 m 4 = Some 1"
    "flags AND 0x8000 = 0" "flags AND 0x7800 = 0" "flags AND 0x0100 \<noteq> 0"
    "returned (read_name m 12) = Some (nm, q)" "read_u16 m q = Some ty" "read_u16 m (q + 2) = Some cl"
    "read_u16 m 6 = Some a" "read_u16 m 8 = Some b" "skip_rrs (unat a + unat b) m (q + 4) = Some off"
    "read_u16 m 10 = Some c"
    "edns_loop (unat c) m off \<lparr>es_udp_size = 512, es_do_bit = False, es_saw_opt = False\<rparr>
       = Some (length m, scan)"
    "meta = \<lparr>key = \<lparr>qname = nm, qtype = ty, qclass = cl, do_bit = es_do_bit scan,
                  edns = es_saw_opt scan, dnssec_header_bits = m ! 3 AND 0x30\<rparr>,
             udp_size = es_udp_size scan\<rparr>"
    unfolding parse_query_meta_def
    by (auto simp: bind_eq_Some_conv split: if_splits)
  moreover from this have "q + 4 \<le> length m" using read_u16_bound [of m "q + 2" cl] by simp
  ultimately show ?thesis using that [of q off flags] by (auto simp: accepted_query_def)
qed

lemma accepted_udp_size:
  assumes "accepted_query m meta q off"
  shows "512 \<le> udp_size meta \<and> udp_size meta \<le> 4096"
  using assms unfolding accepted_query_def
  by (auto elim!: edns_loop_cases simp: clamp_def)

lemma accepted_questions_end:
  assumes "accepted_query m meta q off" shows "questions_end m = Some (q + 4)"
  using assms read_name_Some(1) [of m 12]
  by (auto simp: accepted_query_def questions_end_def)

text \<open>The advertised payload size does not depend on whether the query is cacheable.\<close>

lemma accepted_payload_size:
  assumes acc: "accepted_query m meta q off" shows "udp_payload_size m = udp_size meta"
proof -
  obtain a b c scan where r: "read_u16 m 6 = Some a" "read_u16 m 8 = Some b" "read_u16 m 10 = Some c"
    "skip_rrs (unat a + unat b) m (q + 4) = Some off" "udp_size meta = es_udp_size scan"
    and e: "edns_loop (unat c) m off \<lparr>es_udp_size = 512, es_do_bit = False, es_saw_opt = False\<rparr>
              = Some (length m, scan)"
    using acc by (auto simp: accepted_query_def)
  have "udp_payload_size m = payload_loop (unat c) m off"
    using r accepted_questions_end [OF acc] by (simp add: udp_payload_size_def)
  with r(5) show ?thesis by (cases rule: edns_loop_cases [OF e]) simp_all
qed

section \<open>Facts about truncation\<close>

lemma length_mark_truncated [simp]: "12 \<le> length m \<Longrightarrow> length (mark_truncated m) = length m"
  by (simp add: mark_truncated_def)

lemma nth_mark_truncated:
  assumes "12 \<le> length m" "i < length m"
  shows "mark_truncated m ! i = (if i = 2 then m ! 2 OR 2 else if 6 \<le> i \<and> i < 12 then 0 else m ! i)"
  using assms by (auto simp: mark_truncated_def nth_patch)

lemma truncate_to_short: "length m \<le> limit \<Longrightarrow> truncate_to m limit = m"
  by (simp add: truncate_to_def)

lemma truncate_to_length: "length (truncate_to m limit) \<le> max limit 12"
  by (auto simp: truncate_to_def Let_def split: option.splits)

text \<open>What is left of an oversized message: its header with TC set and the counts cleared,
  and its question section when that fits.\<close>

lemma truncate_to_cases:
  assumes "limit < length m" "12 \<le> length m"
  obtains (question) q where "questions_end (mark_truncated m) = Some q" "q \<le> limit" "12 \<le> q"
      "q \<le> length m" "truncate_to m limit = take q (mark_truncated m)"
  | (header) "truncate_to m limit = take 12 (patch (mark_truncated m) 4 [0, 0])"
proof (cases "\<exists>q. questions_end (mark_truncated m) = Some q \<and> q \<le> limit")
  case True
  then obtain q where q: "questions_end (mark_truncated m) = Some q" "q \<le> limit" by blast
  with assms questions_end_bound [OF q(1)] show ?thesis
    by (intro question [of q]) (auto simp: truncate_to_def Let_def)
next
  case False
  then have "truncate_to m limit = take 12 (patch (mark_truncated m) 4 [0, 0])"
    using assms by (auto simp: truncate_to_def Let_def split: option.splits)
  then show ?thesis by (rule header)
qed

lemma truncate_to_header:
  assumes "limit < length m" "12 \<le> length m"
  shows "12 \<le> length (truncate_to m limit)"
    and "i < 12 \<Longrightarrow> i \<notin> {4, 5} \<Longrightarrow> truncate_to m limit ! i = mark_truncated m ! i"
  by (cases rule: truncate_to_cases [OF assms]; use assms in \<open>auto simp: nth_patch\<close>)+

lemma word8_or_2: "((b :: u8) OR 2) AND 2 = 2"
  by (simp add: bit.conj_disj_distrib2)

section \<open>Facts about response validation\<close>

definition compare_seen :: "bytes \<Rightarrow> bytes list \<Rightarrow> bool \<times> nat \<Rightarrow> bool" where
  "compare_seen sent ls = (\<lambda>(matches, k). k = length (concat ls) \<and>
     (matches \<longleftrightarrow> k \<le> length sent
        \<and> make_ascii_lowercase (take k sent) = make_ascii_lowercase (concat ls)))"

interpretation compare: label_visitor "compare_visit sent" "(True, 0)" "compare_seen sent" for sent
proof unfold_locales
  fix ls l and st :: "bool \<times> nat"
  assume "compare_seen sent ls st"
  then show "\<exists>st'. compare_visit sent l st = Ret st' \<and> compare_seen sent (ls @ [l]) st'"
    by (cases st) (auto simp: compare_visit_def compare_seen_def get_range_def
        eq_ignore_ascii_case_iff take_add make_ascii_lowercase_def take_map)
qed (simp add: compare_seen_def)

text \<open>The reference comparison, over canonical names.\<close>

definition question_of :: "bytes \<Rightarrow> (bytes \<times> bytes) option" where
  "question_of message = do {
     (name, e) \<leftarrow> returned (read_name message HEADER_LEN);
     fields \<leftarrow> get_range message e (e + 4);
     Some (name, fields) }"

lemma questions_match_names [panic_free]:
  "questions_match query response = Ret (do {
     (sent_name, sent_fields) \<leftarrow> question_of query;
     (echoed_name, echoed_fields) \<leftarrow> question_of response;
     Some (sent_name = echoed_name \<and> sent_fields = echoed_fields) })"
proof -
  obtain e ls where q: "name_labels query 12 = (e, ls)" by fastforce
  obtain e' ls' where r: "name_labels response 12 = (e', ls')" by fastforce
  obtain name k where copied: "walk_name copy_visit query 12 empty_name = Ret (e, name, k)"
      "k = length (concat ls)" "take k name = concat ls"
    using copy.walk_returns [of query 12] q by (auto simp: copy_seen_def)
  obtain matches j where compared:
      "walk_name (compare_visit (concat ls)) response 12 (True, 0) = Ret (e', matches, j)"
      "compare_seen (concat ls) ls' (matches, j)"
    using compare.walk_returns [of "concat ls" response 12] r by auto
  have verdict: "matches \<and> k = j \<and> same \<longleftrightarrow>
      make_ascii_lowercase (concat ls) = make_ascii_lowercase (concat ls') \<and> same" for same
    using compared(2) copied(2) length_make_ascii_lowercase [of "concat ls"]
      length_make_ascii_lowercase [of "concat ls'"]
    by (auto simp: compare_seen_def simp del: length_make_ascii_lowercase)
  then show ?thesis
    by (cases e; cases e')
       (simp_all add: questions_match_def question_of_def read_name_labels q r copied(1,3)
         compared(1) verdict split: option.split bind_split)
qed

lemma validate_response_ok:
  assumes "validate_response query response = Inr u"
  shows "12 \<le> length query" "12 \<le> length response" "response ! 2 AND 0x80 \<noteq> 0"
    "(query ! 2 XOR response ! 2) AND 0x78 = 0" "read_u16 query 4 = read_u16 response 4"
    "read_u16 query 4 = Some 1 \<Longrightarrow> question_of query \<noteq> None \<and> question_of response = question_of query"
  using assms
  by (auto simp: validate_response_def questions_match_names bind_eq_Some_conv
      split: if_splits option.splits)

text \<open>The cascade of checks, with the checks themselves abstracted.\<close>

lemma validation_shape:
  "(if a then Inl TooShort else if b then Inl NotAResponse else if c then Inl OpcodeMismatch
    else case sent of None \<Rightarrow> Inl TooShort
    | Some n \<Rightarrow> (case echoed of None \<Rightarrow> Inl TooShort
        | Some k \<Rightarrow> if k \<noteq> n then Inl QdCountMismatch else if n \<noteq> 1 then Inr ()
                   else if matches then Inr () else Inl QuestionMismatch)) = Inr ()
   \<longleftrightarrow> \<not> a \<and> \<not> b \<and> \<not> c \<and> (\<exists>n :: u16. sent = Some n \<and> echoed = Some n \<and> (n = 1 \<longrightarrow> matches))"
  by (auto split: option.split)

section \<open>Properties\<close>

text \<open>C17: A response is accepted for a query exactly when both are complete headers, the response
  bit is set, opcodes and question counts agree, and, for the usual single question, both decode
  to the same canonical name, type and class.\<close>

theorem validate_response_iff:
  "validate_response query response = Inr () \<longleftrightarrow>
     12 \<le> length query \<and> 12 \<le> length response \<and> response ! 2 AND 0x80 \<noteq> 0
     \<and> (query ! 2 XOR response ! 2) AND 0x78 = 0
     \<and> (\<exists>n. read_u16 query 4 = Some n \<and> read_u16 response 4 = Some n
          \<and> (n = 1 \<longrightarrow> question_of query \<noteq> None \<and> question_of response = question_of query))"
proof -
  have "returned (questions_match query response) = Some True \<longleftrightarrow>
      question_of query \<noteq> None \<and> question_of response = question_of query"
    by (cases "question_of query"; cases "question_of response") (auto simp: questions_match_names)
  then show ?thesis
    unfolding validate_response_def validation_shape
    by (simp only: not_less de_Morgan_disj not_not conj_assoc)
qed

lemma validate_response_iff_witness:
  "question_of sample_query \<noteq> None \<and> question_of sample_response = question_of sample_query"
proof -
  have "validate_response sample_query sample_response = Inr ()" "read_u16 sample_query 4 = Some 1"
    by code_simp+
  then show ?thesis using validate_response_iff [of sample_query sample_response] by auto
qed



text \<open>The payload size of an accepted query lies between 512 and 4096 and is the one the
  independent scan finds, so both code paths truncate a reply alike.\<close>

lemma query_meta_udp_size:
  assumes "parse_query_meta m = Some meta"
  shows "512 \<le> udp_size meta \<and> udp_size meta \<le> 4096 \<and> udp_payload_size m = udp_size meta"
proof -
  obtain q off where A: "accepted_query m meta q off" using parse_query_meta_accepted [OF assms] by metis
  from accepted_udp_size [OF A] accepted_payload_size [OF A] show ?thesis by simp
qed

text \<open>A message over the limit is cut to a message within it that keeps the ID, opcode and
  response code, has TC set and its record counts cleared; one within the limit is untouched.\<close>

lemma truncate_to_effect:
  assumes "12 \<le> length m" "12 \<le> limit"
  shows "length (truncate_to m limit) \<le> limit \<and> 12 \<le> length (truncate_to m limit)
     \<and> (if length m \<le> limit then truncate_to m limit = m
        else take 2 (truncate_to m limit) = take 2 m \<and> truncate_to m limit ! 2 = m ! 2 OR 0x02
           \<and> truncate_to m limit ! 3 = m ! 3 \<and> take 6 (drop 6 (truncate_to m limit)) = replicate 6 0)"
proof (cases "length m \<le> limit")
  case True
  then show ?thesis using assms by (simp add: truncate_to_short)
next
  case False
  then have lim: "limit < length m" by simp
  note H = truncate_to_header [OF lim assms(1)]
  have "length (truncate_to m limit) \<le> limit"
    using truncate_to_length [of m limit] assms(2) by (simp add: max_def)
  moreover have "take 2 (truncate_to m limit) = take 2 m"
    using H assms(1) by (intro nth_take_lemma) (auto simp: nth_mark_truncated)
  moreover have "take 6 (drop 6 (truncate_to m limit)) = replicate 6 0"
    using H assms(1) by (auto simp: list_eq_iff_nth_eq nth_mark_truncated)
  ultimately show ?thesis
    using False H assms(1) by (simp add: nth_mark_truncated)
qed

end
