(* ===== verification/Cache.thy ===== *)
theory Cache
  imports Wire_Query
begin

text \<open>
  The response cache, \<open>src/src/proxy/cache.rs\<close>.  Its map is the \<open>LruCache\<close> of the crate
  \<open>lru\<close>, which is not part of the repository: the operations used are an argument
  (\<open>lru_ops\<close>), and the locale \<open>lru_store\<close> states what the crate documents of them.  A clock
  reading (\<open>Instant\<close>) is a number of nanoseconds.  Writing through the reference that
  \<open>get_mut\<close> returns is the operation \<open>lru_set\<close>.
\<close>

section \<open>The LRU map the cache is built on\<close>

record ('c, 'k, 'v) lru_ops =
  lru_new :: "nat \<Rightarrow> 'c"
  lru_get :: "'c \<Rightarrow> 'k \<Rightarrow> 'v option \<times> 'c"
  lru_set :: "'c \<Rightarrow> 'k \<Rightarrow> 'v \<Rightarrow> 'c"
  lru_pop :: "'c \<Rightarrow> 'k \<Rightarrow> 'c"
  lru_put :: "'c \<Rightarrow> 'k \<Rightarrow> 'v \<Rightarrow> 'c"

section \<open>The cache\<close>

record entry =
  e_response :: bytes
  e_aged_at :: nat
  e_ttl :: u32

type_synonym 'c cache = "'c option"
type_synonym 'c entries_ops = "('c, query_key, entry) lru_ops"

definition cache_new :: "'c entries_ops \<Rightarrow> bool \<Rightarrow> nat \<Rightarrow> 'c cache" where
  "cache_new ops enabled capacity = (if enabled then Some (lru_new ops (max capacity 1)) else None)"

definition cache_query_meta :: "'c cache \<Rightarrow> bytes \<Rightarrow> query_meta option" where
  "cache_query_meta cache query = (case cache of None \<Rightarrow> None | Some _ \<Rightarrow> parse_query_meta query)"

text \<open>Ageing an entry by whole seconds; \<open>None\<close> when its records no longer parse.\<close>

definition age_entry :: "entry \<Rightarrow> nat \<Rightarrow> entry option" where
  "age_entry entry elapsed =
     (if elapsed > 0 then
        (case adjust_ttls (e_response entry) elapsed of
           (False, _) \<Rightarrow> None
         | (True, aged) \<Rightarrow>
             Some \<lparr>e_response = aged, e_aged_at = e_aged_at entry + elapsed * second,
                   e_ttl = e_ttl entry - word_of_nat elapsed\<rparr>)
      else Some entry)"

text \<open>The result is the flag, the caller's buffer and the cache.\<close>

definition get_into ::
  "'c entries_ops \<Rightarrow> 'c cache \<Rightarrow> query_meta \<Rightarrow> u8 \<times> u8 \<Rightarrow> nat \<Rightarrow> bytes \<Rightarrow> (bool \<times> bytes \<times> 'c cache) run"
where
  "get_into ops cache meta request_id now response =
     (case cache of
        None \<Rightarrow> Ret (False, response, cache)
      | Some entries \<Rightarrow>
          (case lru_get ops entries (key meta) of
             (None, entries) \<Rightarrow> Ret (False, response, Some entries)
           | (Some entry, entries) \<Rightarrow>
               let elapsed = (now - e_aged_at entry) div second in
               if elapsed \<ge> unat (e_ttl entry)
               then Ret (False, response, Some (lru_pop ops entries (key meta)))
               else (case age_entry entry elapsed of
                       None \<Rightarrow> Ret (False, response, Some (lru_pop ops entries (key meta)))
                     | Some aged \<Rightarrow>
                         run_bind (write_range (e_response aged) 0 [fst request_id, snd request_id])
                           (\<lambda>reply. Ret (True, reply, Some (lru_set ops entries (key meta) aged))))))"

definition insert_response ::
  "'c entries_ops \<Rightarrow> 'c cache \<Rightarrow> query_meta \<Rightarrow> bytes \<Rightarrow> nat \<Rightarrow> 'c cache run"
where
  "insert_response ops cache meta response now =
     (case cache of
        None \<Rightarrow> Ret None
      | Some entries \<Rightarrow>
          (case cache_ttl response (qtype (key meta)) of
             None \<Rightarrow> Ret cache
           | Some ttl \<Rightarrow>
               run_bind (write_range response 0 [0, 0]) (\<lambda>stored.
                 Ret (Some (lru_put ops entries (key meta)
                   \<lparr>e_response = stored, e_aged_at = now, e_ttl = ttl\<rparr>)))))"

lemma write_id: "2 \<le> length xs \<Longrightarrow> write_range xs 0 [a, b] = Ret (a # b # drop 2 xs)"
  by (simp add: write_range_def numeral_2_eq_2)

section \<open>What the LRU map promises\<close>

locale lru_store =
  fixes ops :: "('c, 'k, 'v) lru_ops"
    and view :: "'c \<Rightarrow> 'k \<rightharpoonup> 'v"
    and capacity :: "'c \<Rightarrow> nat"
    and invar :: "'c \<Rightarrow> bool"
  assumes invar_new: "0 < n \<Longrightarrow> invar (lru_new ops n)"
    and view_new: "view (lru_new ops n) = Map.empty"
    and get_value: "invar c \<Longrightarrow> fst (lru_get ops c k) = view c k"
    and get_view: "invar c \<Longrightarrow> view (snd (lru_get ops c k)) = view c"
    and get_invar: "invar c \<Longrightarrow> invar (snd (lru_get ops c k))"
    and set_view: "invar c \<Longrightarrow> view c k \<noteq> None \<Longrightarrow> view (lru_set ops c k v) = (view c)(k \<mapsto> v)"
    and set_invar: "invar c \<Longrightarrow> view c k \<noteq> None \<Longrightarrow> invar (lru_set ops c k v)"
    and pop_view: "invar c \<Longrightarrow> view (lru_pop ops c k) = (view c)(k := None)"
    and pop_invar: "invar c \<Longrightarrow> invar (lru_pop ops c k)"
    and put_same: "invar c \<Longrightarrow> view (lru_put ops c k v) k = Some v"
    and put_other: "invar c \<Longrightarrow> l \<noteq> k \<Longrightarrow>
           view (lru_put ops c k v) l = None \<or> view (lru_put ops c k v) l = view c l"
    and put_invar: "invar c \<Longrightarrow> invar (lru_put ops c k v)"
    and bounded: "invar c \<Longrightarrow> finite (dom (view c)) \<and> card (dom (view c)) \<le> capacity c"
begin

lemma put_cases:
  assumes "invar c" "view (lru_put ops c k v) l = Some w"
  shows "(l = k \<and> w = v) \<or> (l \<noteq> k \<and> view c l = Some w)"
  using assms put_same [of c k v] put_other [of c l k v] by (cases "l = k") auto

end

section \<open>Entries\<close>

text \<open>An entry is a complete response with its ID cleared and a positive lifetime.\<close>

definition entry_ok :: "entry \<Rightarrow> bool" where
  "entry_ok e \<longleftrightarrow> 12 \<le> length (e_response e) \<and> 0 < e_ttl e \<and> e_ttl e \<le> 86400"

definition deadline :: "entry \<Rightarrow> nat" where
  "deadline e = e_aged_at e + unat (e_ttl e) * second"

lemma unat_minus_of_nat:
  fixes t :: u32
  assumes "n < unat t" shows "unat (t - word_of_nat n) = unat t - n"
proof -
  have n: "unat (word_of_nat n :: u32) = n"
    using assms unat_u32_lt [of t] by (simp add: unat_of_nat)
  then show ?thesis using assms by (simp add: unat_sub word_le_nat_alt)
qed

lemma age_entry_Some:
  assumes "age_entry e elapsed = Some e'" "elapsed < unat (e_ttl e)"
  shows "deadline e' = deadline e" "unat (e_ttl e') = unat (e_ttl e) - elapsed"
    "length (e_response e') = length (e_response e)"
    "i < 12 \<Longrightarrow> i < length (e_response e) \<Longrightarrow> e_response e' ! i = e_response e ! i"
proof -
  have "deadline e' = deadline e \<and> unat (e_ttl e') = unat (e_ttl e) - elapsed
      \<and> length (e_response e') = length (e_response e)
      \<and> (i < 12 \<longrightarrow> i < length (e_response e) \<longrightarrow> e_response e' ! i = e_response e ! i)"
  proof (cases "elapsed = 0")
    case False
    with assms(1) obtain aged where a: "adjust_ttls (e_response e) elapsed = (True, aged)"
      "e' = \<lparr>e_response = aged, e_aged_at = e_aged_at e + elapsed * second,
             e_ttl = e_ttl e - word_of_nat elapsed\<rparr>"
      by (auto simp: age_entry_def split: prod.splits bool.splits)
    have "elapsed * second + (unat (e_ttl e) - elapsed) * second = unat (e_ttl e) * second"
      using assms(2) by (simp flip: add_mult_distrib)
    with a adjust_ttls_aged(1) [OF a(1)] assms(2) show ?thesis
      by (auto simp: deadline_def unat_minus_of_nat aged_to_def)
  qed (use assms in \<open>simp add: age_entry_def\<close>)
  then show "deadline e' = deadline e" "unat (e_ttl e') = unat (e_ttl e) - elapsed"
    "length (e_response e') = length (e_response e)"
    "i < 12 \<Longrightarrow> i < length (e_response e) \<Longrightarrow> e_response e' ! i = e_response e ! i"
    by blast+
qed

lemma age_entry_ok:
  assumes "age_entry e elapsed = Some e'" "elapsed < unat (e_ttl e)" "entry_ok e"
  shows "entry_ok e'"
  using age_entry_Some [OF assms(1,2)] assms(2,3)
  by (auto simp: entry_ok_def word_less_nat_alt word_le_nat_alt)

section \<open>The cache over any LRU map\<close>

definition cache_ok :: "('c \<Rightarrow> query_key \<rightharpoonup> entry) \<Rightarrow> ('c \<Rightarrow> bool) \<Rightarrow> 'c cache \<Rightarrow> bool" where
  "cache_ok view invar cache \<longleftrightarrow>
     (case cache of None \<Rightarrow> True
      | Some c \<Rightarrow> invar c \<and> (\<forall>k e. view c k = Some e \<longrightarrow> entry_ok e))"

definition cached :: "('c \<Rightarrow> query_key \<rightharpoonup> entry) \<Rightarrow> 'c cache \<Rightarrow> query_key \<Rightarrow> entry option" where
  "cached view cache k = (case cache of None \<Rightarrow> None | Some c \<Rightarrow> view c k)"

text \<open>A hit serves a fresh entry, aged to the clock reading, under the client's ID.\<close>

definition hit :: "entry option \<Rightarrow> nat \<Rightarrow> entry option" where
  "hit stored now =
     (case stored of None \<Rightarrow> None
      | Some e \<Rightarrow> let elapsed = (now - e_aged_at e) div second in
          if elapsed \<ge> unat (e_ttl e) then None else age_entry e elapsed)"

lemma hit_Some:
  assumes "hit stored now = Some aged"
  obtains e where "stored = Some e" "deadline aged = deadline e" "now < deadline e"
    "entry_ok e \<Longrightarrow> entry_ok aged" "length (e_response aged) = length (e_response e)"
    "\<forall>i < 12. i < length (e_response e) \<longrightarrow> e_response aged ! i = e_response e ! i"
proof -
  from assms obtain e where e: "stored = Some e" "(now - e_aged_at e) div second < unat (e_ttl e)"
      "age_entry e ((now - e_aged_at e) div second) = Some aged"
    by (auto simp: hit_def Let_def split: option.splits if_splits)
  have "now - e_aged_at e < unat (e_ttl e) * second"
    using e(2) by (simp add: second_def div_less_iff_less_mult)
  then have "now < deadline e" using e(2) by (auto simp: deadline_def)
  with e age_entry_Some [OF e(3,2)] age_entry_ok [OF e(3,2)] that [of e] show ?thesis by blast
qed

locale response_cache = lru_store ops view capacity invar
  for ops :: "'c entries_ops" and view :: "'c \<Rightarrow> query_key \<rightharpoonup> entry"
    and capacity :: "'c \<Rightarrow> nat" and invar :: "'c \<Rightarrow> bool"
begin

abbreviation "ok \<equiv> cache_ok view invar"
abbreviation "entry_for \<equiv> cached view"

lemma new_ok: "ok (cache_new ops enabled n)"
  by (simp add: cache_ok_def cache_new_def invar_new view_new)

text \<open>The three outcomes of a lookup.\<close>

lemma get_into_cases:
  assumes "ok cache"
  obtains (hit) aged cache' where "hit (entry_for cache (key meta)) now = Some aged"
      "get_into ops cache meta (a, b) now response
         = Ret (True, a # b # drop 2 (e_response aged), cache')"
      "ok cache'" "entry_for cache' = (entry_for cache)(key meta \<mapsto> aged)"
  | (miss) cache' where "hit (entry_for cache (key meta)) now = None"
      "get_into ops cache meta (a, b) now response = Ret (False, response, cache')"
      "ok cache'" "entry_for cache' = (entry_for cache)(key meta := None)"
proof (cases cache)
  case None
  then show ?thesis by (intro miss [of None]) (auto simp: get_into_def hit_def cached_def cache_ok_def)
next
  case (Some c)
  obtain v c1 where g: "lru_get ops c (key meta) = (v, c1)" by fastforce
  have inv: "invar c" using assms Some by (simp add: cache_ok_def)
  have c1: "v = view c (key meta)" "view c1 = view c" "invar c1"
    using get_value [OF inv, of "key meta"] get_view [OF inv, of "key meta"]
      get_invar [OF inv, of "key meta"] g by simp_all
  show ?thesis
  proof (cases "hit v now")
    case None
    let ?c' = "case v of None \<Rightarrow> c1 | Some _ \<Rightarrow> lru_pop ops c1 (key meta)"
    have "get_into ops cache meta (a, b) now response = Ret (False, response, Some ?c')"
      using None Some g by (auto simp: get_into_def hit_def Let_def split: option.splits if_splits)
    moreover have "view ?c' = (view c)(key meta := None)" "invar ?c'"
      using c1 pop_view pop_invar by (auto split: option.split)
    ultimately show ?thesis using None Some c1(1) assms
      by (intro miss [of "Some ?c'"]) (auto simp: cached_def cache_ok_def)
  next
    case (Some aged)
    obtain e where e: "v = Some e" "entry_ok e \<Longrightarrow> entry_ok aged"
      by (rule hit_Some [OF Some]) blast
    have ok: "entry_ok e" using assms \<open>cache = Some c\<close> e c1(1) by (simp add: cache_ok_def)
    then have len: "2 \<le> length (e_response aged)" using e(2) by (simp add: entry_ok_def)
    let ?c' = "lru_set ops c1 (key meta) aged"
    have "get_into ops cache meta (a, b) now response
        = Ret (True, a # b # drop 2 (e_response aged), Some ?c')"
      using Some \<open>cache = Some c\<close> g e len
      by (auto simp: get_into_def hit_def Let_def write_id split: if_splits)
    moreover have "view c1 (key meta) \<noteq> None" using c1(1,2) e(1) by (simp flip: c1(1))
    then have "view ?c' = (view c)(key meta \<mapsto> aged)" "invar ?c'"
      using set_view [OF c1(3)] set_invar [OF c1(3)] c1(2) by simp_all
    ultimately show ?thesis using Some \<open>cache = Some c\<close> c1(1) assms e(2) ok
      by (intro hit [of aged "Some ?c'"]) (auto simp: cached_def cache_ok_def)
  qed
qed

lemma insert_response_cases:
  assumes "ok cache"
  obtains (stored) ttl cache' where "cache_ttl response (qtype (key meta)) = Some ttl" "cache \<noteq> None"
      "insert_response ops cache meta response now = Ret cache'" "ok cache'"
      "entry_for cache' (key meta)
         = Some \<lparr>e_response = 0 # 0 # drop 2 response, e_aged_at = now, e_ttl = ttl\<rparr>"
      "\<And>l e. l \<noteq> key meta \<Longrightarrow> entry_for cache' l = Some e \<Longrightarrow> entry_for cache l = Some e"
  | (refused) "cache = None \<or> cache_ttl response (qtype (key meta)) = None"
      "insert_response ops cache meta response now = Ret cache"
proof (cases "cache = None \<or> cache_ttl response (qtype (key meta)) = None")
  case True
  then show ?thesis by (intro refused) (auto simp: insert_response_def split: option.split)
next
  case False
  then obtain c ttl where c: "cache = Some c" "cache_ttl response (qtype (key meta)) = Some ttl"
    by auto
  let ?e = "\<lparr>e_response = 0 # 0 # drop 2 response, e_aged_at = now, e_ttl = ttl\<rparr>"
  let ?c' = "lru_put ops c (key meta) ?e"
  have inv: "invar c" using assms c by (simp add: cache_ok_def)
  note T = cache_ttl_Some [OF c(2)]
  have "insert_response ops cache meta response now = Ret (Some ?c')"
    using c T by (simp add: insert_response_def write_id)
  moreover have "ok (Some ?c')"
    using assms c T put_cases [OF inv] put_invar [OF inv]
    by (fastforce simp: cache_ok_def entry_ok_def)
  ultimately show ?thesis
    using c put_same [OF inv]
    by (intro stored [of ttl "Some ?c'"]) (auto simp: cached_def dest: put_cases [OF inv])
qed

text \<open>An entry keeps the deadline it was stored with, whatever other calls do.\<close>

lemma get_keeps_deadline:
  assumes "ok cache" "get_into ops cache meta request_id now response = Ret (found, r, cache')"
    and "entry_for cache' l = Some e'"
  shows "\<exists>e. entry_for cache l = Some e \<and> deadline e' = deadline e"
proof (cases request_id)
  case (Pair a b)
  show ?thesis
  proof (cases rule: get_into_cases [OF assms(1), of meta now a b response, case_names hit miss])
    case (hit aged c)
    from hit_Some [OF hit(1)] obtain e where
      "entry_for cache (key meta) = Some e" "deadline aged = deadline e" by metis
    with hit assms(2,3) Pair show ?thesis by (auto split: if_splits)
  next
    case (miss c)
    with assms(2,3) Pair show ?thesis by (auto split: if_splits)
  qed
qed

lemma get_no_panic:
  "ok cache \<Longrightarrow> \<exists>found r cache'. get_into ops cache meta request_id now response
     = Ret (found, r, cache') \<and> ok cache'"
  by (cases request_id) (metis get_into_cases)

lemma insert_no_panic:
  "ok cache \<Longrightarrow> \<exists>cache'. insert_response ops cache meta response now = Ret cache' \<and> ok cache'"
  by (metis insert_response_cases)

lemma insert_keeps_others:
  assumes "ok cache" "insert_response ops cache meta response now = Ret cache'"
    and "l \<noteq> key meta" "entry_for cache' l = Some e"
  shows "entry_for cache l = Some e"
  using assms by (metis insert_response_cases run.inject)

end

section \<open>Sequences of calls\<close>

datatype cache_call =
  Get query_meta "u8 \<times> u8" nat bytes
| Insert query_meta bytes nat

fun call_step :: "'c entries_ops \<Rightarrow> cache_call \<Rightarrow> 'c cache \<Rightarrow> 'c cache run" where
  "call_step ops (Get meta request_id now response) cache =
     run_bind (get_into ops cache meta request_id now response) (\<lambda>(_, _, cache'). Ret cache')"
| "call_step ops (Insert meta response now) cache = insert_response ops cache meta response now"

fun stores_under :: "query_key \<Rightarrow> cache_call \<Rightarrow> bool" where
  "stores_under k (Get _ _ _ _) = False"
| "stores_under k (Insert meta _ _) = (key meta = k)"

context response_cache
begin

lemma call_step_ok:
  assumes "ok cache"
  shows "\<exists>cache'. call_step ops call cache = Ret cache' \<and> ok cache'
     \<and> (\<not> stores_under k call \<longrightarrow> (\<forall>e'. entry_for cache' k = Some e' \<longrightarrow>
          (\<exists>e. entry_for cache k = Some e \<and> deadline e' = deadline e)))"
proof (cases call)
  case (Get meta request_id now response)
  with get_no_panic [OF assms, of meta request_id now response] show ?thesis
    using get_keeps_deadline [OF assms] by fastforce
next
  case (Insert meta response now)
  with insert_no_panic [OF assms, of meta response now] show ?thesis
    using insert_keeps_others [OF assms] by fastforce
qed

lemma calls_ok:
  assumes "ok cache" "\<forall>call \<in> set calls. \<not> stores_under k call"
  shows "\<exists>cache'. fold_run (call_step ops) calls cache = Ret cache' \<and> ok cache'
     \<and> (\<forall>e'. entry_for cache' k = Some e' \<longrightarrow>
          (\<exists>e. entry_for cache k = Some e \<and> deadline e' = deadline e))"
  using assms
proof (induction calls arbitrary: cache)
  case (Cons call calls)
  from call_step_ok [OF Cons.prems(1), of call k] Cons.prems(2) obtain c1 where
    c1: "call_step ops call cache = Ret c1" "ok c1"
      "\<forall>e'. entry_for c1 k = Some e' \<longrightarrow> (\<exists>e. entry_for cache k = Some e \<and> deadline e' = deadline e)"
    by auto
  from Cons.IH [OF c1(2)] Cons.prems(2) c1 show ?case by fastforce
qed simp

text \<open>A response is never served at or after the instant its lifetime ends.\<close>

lemma never_stale:
  assumes "ok cache" "cache_ttl response (qtype (key meta)) = Some ttl"
    and "insert_response ops cache meta response t0 = Ret cache1"
    and "\<forall>call \<in> set calls. \<not> stores_under (key meta) call"
    and "fold_run (call_step ops) calls cache1 = Ret cache2"
    and "get_into ops cache2 meta' request_id now buffer = Ret (True, reply, cache3)"
    and "key meta' = key meta"
  shows "now < t0 + unat ttl * second"
proof -
  show ?thesis
  proof (cases "cache = None")
    case True
    then have "cache1 = None" using assms(3) by (simp add: insert_response_def)
    then have "cache2 = None" using assms(5)
    proof (induction calls arbitrary: cache1)
      case (Cons call calls)
      then show ?case by (cases call) (auto simp: get_into_def insert_response_def)
    qed simp
    with assms(6) show ?thesis by (simp add: get_into_def)
  next
    case False
    from insert_response_cases [OF assms(1), of response meta t0] False assms(2,3)
    have c1: "ok cache1" "entry_for cache1 (key meta)
        = Some \<lparr>e_response = 0 # 0 # drop 2 response, e_aged_at = t0, e_ttl = ttl\<rparr>"
      by (metis run.inject option.inject option.distinct(1))+
    from calls_ok [OF c1(1) assms(4)] assms(5) c1(2) have c2: "ok cache2"
      "\<And>e. entry_for cache2 (key meta) = Some e \<Longrightarrow> deadline e = t0 + unat ttl * second"
      by (auto simp: deadline_def)
    obtain a b where ab: "request_id = (a, b)" by fastforce
    show ?thesis
    proof (cases rule: get_into_cases [OF c2(1), of meta' now a b buffer, case_names hit miss])
      case (hit aged c)
      then show ?thesis using c2(2) assms(7) by (metis hit_Some)
    next
      case (miss c)
      with assms(6) ab show ?thesis by simp
    qed
  qed
qed

end

section \<open>A reference LRU map\<close>

text \<open>The crate's documented behaviour on a list of bindings, most recently used first.\<close>

type_synonym ('k, 'v) ref_lru = "nat \<times> ('k \<times> 'v) list"

definition ref_get :: "('k, 'v) ref_lru \<Rightarrow> 'k \<Rightarrow> 'v option \<times> ('k, 'v) ref_lru" where
  "ref_get c k = (case map_of (snd c) k of
     None \<Rightarrow> (None, c)
   | Some v \<Rightarrow> (Some v, fst c, (k, v) # filter (\<lambda>p. fst p \<noteq> k) (snd c)))"

definition ref_set :: "('k, 'v) ref_lru \<Rightarrow> 'k \<Rightarrow> 'v \<Rightarrow> ('k, 'v) ref_lru" where
  "ref_set c k v = (fst c, map (\<lambda>p. if fst p = k then (k, v) else p) (snd c))"

definition ref_pop :: "('k, 'v) ref_lru \<Rightarrow> 'k \<Rightarrow> ('k, 'v) ref_lru" where
  "ref_pop c k = (fst c, filter (\<lambda>p. fst p \<noteq> k) (snd c))"

definition ref_put :: "('k, 'v) ref_lru \<Rightarrow> 'k \<Rightarrow> 'v \<Rightarrow> ('k, 'v) ref_lru" where
  "ref_put c k v = (fst c, take (fst c) ((k, v) # filter (\<lambda>p. fst p \<noteq> k) (snd c)))"

definition ref_lru :: "(('k, 'v) ref_lru, 'k, 'v) lru_ops" where
  "ref_lru = \<lparr>lru_new = (\<lambda>n. (n, [])), lru_get = ref_get, lru_set = ref_set,
              lru_pop = ref_pop, lru_put = ref_put\<rparr>"

definition ref_view :: "('k, 'v) ref_lru \<Rightarrow> 'k \<rightharpoonup> 'v" where
  "ref_view c = map_of (snd c)"

definition ref_invar :: "('k, 'v) ref_lru \<Rightarrow> bool" where
  "ref_invar c \<longleftrightarrow> 0 < fst c \<and> length (snd c) \<le> fst c \<and> distinct (map fst (snd c))"

lemma map_of_filter_key: "map_of (filter (\<lambda>p. fst p \<noteq> k) xs) = (map_of xs)(k := None)"
  by (induction xs) (auto simp: fun_eq_iff)

lemma map_of_update_key:
  "map_of (map (\<lambda>p. if fst p = k then (k, v) else p) xs) l =
     (if l = k then (if map_of xs k = None then None else Some v) else map_of xs l)"
  by (induction xs) auto

lemma map_fst_update: "map fst (map (\<lambda>p. if fst p = k then (k, v) else p) xs) = map fst xs"
  by (induction xs) auto

lemma length_filter_key:
  "map_of xs k = Some v \<Longrightarrow> length (filter (\<lambda>p. fst p \<noteq> k) xs) < length xs"
  by (intro length_filter_less [of "(k, v)"]) (auto dest: map_of_SomeD)

lemma map_of_take: "distinct (map fst xs) \<Longrightarrow> map_of (take n xs) l = Some w \<Longrightarrow> map_of xs l = Some w"
  by (auto dest!: map_of_SomeD in_set_takeD intro!: map_of_is_SomeI)

lemma distinct_filter_key:
  "distinct (map fst xs) \<Longrightarrow> distinct (map fst ((k, v) # filter (\<lambda>p. fst p \<noteq> k) xs))"
  by (auto simp: distinct_map_filter)

interpretation ref: response_cache ref_lru ref_view fst ref_invar
proof unfold_locales
  fix c :: "(query_key, entry) ref_lru" and k l v and n :: nat
  let ?put = "(k, v) # filter (\<lambda>p. fst p \<noteq> k) (snd c)"
  show "0 < n \<Longrightarrow> ref_invar (lru_new ref_lru n :: (query_key, entry) ref_lru)"
    by (simp add: ref_lru_def ref_invar_def)
  show "ref_view (lru_new ref_lru n :: (query_key, entry) ref_lru) = Map.empty"
    by (simp add: ref_lru_def ref_view_def)
  assume inv: "ref_invar c"
  show "fst (lru_get ref_lru c k) = ref_view c k"
    by (simp add: ref_lru_def ref_get_def ref_view_def split: option.split)
  show "ref_view (snd (lru_get ref_lru c k)) = ref_view c"
    by (auto simp: ref_lru_def ref_get_def ref_view_def map_of_filter_key split: option.split)
  show "ref_invar (snd (lru_get ref_lru c k))"
    using inv length_filter_key [of "snd c" k] distinct_filter_key [of "snd c" k]
    by (fastforce simp: ref_lru_def ref_get_def ref_invar_def split: option.split)
  show "ref_view (lru_set ref_lru c k v) = (ref_view c)(k \<mapsto> v)" if "ref_view c k \<noteq> None"
    using that by (simp add: ref_lru_def ref_set_def ref_view_def map_of_update_key fun_eq_iff)
  show "ref_invar (lru_set ref_lru c k v)"
    using inv by (simp add: ref_lru_def ref_set_def ref_invar_def map_fst_update del: map_map)
  show "ref_view (lru_pop ref_lru c k) = (ref_view c)(k := None)"
    by (simp add: ref_lru_def ref_pop_def ref_view_def map_of_filter_key)
  show "ref_invar (lru_pop ref_lru c k)"
    using inv by (auto simp: ref_lru_def ref_pop_def ref_invar_def distinct_map_filter
        intro: order_trans [OF length_filter_le])
  show "ref_view (lru_put ref_lru c k v) k = Some v"
    using inv by (cases c; cases "fst c") (auto simp: ref_lru_def ref_put_def ref_view_def ref_invar_def)
  show "ref_view (lru_put ref_lru c k v) l = None \<or> ref_view (lru_put ref_lru c k v) l = ref_view c l"
    if "l \<noteq> k"
  proof (cases "map_of (take (fst c) ?put) l")
    case (Some w)
    have "map_of ?put l = Some w"
      by (rule map_of_take [OF distinct_filter_key Some]) (use inv in \<open>simp add: ref_invar_def\<close>)
    with that Some show ?thesis
      by (simp add: ref_lru_def ref_put_def ref_view_def map_of_filter_key)
  qed (simp add: ref_lru_def ref_put_def ref_view_def)
  show "ref_invar (lru_put ref_lru c k v)"
    using inv distinct_filter_key [of "snd c" k v]
    by (auto simp: ref_lru_def ref_put_def ref_invar_def simp flip: take_map)
  show "finite (dom (ref_view c)) \<and> card (dom (ref_view c)) \<le> fst c"
  proof -
    have "card (dom (map_of (snd c))) \<le> length (snd c)"
      unfolding dom_map_of_conv_image_fst
      by (rule order_trans [OF card_image_le card_length]) simp
    with inv show ?thesis by (simp add: ref_view_def ref_invar_def finite_dom_map_of)
  qed
qed

section \<open>Properties\<close>

definition sample_meta :: query_meta where
  "sample_meta = \<lparr>key = \<lparr>qname = [1, 97, 0], qtype = 1, qclass = 1, do_bit = False, edns = False,
                          dnssec_header_bits = 0\<rparr>, udp_size = 512\<rparr>"

definition sample_entry :: entry where
  "sample_entry = \<lparr>e_response = 0 # 0 # drop 2 sample_response, e_aged_at = 0, e_ttl = 60\<rparr>"

definition sample_cache :: "(query_key, entry) ref_lru cache" where
  "sample_cache = Some (ref_put (lru_new ref_lru 4) (key sample_meta) sample_entry)"

lemma sample_insert:
  "insert_response ref_lru (cache_new ref_lru True 4) sample_meta sample_response 0 = Ret sample_cache"
  by code_simp

lemma sample_ttl: "cache_ttl sample_response (qtype (key sample_meta)) = Some 60"
  by code_simp

text \<open>C9: No response is served past its lifetime: over any LRU map that keeps its contract, after a
  response was stored at time \<open>t0\<close> with lifetime \<open>ttl\<close>, and whatever lookups and insertions under
  other keys follow, a hit under its key happens before \<open>t0 + ttl\<close> seconds.\<close>

theorem cache_never_stale:
  assumes "response_cache ops view capacity invar" "cache_ok view invar cache"
    and "cache_ttl response (qtype (key meta)) = Some ttl"
    and "insert_response ops cache meta response t0 = Ret cache1"
    and "\<forall>call \<in> set calls. \<not> stores_under (key meta) call"
    and "fold_run (call_step ops) calls cache1 = Ret cache2"
    and "get_into ops cache2 meta' request_id now buffer = Ret (True, reply, cache3)"
    and "key meta' = key meta"
  shows "now < t0 + unat ttl * second"
  using assms(2-) by (rule response_cache.never_stale [OF assms(1)])

lemma cache_never_stale_witness: "(59 :: nat) * second < 0 + unat (60 :: u32) * second"
proof -
  have "run_bind (get_into ref_lru sample_cache sample_meta (1, 2) (59 * second) []) (\<lambda>(found, _, _). Ret found)
      = Ret True" by code_simp
  then obtain reply c where
    get: "get_into ref_lru sample_cache sample_meta (1, 2) (59 * second) [] = Ret (True, reply, c)"
    by (cases "get_into ref_lru sample_cache sample_meta (1, 2) (59 * second) []") auto
  show ?thesis
    by (rule cache_never_stale [OF ref.response_cache_axioms ref.new_ok sample_ttl sample_insert _ _ get,
          where calls = "[]"]) simp_all
qed



end
