(* ===== verification/Net_Addr.thy ===== *)
theory Net_Addr
  imports Prelude
begin

text \<open>
  The part of \<open>std::net\<close> the program uses on address values: IPv4 and IPv6 addresses,
  socket addresses, and the classifications the code asks for.  A socket address carries
  the IPv6 scope id; the flow information is zero in every address the program builds.
\<close>

datatype ip4 = IP4 u8 u8 u8 u8

datatype ip6 = IP6 u16 u16 u16 u16 u16 u16 u16 u16

datatype ip_addr = V4 ip4 | V6 ip6

datatype socket_addr = SocketV4 ip4 u16 | SocketV6 ip6 u16 u32

fun sock_new :: "ip_addr \<Rightarrow> u16 \<Rightarrow> socket_addr" where
  "sock_new (V4 a) p = SocketV4 a p"
| "sock_new (V6 a) p = SocketV6 a p 0"

fun sock_ip :: "socket_addr \<Rightarrow> ip_addr" where
  "sock_ip (SocketV4 a p) = V4 a"
| "sock_ip (SocketV6 a p s) = V6 a"

fun sock_port :: "socket_addr \<Rightarrow> u16" where
  "sock_port (SocketV4 a p) = p"
| "sock_port (SocketV6 a p s) = p"

fun is_ipv4 :: "socket_addr \<Rightarrow> bool" where
  "is_ipv4 (SocketV4 a p) = True"
| "is_ipv4 (SocketV6 a p s) = False"

fun ip_is_ipv6 :: "ip_addr \<Rightarrow> bool" where
  "ip_is_ipv6 (V4 a) = False"
| "ip_is_ipv6 (V6 a) = True"

abbreviation is_ipv6 :: "socket_addr \<Rightarrow> bool" where
  "is_ipv6 a \<equiv> \<not> is_ipv4 a"

fun is_loopback :: "ip_addr \<Rightarrow> bool" where
  "is_loopback (V4 (IP4 a b c d)) \<longleftrightarrow> a = 127"
| "is_loopback (V6 a) \<longleftrightarrow> a = IP6 0 0 0 0 0 0 0 1"

fun is_unspecified :: "ip_addr \<Rightarrow> bool" where
  "is_unspecified (V4 a) \<longleftrightarrow> a = IP4 0 0 0 0"
| "is_unspecified (V6 a) \<longleftrightarrow> a = IP6 0 0 0 0 0 0 0 0"

fun is_multicast :: "ip_addr \<Rightarrow> bool" where
  "is_multicast (V4 (IP4 a b c d)) \<longleftrightarrow> 224 \<le> a \<and> a \<le> 239"
| "is_multicast (V6 (IP6 a b c d e f g h)) \<longleftrightarrow> a AND 0xFF00 = 0xFF00"

text \<open>An IPv4-mapped IPv6 address is its IPv4 address; every other one is itself.\<close>

definition hi_byte :: "u16 \<Rightarrow> u8" where
  "hi_byte w = to_be16 w ! 0"

definition lo_byte :: "u16 \<Rightarrow> u8" where
  "lo_byte w = to_be16 w ! 1"

fun to_canonical :: "ip_addr \<Rightarrow> ip_addr" where
  "to_canonical (V4 a) = V4 a"
| "to_canonical (V6 (IP6 a b c d e f g h)) =
     (if a = 0 \<and> b = 0 \<and> c = 0 \<and> d = 0 \<and> e = 0 \<and> f = 0xFFFF
      then V4 (IP4 (hi_byte g) (lo_byte g) (hi_byte h) (lo_byte h))
      else V6 (IP6 a b c d e f g h))"

lemma sock_ip_new [simp]: "sock_ip (sock_new ip p) = ip"
  by (cases ip) simp_all

lemma sock_port_new [simp]: "sock_port (sock_new ip p) = p"
  by (cases ip) simp_all

lemma to_canonical_idem [simp]: "to_canonical (to_canonical ip) = to_canonical ip"
  by (cases ip rule: to_canonical.cases) simp_all

lemma loopback_not_unspecified: "is_loopback ip \<Longrightarrow> \<not> is_unspecified ip"
  by (cases ip rule: is_loopback.cases) auto

end
