(* ===== verification/Legacy_Transport.thy ===== *)
theory Legacy_Transport
  imports Wire_Query Net_Addr
begin

text \<open>
  Plain DNS over UDP and TCP, \<open>src/src/upstream/legacy.rs\<close>.  The network is an argument:
  the results of \<open>bind\<close>, \<open>connect\<close> and \<open>send\<close>, the datagrams (or receive errors) that
  arrive at the socket in order, and the bytes the TCP peer sends before its stream ends.
  A UDP query that is still waiting after the last datagram is \<open>None\<close>.  Every caller passes
  a query of at least twelve bytes, so the slice of its first two is in range.
\<close>

section \<open>The network of one query\<close>

datatype legacy_error =
  Io string
| TruncatedUdpRejected validation_error
| QueryTooLarge
| TcpIdMismatch
| TcpRejected validation_error

record udp_net =
  udp_bind :: "string option"
  udp_connect :: "string option"
  udp_send :: "string option"
  udp_recv :: "(string + bytes) list"

record tcp_net =
  tcp_connect :: "string option"
  tcp_write :: "string option"
  tcp_input :: bytes
  tcp_read_error :: string

section \<open>UDP\<close>

abbreviation MAX_UDP_RESPONSE :: nat where "MAX_UDP_RESPONSE \<equiv> 4096"

definition is_truncated :: "bytes \<Rightarrow> bool" where
  "is_truncated response \<longleftrightarrow> length response \<ge> 12 \<and> response ! 2 AND 0x02 \<noteq> 0"

text \<open>A datagram read into the 4097-byte buffer is accepted when it has our ID and answers
  our question.\<close>

definition udp_accepts :: "bytes \<Rightarrow> bytes \<Rightarrow> bool" where
  "udp_accepts query buf \<longleftrightarrow>
     length buf \<ge> 12 \<and> take 2 buf = take 2 query \<and> validate_response query buf = Inr ()"

fun recv_loop :: "bytes \<Rightarrow> (string + bytes) list \<Rightarrow> (legacy_error + bytes) option" where
  "recv_loop query [] = None"
| "recv_loop query (Inl e # rest) = Some (Inl (Io e))"
| "recv_loop query (Inr datagram # rest) =
     (let buf = take (MAX_UDP_RESPONSE + 1) datagram in
      if udp_accepts query buf then
        (if length buf > MAX_UDP_RESPONSE
         then let cut = truncate_to buf MAX_UDP_RESPONSE in
           (case validate_response query cut of
              Inl e \<Rightarrow> Some (Inl (TruncatedUdpRejected e))
            | Inr _ \<Rightarrow> Some (Inr cut))
         else Some (Inr buf))
      else recv_loop query rest)"

text \<open>The local address the socket is bound to has the family of the server.\<close>

definition bind_address :: "socket_addr \<Rightarrow> socket_addr" where
  "bind_address addr =
     sock_new (if is_ipv4 addr then V4 (IP4 0 0 0 0) else V6 (IP6 0 0 0 0 0 0 0 0)) 0"

definition query_udp :: "udp_net \<Rightarrow> bytes \<Rightarrow> (legacy_error + bytes) option" where
  "query_udp net query =
     (case udp_bind net of Some e \<Rightarrow> Some (Inl (Io e))
      | None \<Rightarrow>
     (case udp_connect net of Some e \<Rightarrow> Some (Inl (Io e))
      | None \<Rightarrow>
     (case udp_send net of Some e \<Rightarrow> Some (Inl (Io e))
      | None \<Rightarrow> recv_loop query (udp_recv net))))"

section \<open>TCP\<close>

text \<open>Length-prefixed framing, as written by \<open>query_tcp\<close> and read by the listener.\<close>

definition frame :: "bytes \<Rightarrow> bytes" where
  "frame message = to_be16 (word_of_nat (length message)) @ message"

definition read_exact :: "string \<Rightarrow> nat \<Rightarrow> bytes \<Rightarrow> string + (bytes \<times> bytes)" where
  "read_exact err n input =
     (if n \<le> length input then Inr (take n input, drop n input) else Inl err)"

definition query_tcp :: "tcp_net \<Rightarrow> bytes \<Rightarrow> legacy_error + bytes" where
  "query_tcp net query =
     (if length query > 65535 then Inl QueryTooLarge
      else case tcp_connect net of Some e \<Rightarrow> Inl (Io e)
      | None \<Rightarrow>
     (case tcp_write net of Some e \<Rightarrow> Inl (Io e)
      | None \<Rightarrow>
     (case read_exact (tcp_read_error net) 2 (tcp_input net) of
        Inl e \<Rightarrow> Inl (Io e)
      | Inr (lenbuf, rest) \<Rightarrow>
     (case read_exact (tcp_read_error net) (unat (from_be16 (lenbuf ! 0) (lenbuf ! 1))) rest of
        Inl e \<Rightarrow> Inl (Io e)
      | Inr (response, _) \<Rightarrow>
          if length response < 12 \<or> take 2 response \<noteq> take 2 query then Inl TcpIdMismatch
          else case validate_response query response of
            Inl e \<Rightarrow> Inl (TcpRejected e)
          | Inr _ \<Rightarrow> Inr response))))"

definition legacy_query :: "udp_net \<Rightarrow> tcp_net \<Rightarrow> bytes \<Rightarrow> bool \<Rightarrow> (legacy_error + bytes) option" where
  "legacy_query udp tcp query tcp_retry =
     (case query_udp udp query of
        None \<Rightarrow> None
      | Some (Inl e) \<Rightarrow> Some (Inl e)
      | Some (Inr response) \<Rightarrow>
          if is_truncated response \<and> tcp_retry then Some (query_tcp tcp query)
          else Some (Inr response))"

section \<open>What a legacy answer guarantees\<close>

definition answers :: "bytes \<Rightarrow> bytes \<Rightarrow> bool" where
  "answers query response \<longleftrightarrow>
     take 2 response = take 2 query \<and> validate_response query response = Inr ()"

lemma answers_length: "answers q r \<Longrightarrow> 12 \<le> length q \<and> 12 \<le> length r"
  by (auto simp: answers_def dest: validate_response_ok)

lemma take2_truncate_to:
  assumes "12 \<le> length m" shows "take 2 (truncate_to m limit) = take 2 m"
proof (cases "length m \<le> limit")
  case False
  then have m: "limit < length m" by simp
  have "truncate_to m limit ! i = m ! i" if "i < 2" for i
    using truncate_to_header(2) [OF m assms, of i] that assms by (simp add: nth_mark_truncated)
  then show ?thesis using truncate_to_header(1) [OF m assms] assms
    by (simp add: list_eq_iff_nth_eq)
qed (simp add: truncate_to_short)

lemma recv_loop_ok:
  "recv_loop q net = Some (Inr r) \<Longrightarrow> answers q r \<and> length r \<le> 4096"
proof (induction q net rule: recv_loop.induct)
  case (3 q d rest)
  let ?buf = "take 4097 d"
  show ?case
  proof (cases "udp_accepts q ?buf")
    case True
    then have a: "answers q ?buf" "12 \<le> length ?buf" by (auto simp: udp_accepts_def answers_def)
    show ?thesis
    proof (cases "length ?buf > 4096")
      case True
      with "3.prems" \<open>udp_accepts q ?buf\<close> have r: "r = truncate_to ?buf 4096" "validate_response q r = Inr ()"
        by (auto simp: Let_def split: sum.splits)
      then show ?thesis
        using a take2_truncate_to [OF a(2), of 4096] truncate_to_length [of ?buf 4096]
        by (simp add: answers_def)
    next
      case False
      with "3.prems" \<open>udp_accepts q ?buf\<close> a show ?thesis by (auto simp: Let_def)
    qed
  next
    case False
    with "3.prems" "3.IH" show ?thesis by (simp add: Let_def)
  qed
qed simp_all

lemma query_udp_ok: "query_udp net q = Some (Inr r) \<Longrightarrow> answers q r \<and> length r \<le> 4096"
  by (auto simp: query_udp_def split: option.splits dest: recv_loop_ok)

lemma query_tcp_ok: "query_tcp net q = Inr r \<Longrightarrow> answers q r"
  by (auto simp: query_tcp_def answers_def Let_def split: option.splits sum.splits if_splits)

lemma legacy_query_ok: "legacy_query udp tcp q retry = Some (Inr r) \<Longrightarrow> answers q r"
  by (auto simp: legacy_query_def split: option.splits sum.splits if_splits
      dest: query_udp_ok query_tcp_ok)

text \<open>Datagrams that do not match are skipped: the genuine reply still arrives.\<close>

lemma recv_loop_skips:
  assumes "\<forall>d \<in> set stray. \<not> udp_accepts q (take 4097 d)"
  shows "recv_loop q (map Inr stray @ rest) = recv_loop q rest"
  using assms by (induction stray) (simp_all add: Let_def)

lemma read_frame:
  assumes "length m < 65536"
  shows "read_exact e 2 (frame m @ rest) = Inr (to_be16 (word_of_nat (length m)), m @ rest)"
    and "unat (from_be16 (to_be16 (word_of_nat (length m)) ! 0) (to_be16 (word_of_nat (length m)) ! 1)) = length m"
    and "read_exact e (length m) (m @ rest) = Inr (m, rest)"
  using assms by (simp_all add: read_exact_def frame_def be16_roundtrip [simplified] unat_of_nat)

section \<open>Properties\<close>

text \<open>Every answer of a legacy exchange carries the query's ID and answers its question, and an
  answer that was not fetched over TCP fits the 4096 bytes a datagram may have.\<close>

lemma legacy_answer:
  assumes "legacy_query udp tcp query tcp_retry = Some (Inr r)"
  shows "take 2 r = take 2 query \<and> validate_response query r = Inr ()
     \<and> (is_truncated r \<or> \<not> tcp_retry \<or> length r \<le> 4096 \<or> query_tcp tcp query = Inr r)
     \<and> (\<not> tcp_retry \<longrightarrow> length r \<le> 4096)"
proof -
  have "answers query r" using assms by (rule legacy_query_ok)
  moreover have "length r \<le> 4096 \<or> (tcp_retry \<and> query_tcp tcp query = Inr r)"
    using assms by (auto simp: legacy_query_def split: option.splits sum.splits if_splits
        dest: query_udp_ok)
  ultimately show ?thesis by (auto simp: answers_def)
qed

text \<open>Stray datagrams cannot end a UDP exchange: whatever wrong IDs, wrong questions or garbage
  arrive first, the first matching reply of at most 4096 bytes is returned.\<close>

lemma spoofed_datagrams_skipped:
  assumes "\<forall>d \<in> set stray. \<not> udp_accepts query (take 4097 d)"
    and "udp_accepts query r" "length r \<le> 4096"
  shows "recv_loop query (map Inr stray @ Inr r # rest) = Some (Inr r)"
  using recv_loop_skips [OF assms(1), of "Inr r # rest"] assms(2,3) by (simp add: Let_def)

text \<open>The TCP framing round-trips: a message framed by the sender is exactly what a TCP exchange
  returns, when it answers the query, whatever follows it on the stream.\<close>

lemma tcp_frame_roundtrip:
  assumes "answers query r" "length r < 65536" "length query \<le> 65535"
    and "tcp_connect net = None" "tcp_write net = None" "tcp_input net = frame r @ rest"
  shows "query_tcp net query = Inr r"
  using assms answers_length [OF assms(1)] read_frame [OF assms(2)]
  by (simp add: query_tcp_def answers_def)

end
