(* ===== verification/Config_Types.thy ===== *)
theory Config_Types
  imports Net_Addr
begin

text \<open>
  The validated configuration, \<open>src/src/config.rs\<close>: upstream protocols, address families,
  upstreams, the service section, and the log levels of the crate \<open>log\<close> in their order.
\<close>

datatype proto = Doh | Doh3 | Dot | Doq | Legacy

fun proto_as_str :: "proto \<Rightarrow> string" where
  "proto_as_str Doh = ''doh''"
| "proto_as_str Doh3 = ''doh3''"
| "proto_as_str Dot = ''dot''"
| "proto_as_str Doq = ''doq''"
| "proto_as_str Legacy = ''legacy''"

fun default_port :: "proto \<Rightarrow> u16" where
  "default_port Doh = 443"
| "default_port Doh3 = 443"
| "default_port Dot = 853"
| "default_port Doq = 853"
| "default_port Legacy = 53"

datatype ip_stack = Both | OnlyV4 | OnlyV6

text \<open>\<open>log::LevelFilter\<close>: a more verbose filter is greater.\<close>

datatype level_filter = LevelOff | LevelError | LevelWarn | LevelInfo | LevelDebug | LevelTrace

fun level_rank :: "level_filter \<Rightarrow> nat" where
  "level_rank LevelOff = 0"
| "level_rank LevelError = 1"
| "level_rank LevelWarn = 2"
| "level_rank LevelInfo = 3"
| "level_rank LevelDebug = 4"
| "level_rank LevelTrace = 5"

lemma level_rank_inject: "level_rank a = level_rank b \<longleftrightarrow> a = b"
  by (cases a; cases b) simp_all

instantiation level_filter :: linorder
begin

definition less_eq_level_filter :: "level_filter \<Rightarrow> level_filter \<Rightarrow> bool" where
  "less_eq_level_filter a b \<longleftrightarrow> level_rank a \<le> level_rank b"

definition less_level_filter :: "level_filter \<Rightarrow> level_filter \<Rightarrow> bool" where
  "less_level_filter a b \<longleftrightarrow> level_rank a < level_rank b"

instance
  by standard (auto simp: less_eq_level_filter_def less_level_filter_def level_rank_inject)

end

record upstream =
  up_name :: string
  up_proto :: proto
  up_host :: string
  up_port :: u16
  up_path :: string
  up_bootstrap_ip :: "ip_addr option"
  up_timeout_ms :: nat
  up_ip_stack :: ip_stack

record service =
  sv_log_level :: level_filter
  sv_log_path :: "string option"
  sv_cache_enable :: bool
  sv_cache_size :: nat

record config =
  cf_service :: service
  cf_listeners :: "socket_addr list"
  cf_upstreams :: "upstream list"

abbreviation DEFAULT_TIMEOUT_MS :: nat where "DEFAULT_TIMEOUT_MS \<equiv> 5000"

end
