(* ===== verification/Manager.thy ===== *)
theory Manager
  imports Legacy_Transport Config_Types Samples
begin

text \<open>
  Ordered failover over the configured upstreams, \<open>src/src/upstream/mod.rs\<close>: building the
  manager, one attempt against one upstream, accepting or passing over its answer, racing
  slow upstreams, and the fallback to the pre-takeover system DNS.  Log lines are left out.
  The hickory message type is represented by what the code inspects of it.
\<close>

section \<open>State\<close>

abbreviation MAX_ATTEMPTS :: nat where "MAX_ATTEMPTS \<equiv> 512"

text \<open>Clock readings in milliseconds here; \<open>HEDGE_DELAY\<close> is 300 ms.\<close>

abbreviation HEDGE_DELAY :: nat where "HEDGE_DELAY \<equiv> 300"

datatype backend =
  LegacyBackend string u16 "ip_addr option" ip_stack
| EncryptedBackend upstream

record upstream_entry =
  en_name :: string
  en_timeout_ms :: nat
  en_backend :: backend

record manager =
  mg_entries :: "upstream_entry list"
  mg_deny :: "socket_addr list"
  mg_attempts :: nat
  mg_system_fallback :: "socket_addr list"
  mg_fallback_active :: bool
  mg_fallback_failed :: bool

fun is_legacy :: "backend \<Rightarrow> bool" where
  "is_legacy (LegacyBackend _ _ _ _) = True"
| "is_legacy (EncryptedBackend _) = False"

definition is_self_address :: "socket_addr \<Rightarrow> socket_addr list \<Rightarrow> bool" where
  "is_self_address addr listeners =
     (let ip = to_canonical (sock_ip addr) in
      list_ex (\<lambda>listener. sock_port listener = sock_port addr
        \<and> (to_canonical (sock_ip listener) = ip \<or> is_loopback ip \<or> is_unspecified ip)) listeners)"

datatype manager_error = PointsAtListener string ip_addr u16

fun make_backend :: "upstream \<Rightarrow> backend" where
  "make_backend up =
     (case up_proto up of
        Legacy \<Rightarrow> LegacyBackend (up_host up) (up_port up) (up_bootstrap_ip up) (up_ip_stack up)
      | _ \<Rightarrow> EncryptedBackend up)"

fun build_entries :: "socket_addr list \<Rightarrow> upstream list \<Rightarrow> manager_error + upstream_entry list" where
  "build_entries listeners [] = Inr []"
| "build_entries listeners (up # ups) =
     (case up_bootstrap_ip up of
        Some ip \<Rightarrow>
          if is_self_address (sock_new ip (up_port up)) listeners
          then Inl (PointsAtListener (up_name up) ip (up_port up))
          else map_sum id ((#) \<lparr>en_name = up_name up, en_timeout_ms = up_timeout_ms up,
                                en_backend = make_backend up\<rparr>) (build_entries listeners ups)
      | None \<Rightarrow>
          map_sum id ((#) \<lparr>en_name = up_name up, en_timeout_ms = up_timeout_ms up,
                           en_backend = make_backend up\<rparr>) (build_entries listeners ups))"

definition manager_new ::
  "upstream list \<Rightarrow> socket_addr list \<Rightarrow> socket_addr list \<Rightarrow> manager_error + manager" where
  "manager_new all listeners fallback =
     map_sum id (\<lambda>entries. \<lparr>mg_entries = entries, mg_deny = listeners, mg_attempts = MAX_ATTEMPTS,
        mg_system_fallback = fallback, mg_fallback_active = False, mg_fallback_failed = False\<rparr>)
       (build_entries listeners all)"

definition set_system_fallback :: "manager \<Rightarrow> socket_addr list \<Rightarrow> manager" where
  "set_system_fallback m servers = m\<lparr>mg_system_fallback := servers\<rparr>"

section \<open>One attempt\<close>

datatype attempt_error =
  ResolveFailed string
| SelfDial socket_addr
| LegacyFailed legacy_error
| NoAddresses
| Unparseable string
| UnsupportedShape
| ChannelFailed string
| Rejected validation_error
| TimedOut nat

text \<open>The fields of hickory's \<open>Message\<close> that \<open>safe_encrypted_query\<close> looks at.\<close>

record message_view =
  mv_is_query :: bool
  mv_opcode_query :: bool
  mv_queries :: nat
  mv_answers :: nat
  mv_authorities :: nat
  mv_additionals :: nat
  mv_signed :: bool

definition safe_encrypted_query :: "message_view \<Rightarrow> bool" where
  "safe_encrypted_query msg \<longleftrightarrow> mv_is_query msg \<and> mv_opcode_query msg \<and> mv_queries msg = 1
     \<and> mv_answers msg = 0 \<and> mv_authorities msg = 0 \<and> mv_additionals msg = 0 \<and> \<not> mv_signed msg"

text \<open>A request parses its bytes at most once, failures included.\<close>

record request =
  rq_bytes :: bytes
  rq_parsed :: "(attempt_error + message_view) option"

definition request_new :: "bytes \<Rightarrow> request" where
  "request_new b = \<lparr>rq_bytes = b, rq_parsed = None\<rparr>"

definition request_message ::
  "(bytes \<Rightarrow> string + message_view) \<Rightarrow> request \<Rightarrow> (attempt_error + message_view) \<times> request" where
  "request_message from_vec rq =
     (case rq_parsed rq of
        Some r \<Rightarrow> (r, rq)
      | None \<Rightarrow>
          let r = (case from_vec (rq_bytes rq) of
                     Inl e \<Rightarrow> Inl (Unparseable e)
                   | Inr msg \<Rightarrow> if safe_encrypted_query msg then Inr msg else Inl UnsupportedShape)
          in (r, rq\<lparr>rq_parsed := Some r\<rparr>))"

text \<open>
  What an attempt reaches outside: the bootstrap resolver, a legacy exchange with one
  address (\<open>None\<close> while it is still waiting), the message parser and the encrypted channel.
\<close>

record attempt_env =
  ae_resolve :: "string \<Rightarrow> ip_stack \<Rightarrow> string + ip_addr list"
  ae_legacy :: "socket_addr \<Rightarrow> (legacy_error + bytes) option"
  ae_from_vec :: "bytes \<Rightarrow> string + message_view"
  ae_channel :: "upstream \<Rightarrow> message_view \<Rightarrow> (string + bytes) option"

fun try_addresses ::
  "attempt_env \<Rightarrow> socket_addr list \<Rightarrow> u16 \<Rightarrow> ip_addr list \<Rightarrow> attempt_error option \<Rightarrow> (attempt_error + bytes) option"
where
  "try_addresses env deny port [] last_err =
     Some (Inl (case last_err of None \<Rightarrow> NoAddresses | Some e \<Rightarrow> e))"
| "try_addresses env deny port (ip # ips) last_err =
     (let addr = sock_new ip port in
      if is_self_address addr deny then try_addresses env deny port ips (Some (SelfDial addr))
      else case ae_legacy env addr of
        None \<Rightarrow> None
      | Some (Inr response) \<Rightarrow> Some (Inr response)
      | Some (Inl e) \<Rightarrow> try_addresses env deny port ips (Some (LegacyFailed e)))"

definition attempt ::
  "attempt_env \<Rightarrow> socket_addr list \<Rightarrow> backend \<Rightarrow> request \<Rightarrow> (attempt_error + bytes) option"
where
  "attempt env deny be rq =
     (case be of
        LegacyBackend host port ip stack \<Rightarrow>
          (case ip of
             Some a \<Rightarrow> map_option (map_sum LegacyFailed id) (ae_legacy env (sock_new a port))
           | None \<Rightarrow>
               (case ae_resolve env host stack of
                  Inl e \<Rightarrow> Some (Inl (ResolveFailed e))
                | Inr ips \<Rightarrow> try_addresses env deny port ips None))
      | EncryptedBackend up \<Rightarrow>
          (case fst (request_message (ae_from_vec env) rq) of
             Inl e \<Rightarrow> Some (Inl e)
           | Inr msg \<Rightarrow>
               (case ae_channel env up msg of
                  None \<Rightarrow> None
                | Some (Inl e) \<Rightarrow> Some (Inl (ChannelFailed e))
                | Some (Inr response) \<Rightarrow>
                    (case validate_response (rq_bytes rq) response of
                       Inl e \<Rightarrow> Some (Inl (Rejected e))
                     | Inr _ \<Rightarrow> Some (Inr response)))))"

definition outer_timeout :: "upstream_entry \<Rightarrow> nat option" where
  "outer_timeout entry =
     (if en_timeout_ms entry = 0 then None
      else Some (if is_legacy (en_backend entry) then en_timeout_ms entry
                 else en_timeout_ms entry + 250))"

text \<open>\<open>done_after\<close> is when the attempt completes, in milliseconds from its start.\<close>

definition entry_run ::
  "upstream_entry \<Rightarrow> (attempt_error + bytes) option \<Rightarrow> nat \<Rightarrow> (attempt_error + bytes) option" where
  "entry_run entry outcome done_after =
     (case outer_timeout entry of
        None \<Rightarrow> outcome
      | Some limit \<Rightarrow>
          (case outcome of
             Some r \<Rightarrow> if done_after \<le> limit then Some r else Some (Inl (TimedOut (en_timeout_ms entry)))
           | None \<Rightarrow> Some (Inl (TimedOut (en_timeout_ms entry)))))"

section \<open>Accepting an answer\<close>

definition configured_answer ::
  "manager \<Rightarrow> bytes \<Rightarrow> attempt_error + bytes \<Rightarrow> (bytes option \<times> manager) run" where
  "configured_answer m query result =
     (case result of
        Inl _ \<Rightarrow> Ret (None, m)
      | Inr response \<Rightarrow>
          (case get response 3 of
             None \<Rightarrow> Panic
           | Some flags \<Rightarrow>
               if flags AND 0x0F = 2 then Ret (None, m)
               else (case get_range query 0 2 of
                       None \<Rightarrow> Panic
                     | Some ident \<Rightarrow>
                         run_bind (write_range response 0 ident) (\<lambda>response.
                           Ret (Some response, m\<lparr>mg_fallback_active := False,
                                                 mg_fallback_failed := False\<rparr>)))))"

datatype fallback_outcome = FbAnswer bytes | FbError legacy_error | FbTimeout

fun fallback_loop ::
  "(socket_addr \<Rightarrow> fallback_outcome) \<Rightarrow> socket_addr list \<Rightarrow> manager \<Rightarrow> (bytes option \<times> manager) run" where
  "fallback_loop ask [] m = Ret (None, m\<lparr>mg_fallback_failed := True\<rparr>)"
| "fallback_loop ask (server # servers) m =
     (case ask server of
        FbAnswer response \<Rightarrow>
          (case get response 3 of
             None \<Rightarrow> Panic
           | Some flags \<Rightarrow>
               if flags AND 0x0F = 2 then fallback_loop ask servers m
               else Ret (Some response, m\<lparr>mg_fallback_failed := False\<rparr>))
      | FbError _ \<Rightarrow> fallback_loop ask servers m
      | FbTimeout \<Rightarrow> fallback_loop ask servers m)"

definition forward_to_system ::
  "manager \<Rightarrow> bool \<Rightarrow> (socket_addr \<Rightarrow> fallback_outcome) \<Rightarrow> (bytes option \<times> manager) run" where
  "forward_to_system m permit ask =
     (if \<not> permit then Ret (None, m)
      else if mg_system_fallback m = [] then Ret (None, m\<lparr>mg_fallback_failed := True\<rparr>)
      else fallback_loop ask (mg_system_fallback m) (m\<lparr>mg_fallback_active := True\<rparr>))"

section \<open>Racing slow upstreams\<close>

text \<open>
  The loop of \<open>forward_hedged\<close> as a machine.  At the \<open>Head\<close> of the loop the next upstream is
  started or the loop waits: \<open>Polling i\<close> polls attempt \<open>i\<close> in the caller, \<open>Joining\<close> waits
  for the spawned attempts.  \<open>hd_spawned\<close> is the \<open>JoinSet\<close>, \<open>hd_aborts\<close> the abort handles
  of legacy attempts.  Events are the environment's: a turn of the loop head with its two
  clock readings and whether a permit was free, the completion or abort of an attempt, and
  the hedge timer.  An event the phase does not wait for changes nothing.
\<close>

datatype phase = Head | Polling nat | Joining | Finished "bytes option"

record hedge =
  hd_next :: nat
  hd_spawned :: "nat list"
  hd_aborts :: "nat list"
  hd_at :: "nat option"
  hd_phase :: phase
  hd_manager :: manager

datatype event =
  Turn nat nat bool
| Completed nat "attempt_error + bytes"
| Aborted nat
| HedgeTimer nat

definition hedge_init :: "manager \<Rightarrow> hedge" where
  "hedge_init m = \<lparr>hd_next = 0, hd_spawned = [], hd_aborts = [], hd_at = None,
                   hd_phase = Head, hd_manager = m\<rparr>"

definition timeout_of :: "manager \<Rightarrow> nat \<Rightarrow> nat" where
  "timeout_of m i = en_timeout_ms (mg_entries m ! i)"

definition races_next :: "manager \<Rightarrow> nat \<Rightarrow> bool" where
  "races_next m i \<longleftrightarrow> timeout_of m i > 0 \<and> i + 1 < length (mg_entries m) \<and> timeout_of m (i + 1) > 0"

definition spawn :: "nat \<Rightarrow> hedge \<Rightarrow> hedge" where
  "spawn i st = st\<lparr>hd_spawned := hd_spawned st @ [i],
     hd_aborts := (if is_legacy (en_backend (mg_entries (hd_manager st) ! i))
                   then hd_aborts st @ [i] else hd_aborts st)\<rparr>"

definition hedge_due :: "hedge \<Rightarrow> nat \<Rightarrow> bool" where
  "hedge_due st now \<longleftrightarrow> (case hd_at st of None \<Rightarrow> False | Some t \<Rightarrow> now \<ge> t)"

definition loop_head :: "hedge \<Rightarrow> nat \<Rightarrow> nat \<Rightarrow> bool \<Rightarrow> hedge" where
  "loop_head st now started permit =
     (if hd_spawned st = [] \<or> hedge_due st now then
        let st = st\<lparr>hd_at := None\<rparr> in
        if hd_next st \<ge> length (mg_entries (hd_manager st)) \<or> \<not> permit then
          (if hd_spawned st = [] then st\<lparr>hd_phase := Finished None\<rparr> else st)
        else
          let i = hd_next st;
              st = st\<lparr>hd_next := i + 1,
                      hd_at := (if races_next (hd_manager st) i then Some (started + HEDGE_DELAY) else None)\<rparr>
          in if hd_spawned st = [] then st\<lparr>hd_phase := Polling i\<rparr> else spawn i st
      else st\<lparr>hd_phase := Joining\<rparr>)"

fun hedge_step :: "bytes \<Rightarrow> event \<Rightarrow> hedge \<Rightarrow> hedge run" where
  "hedge_step query (Turn now started permit) st =
     (if hd_phase st = Head then Ret (loop_head st now started permit) else Ret st)"
| "hedge_step query (Completed i result) st =
     (if hd_phase st = Polling i then
        run_bind (configured_answer (hd_manager st) query result) (\<lambda>(answer, m).
          Ret (st\<lparr>hd_manager := m,
                  hd_phase := (case answer of None \<Rightarrow> Head | Some r \<Rightarrow> Finished (Some r))\<rparr>))
      else if hd_phase st = Joining \<and> i \<in> set (hd_spawned st) then
        run_bind (configured_answer (hd_manager st) query result) (\<lambda>(answer, m).
          (case answer of
             None \<Rightarrow> Ret (st\<lparr>hd_manager := m, hd_spawned := remove1 i (hd_spawned st), hd_phase := Head\<rparr>)
           | Some r \<Rightarrow>
               Ret (st\<lparr>hd_manager := m,
                       hd_spawned := filter (\<lambda>j. j \<notin> set (hd_aborts st)) (remove1 i (hd_spawned st)),
                       hd_phase := Finished (Some r)\<rparr>)))
      else Ret st)"
| "hedge_step query (Aborted i) st =
     (if hd_phase st = Joining \<and> i \<in> set (hd_spawned st)
      then Ret (st\<lparr>hd_spawned := remove1 i (hd_spawned st), hd_phase := Head\<rparr>)
      else Ret st)"
| "hedge_step query (HedgeTimer now) st =
     (if hedge_due st now then
        (case hd_phase st of
           Polling i \<Rightarrow> Ret (spawn i (st\<lparr>hd_phase := Head\<rparr>))
         | Joining \<Rightarrow> Ret (st\<lparr>hd_phase := Head\<rparr>)
         | _ \<Rightarrow> Ret st)
      else Ret st)"

definition forward_hedged :: "manager \<Rightarrow> bytes \<Rightarrow> event list \<Rightarrow> hedge run" where
  "forward_hedged m query events = fold_run (hedge_step query) events (hedge_init m)"

section \<open>Forwarding a query\<close>

text \<open>
  What happens around one forwarded query: the permit and the result of the only upstream,
  or the events of the race; then the permit and the answers of the system fallback.
  \<open>None\<close> is a query still waiting after the given events.
\<close>

record forward_env =
  fe_permit :: bool
  fe_result :: "attempt_error + bytes"
  fe_events :: "event list"
  fe_system_permit :: bool
  fe_system :: "socket_addr \<Rightarrow> fallback_outcome"

definition or_system ::
  "bytes option \<times> manager \<Rightarrow> forward_env \<Rightarrow> (bytes option \<times> manager) run" where
  "or_system answer env =
     (case answer of
        (Some response, m) \<Rightarrow> Ret (Some response, m)
      | (None, m) \<Rightarrow> forward_to_system m (fe_system_permit env) (fe_system env))"

definition manager_forward ::
  "manager \<Rightarrow> bytes \<Rightarrow> forward_env \<Rightarrow> (bytes option \<times> manager) option run" where
  "manager_forward m query env =
     (if length (mg_entries m) = 1 then
        (if \<not> fe_permit env then Ret (Some (None, m))
         else run_bind (configured_answer m query (fe_result env)) (\<lambda>answer.
                run_bind (or_system answer env) (\<lambda>r. Ret (Some r))))
      else run_bind (forward_hedged m query (fe_events env)) (\<lambda>st.
             (case hd_phase st of
                Finished answer \<Rightarrow>
                  run_bind (or_system (answer, hd_manager st) env) (\<lambda>r. Ret (Some r))
              | _ \<Rightarrow> Ret None)))"

section \<open>Self-dial\<close>

lemma is_self_address_iff:
  "is_self_address addr listeners \<longleftrightarrow>
     (\<exists>l \<in> set listeners. sock_port l = sock_port addr \<and>
        (to_canonical (sock_ip l) = to_canonical (sock_ip addr)
         \<or> is_loopback (to_canonical (sock_ip addr)) \<or> is_unspecified (to_canonical (sock_ip addr))))"
  by (auto simp: is_self_address_def Let_def list_ex_iff)

text \<open>No configured static address is one of our listeners.\<close>

lemma build_entries_ok:
  assumes "build_entries listeners ups = Inr es"
  shows "map en_name es = map up_name ups" "map en_timeout_ms es = map up_timeout_ms ups"
    "map en_backend es = map make_backend ups"
    "\<forall>up \<in> set ups. \<forall>ip. up_bootstrap_ip up = Some ip \<longrightarrow>
       \<not> is_self_address (sock_new ip (up_port up)) listeners"
  using assms
proof (induction ups arbitrary: es)
  case (Cons up ups)
  {
    case 1
    then show ?case using Cons.IH(1) by (cases "build_entries listeners ups")
      (auto split: option.splits if_splits)
  next
    case 2
    then show ?case using Cons.IH(2) by (cases "build_entries listeners ups")
      (auto split: option.splits if_splits)
  next
    case 3
    then show ?case using Cons.IH(3) by (cases "build_entries listeners ups")
      (auto split: option.splits if_splits)
  next
    case 4
    then show ?case using Cons.IH(4) by (cases "build_entries listeners ups")
      (auto split: option.splits if_splits)
  }
qed simp_all

lemma build_entries_error:
  "build_entries listeners ups = Inl e \<Longrightarrow>
     \<exists>up \<in> set ups. \<exists>ip. up_bootstrap_ip up = Some ip
        \<and> is_self_address (sock_new ip (up_port up)) listeners
        \<and> e = PointsAtListener (up_name up) ip (up_port up)"
proof (induction ups)
  case (Cons up ups)
  then show ?case by (cases "build_entries listeners ups") (auto split: option.splits if_splits)
qed simp

section \<open>Attempts only return validated answers\<close>

definition sound_result :: "bytes \<Rightarrow> 'e + bytes \<Rightarrow> bool" where
  "sound_result query result \<longleftrightarrow> (\<forall>r. result = Inr r \<longrightarrow> validate_response query r = Inr ())"

text \<open>A transport promises that whatever it returns answers the query it was given.\<close>

locale answering_transport =
  fixes exchange :: "bytes \<Rightarrow> socket_addr \<Rightarrow> (legacy_error + bytes) option"
  assumes exchange_answers: "exchange query addr = Some (Inr r) \<Longrightarrow> answers query r"
begin

lemma try_addresses_sound:
  assumes "ae_legacy env = exchange query"
    and "try_addresses env deny port ips e = Some (Inr r)"
  shows "validate_response query r = Inr ()"
  using assms exchange_answers
  by (induction env deny port ips e rule: try_addresses.induct)
     (auto simp: Let_def answers_def split: if_splits option.splits sum.splits)

lemma attempt_sound:
  assumes "ae_legacy env = exchange (rq_bytes rq)" "attempt env deny be rq = Some result"
  shows "sound_result (rq_bytes rq) result"
  using assms exchange_answers try_addresses_sound [OF assms(1)]
  by (auto simp: attempt_def sound_result_def answers_def
      split: backend.splits option.splits sum.splits if_splits)

end

interpretation legacy: answering_transport
  "\<lambda>query addr. legacy_query (udp addr) (tcp addr) query tcp_retry" for udp tcp tcp_retry
  by unfold_locales (rule legacy_query_ok)

text \<open>A timeout never turns into an answer.\<close>

lemma entry_run_sound:
  assumes "\<And>r. outcome = Some r \<Longrightarrow> sound_result query r" "entry_run entry outcome t = Some result"
  shows "sound_result query result"
  using assms by (auto simp: entry_run_def sound_result_def split: option.splits if_splits)

lemma entry_run_total: "en_timeout_ms entry > 0 \<Longrightarrow> entry_run entry outcome t \<noteq> None"
  by (auto simp: entry_run_def outer_timeout_def split: option.splits)

definition acceptable :: "'e + bytes \<Rightarrow> bool" where
  "acceptable result \<longleftrightarrow> (\<exists>r. result = Inr r \<and> r ! 3 AND 0x0F \<noteq> 2)"

lemma configured_answer_sound:
  assumes "sound_result query result"
  shows "configured_answer m query result =
     (case result of
        Inl _ \<Rightarrow> Ret (None, m)
      | Inr r \<Rightarrow> if acceptable result
                then Ret (Some (take 2 query @ drop 2 r),
                          m\<lparr>mg_fallback_active := False, mg_fallback_failed := False\<rparr>)
                else Ret (None, m))"
proof (cases result)
  case (Inr r)
  with assms have "12 \<le> length query" "12 \<le> length r"
    by (auto simp: sound_result_def dest: validate_response_ok)
  with Inr show ?thesis
    by (simp add: configured_answer_def acceptable_def get_def get_range_def write_range_def
        numeral_2_eq_2)
qed (simp add: configured_answer_def)

lemma fallback_loop_sound:
  assumes "\<And>server r. ask server = FbAnswer r \<Longrightarrow> answers query r"
  shows "\<exists>answer m'. fallback_loop ask servers m = Ret (answer, m')
     \<and> mg_entries m' = mg_entries m
     \<and> (\<forall>a. answer = Some a \<longrightarrow> answers query a \<and> a ! 3 AND 0x0F \<noteq> 2
          \<and> (\<exists>server \<in> set servers. ask server = FbAnswer a))
     \<and> mg_fallback_failed m' = (answer = None)"
proof (induction servers)
  case (Cons server servers)
  show ?case
  proof (cases "ask server")
    case (FbAnswer r)
    with assms have "answers query r" by blast
    then have "12 \<le> length r" using answers_length by blast
    with Cons FbAnswer \<open>answers query r\<close> show ?thesis by (auto simp: get_def)
  qed (use Cons in auto)
qed simp

section \<open>The race\<close>

definition running :: "hedge \<Rightarrow> nat list" where
  "running st = hd_spawned st @ (case hd_phase st of Polling i \<Rightarrow> [i] | _ \<Rightarrow> [])"

text \<open>
  The invariant of the race over the events \<open>E\<close>: upstreams are started in order and at most
  once, one without a timeout runs alone, every upstream started is running or has failed,
  and what the loop returns comes from a completed attempt.
\<close>

definition alone :: "manager \<Rightarrow> nat list \<Rightarrow> bool" where
  "alone m is \<longleftrightarrow> (\<forall>i \<in> set is. timeout_of m i = 0 \<longrightarrow> is = [i])"

definition failed_in :: "event set \<Rightarrow> nat \<Rightarrow> bool" where
  "failed_in E i \<longleftrightarrow> Aborted i \<in> E \<or> (\<exists>r. Completed i r \<in> E \<and> \<not> acceptable r)"

definition order_inv :: "manager \<Rightarrow> hedge \<Rightarrow> bool" where
  "order_inv m st \<longleftrightarrow> mg_entries (hd_manager st) = mg_entries m
     \<and> hd_next st \<le> length (mg_entries m)
     \<and> distinct (running st) \<and> (\<forall>i \<in> set (running st). i < hd_next st)
     \<and> (\<forall>i. hd_phase st = Polling i \<longrightarrow> hd_spawned st = [])
     \<and> alone m (running st)
     \<and> (hd_at st \<noteq> None \<longrightarrow> hd_next st < length (mg_entries m) \<and> timeout_of m (hd_next st) > 0
          \<and> (\<forall>i \<in> set (running st). timeout_of m i > 0))"

definition result_inv :: "manager \<Rightarrow> bytes \<Rightarrow> event set \<Rightarrow> hedge \<Rightarrow> bool" where
  "result_inv m query E st \<longleftrightarrow>
     (case hd_phase st of
        Finished (Some a) \<Rightarrow> (\<exists>i r. Completed i (Inr r) \<in> E \<and> i < length (mg_entries m)
           \<and> acceptable (Inr r :: attempt_error + bytes) \<and> a = take 2 query @ drop 2 r)
      | Finished None \<Rightarrow> hd_spawned st = [] \<and> (\<forall>i < hd_next st. failed_in E i)
           \<and> (hd_next st = length (mg_entries m) \<or> (\<exists>now started. Turn now started False \<in> E))
      | _ \<Rightarrow> \<forall>i < hd_next st. i \<in> set (running st) \<or> failed_in E i)"

lemma alone_single [simp]: "alone m [i]" and alone_Nil [simp]: "alone m []"
  by (simp_all add: alone_def)

lemma alone_sub: "alone m is \<Longrightarrow> set js \<subseteq> set is \<Longrightarrow> distinct js \<Longrightarrow> alone m js"
  unfolding alone_def
  by (metis distinct_length_2_or_more empty_iff insert_iff list.set(1,2) neq_Nil_conv subsetD)

lemma loop_head_order:
  assumes inv: "order_inv m st" and head: "hd_phase st = Head"
  shows "order_inv m (loop_head st now started permit)"
proof (cases "(hd_spawned st = [] \<or> hedge_due st now) \<and> hd_next st < length (mg_entries m) \<and> permit")
  case True
  let ?i = "hd_next st"
  have start: "loop_head st now started permit =
      (let st = st\<lparr>hd_at := None, hd_next := ?i + 1,
                  hd_at := (if races_next (hd_manager st) ?i then Some (started + HEDGE_DELAY) else None)\<rparr>
       in if hd_spawned st = [] then st\<lparr>hd_phase := Polling ?i\<rparr> else spawn ?i st)"
    using True inv by (auto simp: loop_head_def order_inv_def Let_def)
  have pos: "\<forall>i \<in> set (hd_spawned st). timeout_of m i > 0" "hd_spawned st \<noteq> [] \<Longrightarrow> timeout_of m ?i > 0"
    using True inv head by (auto simp: order_inv_def running_def hedge_due_def split: option.splits)
  have races: "races_next (hd_manager st) ?i = races_next m ?i"
    using inv by (simp add: order_inv_def races_next_def timeout_of_def)
  show ?thesis unfolding start Let_def
    using True inv head pos races
    by (auto simp: order_inv_def running_def spawn_def alone_def races_next_def split: if_splits)
next
  case False
  then show ?thesis using inv head
    by (auto simp: loop_head_def order_inv_def running_def Let_def)
qed

lemma loop_head_result:
  assumes inv: "order_inv m st" "result_inv m query E st" and head: "hd_phase st = Head"
    and E: "Turn now started permit \<in> E"
  shows "result_inv m query E (loop_head st now started permit)"
proof -
  have all: "\<forall>i < hd_next st. i \<in> set (hd_spawned st) \<or> failed_in E i"
    using inv head by (simp add: result_inv_def running_def)
  show ?thesis
  proof (cases "(hd_spawned st = [] \<or> hedge_due st now) \<and> hd_next st < length (mg_entries m) \<and> permit")
    case True
    then show ?thesis using inv(1) head all
      by (auto simp: loop_head_def order_inv_def result_inv_def running_def spawn_def Let_def less_Suc_eq)
  next
    case False
    then show ?thesis using inv(1) head all E
      by (cases permit) (auto simp: loop_head_def order_inv_def result_inv_def running_def Let_def)
  qed
qed


definition race_inv :: "manager \<Rightarrow> bytes \<Rightarrow> event set \<Rightarrow> hedge \<Rightarrow> bool" where
  "race_inv m query E st \<longleftrightarrow> order_inv m st \<and> result_inv m query E st"

definition sound_event :: "bytes \<Rightarrow> event \<Rightarrow> bool" where
  "sound_event query e = (case e of Completed i result \<Rightarrow> sound_result query result | _ \<Rightarrow> True)"

text \<open>Dropping attempts from the running ones keeps the order invariant.\<close>

lemma order_inv_drop:
  assumes "order_inv m st" "mg_entries m' = mg_entries m"
    and "set js \<subseteq> set (running st)" "distinct js" "\<forall>i. phase \<noteq> Polling i"
  shows "order_inv m (st\<lparr>hd_manager := m', hd_spawned := js, hd_phase := phase\<rparr>)"
proof -
  have "running (st\<lparr>hd_manager := m', hd_spawned := js, hd_phase := phase\<rparr>) = js"
    using assms(5) by (cases phase) (auto simp: running_def)
  moreover have "alone m js"
    using assms by (auto simp: order_inv_def intro: alone_sub)
  ultimately show ?thesis
    using assms by (auto simp: order_inv_def)
qed

lemma hedge_step_Completed:
  assumes inv: "race_inv m query E st" and e: "Completed i result \<in> E" "sound_result query result"
  shows "\<exists>st'. hedge_step query (Completed i result) st = Ret st' \<and> race_inv m query E st'"
proof -
  have out: "configured_answer (hd_manager st) query result = Ret (None, hd_manager st)
               \<and> \<not> acceptable result \<or>
      (\<exists>r. result = Inr r \<and> acceptable result \<and> configured_answer (hd_manager st) query result
         = Ret (Some (take 2 query @ drop 2 r),
                (hd_manager st)\<lparr>mg_fallback_active := False, mg_fallback_failed := False\<rparr>))"
    using configured_answer_sound [OF e(2), of "hd_manager st"]
    by (cases result) (auto simp: acceptable_def)
  have ent: "mg_entries (hd_manager st) = mg_entries m" and nd: "distinct (hd_spawned st)"
    and sub: "set (hd_spawned st) \<subseteq> set (running st)"
    using inv by (auto simp: race_inv_def order_inv_def running_def)
  have lt: "j < length (mg_entries m)" if "j \<in> set (running st)" for j
    using inv that by (fastforce simp: race_inv_def order_inv_def)
  consider (poll) "hd_phase st = Polling i" | (join) "hd_phase st = Joining" "i \<in> set (hd_spawned st)"
    | (other) "hd_phase st \<noteq> Polling i" "\<not> (hd_phase st = Joining \<and> i \<in> set (hd_spawned st))"
    by blast
  then show ?thesis
  proof cases
    case poll
    have ord: "order_inv m (st\<lparr>hd_manager := m', hd_phase := p\<rparr>)"
      if "mg_entries m' = mg_entries m" "\<forall>k. p \<noteq> Polling k" for m' p
      using order_inv_drop [of m st m' "hd_spawned st" p] that inv nd sub
      by (simp add: race_inv_def)
    have ord': "order_inv m (st\<lparr>hd_phase := Head\<rparr>)"
      using ord [of "hd_manager st" Head] ent by simp
    have "i < length (mg_entries m)" using lt poll by (simp add: running_def)
    with poll out show ?thesis
    proof (elim disjE exE conjE)
      assume none: "configured_answer (hd_manager st) query result = Ret (None, hd_manager st)"
        and bad: "\<not> acceptable result"
      have "failed_in E i" using bad e(1) by (auto simp: failed_in_def)
      then show ?thesis using none poll ord' inv
        by (auto simp: race_inv_def result_inv_def running_def)
    qed (use poll e(1) ent ord in \<open>auto simp: race_inv_def result_inv_def\<close>)
  next
    case join
    have ord: "order_inv m (st\<lparr>hd_manager := m', hd_spawned := js, hd_phase := p\<rparr>)"
      if "mg_entries m' = mg_entries m" "\<forall>k. p \<noteq> Polling k" "set js \<subseteq> set (hd_spawned st)"
        "distinct js" for m' p js
      using order_inv_drop [of m st m' js p] that inv sub by (auto simp: race_inv_def)
    have rm: "set (remove1 i (hd_spawned st)) \<subseteq> set (hd_spawned st)"
      "set (filter P (remove1 i (hd_spawned st))) \<subseteq> set (hd_spawned st)"
      "distinct (remove1 i (hd_spawned st))" "distinct (filter P (remove1 i (hd_spawned st)))" for P
      using nd by (auto simp: set_remove1_eq)
    show ?thesis
      using out
    proof (elim disjE exE conjE)
      assume none: "configured_answer (hd_manager st) query result = Ret (None, hd_manager st)"
        and bad: "\<not> acceptable result"
      have "order_inv m (st\<lparr>hd_manager := hd_manager st,
              hd_spawned := remove1 i (hd_spawned st), hd_phase := Head\<rparr>)"
        using rm ent by (intro ord) auto
      then show ?thesis
        using none bad join inv e(1) nd
        by (auto simp: race_inv_def result_inv_def running_def failed_in_def set_remove1_eq)
    next
      fix r
      assume ok: "result = Inr r" "acceptable result"
        and some: "configured_answer (hd_manager st) query result =
          Ret (Some (take 2 query @ drop 2 r),
               (hd_manager st)\<lparr>mg_fallback_active := False, mg_fallback_failed := False\<rparr>)"
      show ?thesis
        using some ok join e(1) ent lt [of i] sub rm
        by (auto simp: race_inv_def result_inv_def intro!: ord)
    qed
  qed (use inv in auto)
qed

lemma hedge_step_inv:
  assumes inv: "race_inv m query E st" and e: "e \<in> E" "sound_event query e"
  shows "\<exists>st'. hedge_step query e st = Ret st' \<and> race_inv m query E st'"
proof (cases e)
  case (Turn now started permit)
  then show ?thesis
    using inv e loop_head_order loop_head_result by (auto simp: race_inv_def)
next
  case (Completed i result)
  then show ?thesis using hedge_step_Completed inv e by (simp add: sound_event_def)
next
  case (Aborted i)
  show ?thesis
  proof (cases "hd_phase st = Joining \<and> i \<in> set (hd_spawned st)")
    case True
    then have "order_inv m (st\<lparr>hd_manager := hd_manager st,
        hd_spawned := remove1 i (hd_spawned st), hd_phase := Head\<rparr>)"
      using inv by (intro order_inv_drop)
        (auto simp: race_inv_def order_inv_def running_def set_remove1_eq)
    moreover have "distinct (hd_spawned st)"
      using inv by (auto simp: race_inv_def order_inv_def running_def)
    ultimately show ?thesis using True Aborted e inv
      by (auto simp: race_inv_def result_inv_def running_def failed_in_def set_remove1_eq)
  qed (use Aborted inv in auto)
next
  case (HedgeTimer now)
  show ?thesis
  proof (cases "hd_phase st")
    case (Polling i)
    then show ?thesis using HedgeTimer inv
      by (auto simp: race_inv_def order_inv_def result_inv_def running_def spawn_def)
  next
    case Joining
    then show ?thesis using HedgeTimer inv
      by (auto simp: race_inv_def order_inv_def result_inv_def running_def)
  qed (use HedgeTimer inv in auto)
qed

lemma hedge_init_inv: "race_inv m query E (hedge_init m)"
  by (simp add: race_inv_def order_inv_def result_inv_def hedge_init_def running_def)

lemma forward_hedged_inv:
  assumes "\<forall>e \<in> set events. sound_event query e"
  shows "\<exists>st. forward_hedged m query events = Ret st \<and> race_inv m query (set events) st"
  unfolding forward_hedged_def
  using assms hedge_init_inv hedge_step_inv by (intro fold_run_invariant) auto


lemma hedge_step_finished:
  "hd_phase st = Finished a \<Longrightarrow> hedge_step query e st = Ret st"
  by (cases e) simp_all

lemma fold_hedge_finished:
  "hd_phase st = Finished a \<Longrightarrow> fold_run (hedge_step query) es st = Ret st"
  by (induction es) (simp_all add: hedge_step_finished)

section \<open>Failover without racing\<close>

text \<open>The run in which every attempt completes before its hedge timer.\<close>

definition sequential :: "(nat \<Rightarrow> attempt_error + bytes) \<Rightarrow> nat \<Rightarrow> nat \<Rightarrow> event list" where
  "sequential res k n = concat (map (\<lambda>i. [Turn 0 0 True, Completed i (res i)]) [k..<n]) @ [Turn 0 0 True]"

text \<open>What failover promises: the first upstream in order with an acceptable answer.\<close>

definition first_acceptable ::
  "bytes \<Rightarrow> (nat \<Rightarrow> attempt_error + bytes) \<Rightarrow> nat list \<Rightarrow> bytes option" where
  "first_acceptable query res is =
     (case find (\<lambda>i. acceptable (res i)) is of
        None \<Rightarrow> None
      | Some i \<Rightarrow> Some (case res i of Inr r \<Rightarrow> take 2 query @ drop 2 r | Inl _ \<Rightarrow> []))"

lemma sequential_run:
  assumes "\<And>i. sound_result query (res i)"
    and "hd_phase st = Head" "hd_spawned st = []" "hd_next st = k" "k \<le> n"
    and "length (mg_entries (hd_manager st)) = n"
  shows "\<exists>st'. fold_run (hedge_step query) (sequential res k n) st = Ret st'
     \<and> hd_phase st' = Finished (first_acceptable query res [k..<n])"
  using assms(2-)
proof (induction "n - k" arbitrary: k st)
  case 0
  then show ?case by (simp add: sequential_def loop_head_def Let_def first_acceptable_def)
next
  case (Suc d)
  then have k: "k < n" by simp
  then have seq: "sequential res k n = Turn 0 0 True # Completed k (res k) # sequential res (Suc k) n"
    by (simp add: sequential_def upt_rec [of k])
  let ?st = "loop_head st 0 0 True"
  have head: "hd_phase ?st = Polling k" "hd_spawned ?st = []" "hd_next ?st = Suc k"
    "hd_manager ?st = hd_manager st"
    using Suc.prems k by (simp_all add: loop_head_def Let_def)
  show ?case
  proof (cases "acceptable (res k)")
    case True
    then obtain r where "res k = Inr r" by (auto simp: acceptable_def)
    with True assms(1) [of k] head Suc.prems(1) k show ?thesis
      by (simp add: seq configured_answer_sound fold_hedge_finished first_acceptable_def upt_rec [of k])
  next
    case False
    then have "configured_answer (hd_manager st) query (res k) = Ret (None, hd_manager st)"
      using assms(1) [of k] by (cases "res k") (simp_all add: configured_answer_sound)
    moreover have "first_acceptable query res [k..<n] = first_acceptable query res [Suc k..<n]"
      using False k by (simp add: first_acceptable_def upt_rec [of k])
    ultimately show ?thesis
      using Suc.hyps(1) [of "Suc k" "?st\<lparr>hd_manager := hd_manager st, hd_phase := Head\<rparr>"]
        Suc.hyps(2) Suc.prems k head by (simp add: seq)
  qed
qed


section \<open>What forwarding returns\<close>

text \<open>Environments whose transports return validated answers.\<close>

definition sound_env :: "bytes \<Rightarrow> forward_env \<Rightarrow> bool" where
  "sound_env query env \<longleftrightarrow> sound_result query (fe_result env)
     \<and> (\<forall>e \<in> set (fe_events env). sound_event query e)
     \<and> (\<forall>server r. fe_system env server = FbAnswer r \<longrightarrow> answers query r)"

text \<open>An answer of a forwarded query: complete, with the query's ID, and not SERVFAIL.\<close>

definition good_reply :: "bytes \<Rightarrow> bytes \<Rightarrow> bool" where
  "good_reply query a \<longleftrightarrow> 12 \<le> length a \<and> take 2 a = take 2 query \<and> a ! 3 AND 0x0F \<noteq> 2
     \<and> (\<exists>r. validate_response query r = Inr () \<and> a = take 2 query @ drop 2 r)"

lemma good_reply_acceptable:
  assumes "sound_result query (Inr r :: 'e + bytes)" "acceptable (Inr r :: 'e + bytes)"
  shows "good_reply query (take 2 query @ drop 2 r)"
proof -
  have "12 \<le> length query" "12 \<le> length r" "validate_response query r = Inr ()"
    using assms(1) by (auto simp: sound_result_def dest: validate_response_ok)
  then show ?thesis using assms(2)
    by (auto simp: good_reply_def acceptable_def nth_append)
qed

lemma good_reply_answers:
  assumes "answers query a" "a ! 3 AND 0x0F \<noteq> 2" shows "good_reply query a"
proof -
  have "a = take 2 query @ drop 2 a" using assms(1) by (metis answers_def append_take_drop_id)
  then show ?thesis using assms answers_length [of query a]
    by (auto simp: good_reply_def answers_def)
qed

lemma sound_result_Inr: "validate_response query r = Inr () \<Longrightarrow> sound_result query (Inr r)"
  by (simp add: sound_result_def)

definition forwarded :: "manager \<Rightarrow> bytes \<Rightarrow> (bytes option \<times> manager) run \<Rightarrow> bool" where
  "forwarded m query out \<longleftrightarrow> (\<exists>answer m'. out = Ret (answer, m') \<and> mg_entries m' = mg_entries m
     \<and> (\<forall>a. answer = Some a \<longrightarrow> good_reply query a))"

lemma configured_answer_forwarded:
  "sound_result query result \<Longrightarrow> forwarded m query (configured_answer m query result)"
  unfolding forwarded_def
  by (cases result) (auto simp: configured_answer_sound intro: good_reply_acceptable)

lemma or_system_forwarded:
  assumes "sound_env query env" "\<And>a. answer = Some a \<Longrightarrow> good_reply query a"
    "mg_entries m' = mg_entries m"
  shows "forwarded m query (or_system (answer, m') env)"
proof (cases answer)
  case None
  let ?out = "fallback_loop (fe_system env) (mg_system_fallback m') (m'\<lparr>mg_fallback_active := True\<rparr>)"
  have "\<And>server r. fe_system env server = FbAnswer r \<Longrightarrow> answers query r"
    using assms(1) by (simp add: sound_env_def)
  then have "forwarded m query ?out"
    using fallback_loop_sound [of "fe_system env" query "mg_system_fallback m'"
        "m'\<lparr>mg_fallback_active := True\<rparr>"] assms(3) good_reply_answers
    unfolding forwarded_def by fastforce
  then show ?thesis using None assms(3)
    by (auto simp: forwarded_def or_system_def forward_to_system_def)
qed (use assms in \<open>simp add: forwarded_def or_system_def\<close>)

lemma forward_hedged_answer:
  assumes "\<forall>e \<in> set events. sound_event query e" "forward_hedged m query events = Ret st"
  shows "mg_entries (hd_manager st) = mg_entries m"
    "hd_phase st = Finished (Some a) \<Longrightarrow> good_reply query a"
proof -
  have inv: "race_inv m query (set events) st" using forward_hedged_inv [OF assms(1), of m] assms(2) by simp
  then show "mg_entries (hd_manager st) = mg_entries m"
    by (simp add: race_inv_def order_inv_def)
  assume "hd_phase st = Finished (Some a)"
  with inv obtain i r where "Completed i (Inr r) \<in> set events"
    "acceptable (Inr r :: attempt_error + bytes)" "a = take 2 query @ drop 2 r"
    by (auto simp: race_inv_def result_inv_def)
  moreover from this assms(1) have "sound_result query (Inr r :: attempt_error + bytes)"
    by (auto simp: sound_event_def)
  ultimately show "good_reply query a" using good_reply_acceptable by blast
qed

lemma manager_forward_cases:
  assumes sound: "sound_env query env"
  obtains "manager_forward m query env = Ret None"
  | answer m' where "manager_forward m query env = Ret (Some (answer, m'))"
      "mg_entries m' = mg_entries m" "\<And>a. answer = Some a \<Longrightarrow> good_reply query a"
proof (cases "length (mg_entries m) = 1")
  case True
  have "sound_result query (fe_result env)" using sound by (simp add: sound_env_def)
  then obtain answer m' where c: "configured_answer m query (fe_result env) = Ret (answer, m')"
    "mg_entries m' = mg_entries m" "\<forall>a. answer = Some a \<longrightarrow> good_reply query a"
    using configured_answer_forwarded [of query "fe_result env" m] by (auto simp: forwarded_def)
  moreover from c have "forwarded m query (or_system (answer, m') env)"
    using or_system_forwarded [OF sound] by blast
  ultimately show thesis using True that
    by (cases "fe_permit env") (auto simp: manager_forward_def forwarded_def)
next
  case False
  have events: "\<forall>e \<in> set (fe_events env). sound_event query e" using sound by (simp add: sound_env_def)
  obtain st where st: "forward_hedged m query (fe_events env) = Ret st"
    using forward_hedged_inv [OF events] by blast
  note good = forward_hedged_answer [OF events st]
  show thesis
  proof (cases "hd_phase st")
    case (Finished answer)
    then have "forwarded m query (or_system (answer, hd_manager st) env)"
      using good by (intro or_system_forwarded [OF sound]) auto
    then show thesis using that st False Finished by (auto simp: manager_forward_def forwarded_def)
  qed (use that st False in \<open>auto simp: manager_forward_def\<close>)
qed

section \<open>Properties\<close>

definition sample_upstream :: "string \<Rightarrow> ip_addr option \<Rightarrow> upstream" where
  "sample_upstream name ip = \<lparr>up_name = name, up_proto = Legacy, up_host = name, up_port = 53,
     up_path = [], up_bootstrap_ip = ip, up_timeout_ms = 2000, up_ip_stack = Both\<rparr>"

definition sample_upstreams :: "upstream list" where
  "sample_upstreams = [sample_upstream ''a'' (Some (V4 (IP4 1 1 1 1))), sample_upstream ''b'' None]"

definition sample_listeners :: "socket_addr list" where
  "sample_listeners = [sock_new (V4 (IP4 127 0 0 1)) 53]"

definition sample_manager :: manager where
  "sample_manager = \<lparr>mg_entries = [\<lparr>en_name = ''a'', en_timeout_ms = 2000,
       en_backend = LegacyBackend ''a'' 53 (Some (V4 (IP4 1 1 1 1))) Both\<rparr>,
     \<lparr>en_name = ''b'', en_timeout_ms = 2000, en_backend = LegacyBackend ''b'' 53 None Both\<rparr>],
     mg_deny = sample_listeners, mg_attempts = MAX_ATTEMPTS, mg_system_fallback = [],
     mg_fallback_active = False, mg_fallback_failed = False\<rparr>"

lemma sample_manager_new: "manager_new sample_upstreams sample_listeners [] = Inr sample_manager"
  by code_simp

lemma sample_sound: "sound_result sample_query (Inr sample_response :: attempt_error + bytes)"
proof -
  have "validate_response sample_query sample_response = Inr ()" by code_simp
  then show ?thesis by (simp add: sound_result_def)
qed

definition sample_env :: forward_env where
  "sample_env = \<lparr>fe_permit = True, fe_result = Inl NoAddresses,
     fe_events = [Turn 0 0 True, HedgeTimer 300, Turn 300 300 True, Turn 301 301 True,
                  Completed 1 (Inr sample_response)],
     fe_system_permit = True, fe_system = (\<lambda>_. FbTimeout)\<rparr>"

text \<open>C10: Forwarding a query never panics, and an answer it returns is complete, carries the
  query's ID, is not SERVFAIL, and apart from the ID is a response that was validated against
  this query, whether it came from the only upstream, a race or the system fallback.\<close>

theorem forward_answers_query:
  assumes "sound_env query env"
  shows "\<exists>out. manager_forward m query env = Ret out \<and>
     (\<forall>answer m'. out = Some (answer, m') \<longrightarrow>
        mg_entries m' = mg_entries m \<and> (\<forall>a. answer = Some a \<longrightarrow> good_reply query a))"
  by (rule manager_forward_cases [OF assms, of m]) auto

lemma sample_env_sound: "sound_env sample_query sample_env"
  using sample_sound
  by (simp add: sound_env_def sample_env_def sound_event_def) (simp add: sound_result_def)

lemma forward_answers_query_witness: "good_reply sample_query sample_response"
proof -
  have "run_bind (manager_forward sample_manager sample_query sample_env) (\<lambda>out. Ret (map_option fst out))
      = Ret (Some (Some sample_response))" by code_simp
  with forward_answers_query [OF sample_env_sound, of sample_manager] show ?thesis by auto
qed



text \<open>C12: A race gives up only at the end: when it returns no answer, nothing is left running, every
  upstream it started was aborted or completed without an acceptable answer, and either all
  configured upstreams were started or a permit was refused.\<close>

theorem race_gives_up_last:
  assumes "\<forall>e \<in> set events. sound_event query e" "forward_hedged m query events = Ret st"
    and "hd_phase st = Finished None"
  shows "running st = [] \<and> (\<forall>i < hd_next st. failed_in (set events) i)
     \<and> (hd_next st = length (mg_entries m) \<or> (\<exists>now started. Turn now started False \<in> set events))"
  using forward_hedged_inv [OF assms(1), of m] assms(2,3)
  by (auto simp: race_inv_def result_inv_def running_def)

definition failing_events :: "event list" where
  "failing_events = [Turn 0 0 True, Completed 0 (Inl NoAddresses), Turn 0 0 True,
                     Completed 1 (Inl NoAddresses), Turn 0 0 True]"

lemma race_gives_up_last_witness: "failed_in (set failing_events) 0 \<and> failed_in (set failing_events) 1"
proof -
  have ev: "\<forall>e \<in> set failing_events. sound_event sample_query e"
    by (simp add: failing_events_def sound_event_def sound_result_def)
  have "run_bind (forward_hedged sample_manager sample_query failing_events)
      (\<lambda>st. Ret (hd_phase st, hd_next st)) = Ret (Finished None, 2)" by code_simp
  then obtain st where st: "forward_hedged sample_manager sample_query failing_events = Ret st"
    "hd_phase st = Finished None" "hd_next st = 2"
    by (cases "forward_hedged sample_manager sample_query failing_events") auto
  from race_gives_up_last [OF ev st(1,2)] st(3) show ?thesis by simp
qed

text \<open>C13: Without racing, failover is the specification: the query is answered by the first upstream
  in configuration order whose answer is acceptable, under the query's ID, and by none when no
  upstream's answer is.\<close>

theorem failover_is_first_acceptable:
  assumes "\<And>i. sound_result query (res i)"
  shows "\<exists>st. forward_hedged m query (sequential res 0 (length (mg_entries m))) = Ret st
     \<and> hd_phase st = Finished (first_acceptable query res [0..<length (mg_entries m)])"
  using sequential_run [OF assms, of "hedge_init m" 0 "length (mg_entries m)"]
  by (simp add: forward_hedged_def hedge_init_def)

lemma failover_is_first_acceptable_witness:
  "first_acceptable sample_query (\<lambda>i. if i = 0 then Inl NoAddresses else Inr sample_response) [0..<2]
     = Some sample_response"
proof -
  let ?res = "\<lambda>i :: nat. if i = 0 then Inl NoAddresses else Inr sample_response"
  have sound: "sound_result sample_query (?res i)" for i using sample_sound by (simp add: sound_result_def)
  have two: "length (mg_entries sample_manager) = 2" by (simp add: sample_manager_def)
  obtain st where st:
    "forward_hedged sample_manager sample_query (sequential ?res 0 2) = Ret st"
    "hd_phase st = Finished (first_acceptable sample_query ?res [0..<2])"
    using failover_is_first_acceptable [where res = ?res, OF sound, of sample_manager] unfolding two
    by blast
  have "run_bind (forward_hedged sample_manager sample_query (sequential ?res 0 2)) (\<lambda>st. Ret (hd_phase st))
      = Ret (Finished (Some sample_response))" by code_simp
  with st show ?thesis by simp
qed

text \<open>C23: The resolver never queries itself: an upstream whose static address is one of our listeners
  is rejected when the manager is built, and an attempt through a manager that was built depends
  on no exchange with an address that denotes a listener, resolved addresses included.\<close>

theorem attempt_never_dials_itself:
  assumes "manager_new ups listeners fallback = Inr m" "entry \<in> set (mg_entries m)"
    and "\<forall>addr. \<not> is_self_address addr listeners \<longrightarrow> ae_legacy env' addr = ae_legacy env addr"
    and "env' = env\<lparr>ae_legacy := ae_legacy env'\<rparr>"
  shows "attempt env' (mg_deny m) (en_backend entry) rq = attempt env (mg_deny m) (en_backend entry) rq"
proof -
  obtain es where es: "build_entries listeners ups = Inr es" "m = \<lparr>mg_entries = es, mg_deny = listeners,
      mg_attempts = MAX_ATTEMPTS, mg_system_fallback = fallback, mg_fallback_active = False,
      mg_fallback_failed = False\<rparr>"
    using assms(1) by (cases "build_entries listeners ups") (auto simp: manager_new_def)
  have "en_backend entry \<in> make_backend ` set ups"
    using assms(2) build_entries_ok(3) [OF es(1)] es(2) by (metis image_eqI list.set_map manager.select_convs(1))
  then obtain up where up: "up \<in> set ups" "en_backend entry = make_backend up" by blast
  have loop: "try_addresses env' listeners port ips e = try_addresses env listeners port ips e" for port ips e
    using assms(3) by (induction ips arbitrary: e) (auto simp: Let_def split: option.split sum.split)
  have same: "ae_resolve env' = ae_resolve env" "ae_from_vec env' = ae_from_vec env"
    "ae_channel env' = ae_channel env"
    using arg_cong [OF assms(4), of ae_resolve] arg_cong [OF assms(4), of ae_from_vec]
      arg_cong [OF assms(4), of ae_channel] by simp_all
  have "ae_legacy env' (sock_new a (up_port up)) = ae_legacy env (sock_new a (up_port up))"
    if "up_bootstrap_ip up = Some a" for a
    using that assms(3) build_entries_ok(4) [OF es(1)] up(1) by blast
  moreover have "mg_deny m = listeners" by (simp add: es(2))
  ultimately show ?thesis
    unfolding attempt_def up(2) same by (simp add: loop split: proto.split option.split sum.split)
qed

lemma attempt_never_dials_itself_witness:
  "attempt \<lparr>ae_resolve = (\<lambda>_ _. Inr [V4 (IP4 127 0 0 1)]), ae_legacy = (\<lambda>_. None),
            ae_from_vec = (\<lambda>_. Inl []), ae_channel = (\<lambda>_ _. None)\<rparr>
     sample_listeners (LegacyBackend ''b'' 53 None Both) (request_new sample_query)
   = Some (Inl (SelfDial (sock_new (V4 (IP4 127 0 0 1)) 53)))"
proof -
  let ?env = "\<lparr>ae_resolve = (\<lambda>_ _. Inr [V4 (IP4 127 0 0 1)]),
     ae_legacy = (\<lambda>addr. if is_self_address addr sample_listeners then Some (Inr sample_response) else None),
     ae_from_vec = (\<lambda>_. Inl []), ae_channel = (\<lambda>_ _. None)\<rparr>"
  let ?entry = "\<lparr>en_name = ''b'', en_timeout_ms = 2000, en_backend = LegacyBackend ''b'' 53 None Both\<rparr>"
  have entry: "?entry \<in> set (mg_entries sample_manager)" by (simp add: sample_manager_def)
  have "attempt (?env\<lparr>ae_legacy := (\<lambda>_. None)\<rparr>) (mg_deny sample_manager) (en_backend ?entry) (request_new sample_query)
      = attempt ?env (mg_deny sample_manager) (en_backend ?entry) (request_new sample_query)"
    by (rule attempt_never_dials_itself [OF sample_manager_new entry]) simp_all
  moreover have "attempt ?env (mg_deny sample_manager) (en_backend ?entry) (request_new sample_query)
      = Some (Inl (SelfDial (sock_new (V4 (IP4 127 0 0 1)) 53)))" by code_simp
  ultimately show ?thesis by (simp add: sample_manager_def)
qed

end
