(* ===== verification/Proxy.thy ===== *)
theory Proxy
  imports Cache Manager
begin

text \<open>
  The DNS listeners, \<open>src/src/proxy/mod.rs\<close>: the local answers, forwarding with caching, and
  the UDP and TCP loops as a machine whose tasks interleave at the points where the code
  awaits.  The queries in flight are bounded by a semaphore.
\<close>

section \<open>Local answers\<close>

abbreviation MAX_INFLIGHT :: nat where "MAX_INFLIGHT \<equiv> 512"
abbreviation MAX_TCP_CONNECTIONS :: nat where "MAX_TCP_CONNECTIONS \<equiv> 256"
abbreviation MAX_QUERY_SIZE :: nat where "MAX_QUERY_SIZE \<equiv> 4096"

definition servfail :: "bytes \<Rightarrow> bytes" where
  "servfail query =
     (if length query \<ge> 12 then query[2 := (query ! 2 AND 0x79) OR 0x80, 3 := 0x82] else query)"

definition formerr :: "bytes \<Rightarrow> bytes run" where
  "formerr query =
     (case (get_range query 0 2, get query 2) of
        (Some ident, Some flags) \<Rightarrow>
          run_bind (write_range (replicate 12 0) 0 ident) (\<lambda>response.
            Ret (response[2 := (flags AND 0x79) OR 0x80, 3 := 0x81]))
      | _ \<Rightarrow> Panic)"

text \<open>The flag, the response buffer and the cache.\<close>

definition local_response ::
  "'c entries_ops \<Rightarrow> 'c cache \<Rightarrow> bytes \<Rightarrow> query_meta option \<Rightarrow> nat \<Rightarrow> bytes \<Rightarrow> (bool \<times> bytes \<times> 'c cache) run"
where
  "local_response ops cache query meta now response =
     (if is_multi_question_query query
      then run_bind (formerr query) (\<lambda>response. Ret (True, response, cache))
      else case meta of
        None \<Rightarrow> Ret (False, response, cache)
      | Some meta \<Rightarrow>
          (case (get query 0, get query 1) of
             (Some a, Some b) \<Rightarrow> get_into ops cache meta (a, b) now response
           | _ \<Rightarrow> Panic))"

text \<open>What \<open>forward\<close> does with the manager's answer.\<close>

definition proxy_forward ::
  "'c entries_ops \<Rightarrow> 'c cache \<Rightarrow> bytes \<Rightarrow> query_meta option \<Rightarrow> bytes option \<Rightarrow> nat \<Rightarrow> (bytes \<times> 'c cache) run"
where
  "proxy_forward ops cache query meta answer now =
     (let response = (case answer of Some response \<Rightarrow> response | None \<Rightarrow> servfail query)
      in case meta of
        None \<Rightarrow> Ret (response, cache)
      | Some meta \<Rightarrow>
          run_bind (insert_response ops cache meta response now) (\<lambda>cache. Ret (response, cache)))"

section \<open>The listener machine\<close>

datatype client = UdpPeer socket_addr | TcpConn nat

text \<open>A task holds its permit from its creation; \<open>Forwarding\<close> is the await on the manager.\<close>

datatype stage = Fresh | Forwarding "query_meta option"

record task =
  tk_client :: client
  tk_query :: bytes
  tk_stage :: stage

datatype conn_state = Reading | Serving | Closed

record conn =
  cn_input :: bytes
  cn_output :: bytes
  cn_state :: conn_state

text \<open>\<open>sv_log\<close> records each message handed to a socket with the query it replies to.\<close>

record 'c server =
  sv_cache :: "'c cache"
  sv_manager :: manager
  sv_free :: nat
  sv_tasks :: "task list"
  sv_conns :: "conn list"
  sv_log :: "(client \<times> bytes \<times> bytes) list"

text \<open>
  What happens to the listeners: a datagram, a connection, bytes on it, a turn of its read
  loop, its idle timeout, the first poll of a task, and the completion of a task's forward
  (with what the upstreams answer to each query, and whether the reply could be written).
\<close>

datatype listener_event =
  Datagram socket_addr bytes
| Accepted
| Arrived nat bytes
| ReadTurn nat
| IdleTimeout nat
| Poll nat nat bool
| Forwarded nat "bytes \<Rightarrow> forward_env" nat bool

definition server_init :: "'c cache \<Rightarrow> manager \<Rightarrow> 'c server" where
  "server_init cache m = \<lparr>sv_cache = cache, sv_manager = m, sv_free = MAX_INFLIGHT,
     sv_tasks = [], sv_conns = [], sv_log = []\<rparr>"

definition remove_nth :: "nat \<Rightarrow> 'a list \<Rightarrow> 'a list" where
  "remove_nth i xs = take i xs @ drop (Suc i) xs"

text \<open>The body of \<open>udp_loop\<close>: the buffer holds one byte more than a query may have.\<close>

definition udp_receive :: "socket_addr \<Rightarrow> bytes \<Rightarrow> 'c server \<Rightarrow> 'c server" where
  "udp_receive peer datagram sv =
     (let buf = take (MAX_QUERY_SIZE + 1) datagram; n = length buf in
      if \<not> (12 \<le> n \<and> n \<le> MAX_QUERY_SIZE) \<or> sv_free sv = 0 then sv
      else sv\<lparr>sv_free := sv_free sv - 1,
              sv_tasks := sv_tasks sv @ [\<lparr>tk_client = UdpPeer peer, tk_query = buf, tk_stage = Fresh\<rparr>]\<rparr>)"

definition tcp_accept :: "'c server \<Rightarrow> 'c server" where
  "tcp_accept sv =
     (if length (filter (\<lambda>c. cn_state c \<noteq> Closed) (sv_conns sv)) \<ge> MAX_TCP_CONNECTIONS then sv
      else sv\<lparr>sv_conns := sv_conns sv @ [\<lparr>cn_input = [], cn_output = [], cn_state = Reading\<rparr>]\<rparr>)"

definition set_conn :: "nat \<Rightarrow> conn \<Rightarrow> 'c server \<Rightarrow> 'c server" where
  "set_conn k c sv = sv\<lparr>sv_conns := (sv_conns sv)[k := c]\<rparr>"

text \<open>
  The reading half of a turn of \<open>tcp_conn\<close>: nothing happens before the length prefix is
  complete, a bad length closes the connection, and a complete query waits for a permit.
\<close>

definition tcp_read :: "nat \<Rightarrow> 'c server \<Rightarrow> 'c server" where
  "tcp_read k sv =
     (case get (sv_conns sv) k of
        None \<Rightarrow> sv
      | Some c \<Rightarrow>
          if cn_state c \<noteq> Reading \<or> length (cn_input c) < 2 then sv
          else let n = unat (from_be16 (cn_input c ! 0) (cn_input c ! 1)) in
            if \<not> (12 \<le> n \<and> n \<le> MAX_QUERY_SIZE) then set_conn k (c\<lparr>cn_state := Closed\<rparr>) sv
            else if length (cn_input c) < 2 + n \<or> sv_free sv = 0 then sv
            else (set_conn k (c\<lparr>cn_input := drop (2 + n) (cn_input c), cn_state := Serving\<rparr>) sv)
                   \<lparr>sv_free := sv_free sv - 1,
                    sv_tasks := sv_tasks sv @ [\<lparr>tk_client = TcpConn k,
                      tk_query = take n (drop 2 (cn_input c)), tk_stage = Fresh\<rparr>]\<rparr>)"

text \<open>
  Sending the reply of task \<open>i\<close> and dropping its permit: a datagram is truncated to what the
  client accepts, a TCP message is framed, and a failed write closes the connection.
\<close>

definition udp_limit :: "bytes \<Rightarrow> query_meta option \<Rightarrow> nat" where
  "udp_limit query meta = (case meta of None \<Rightarrow> udp_payload_size query | Some meta \<Rightarrow> udp_size meta)"

definition send_reply :: "nat \<Rightarrow> task \<Rightarrow> query_meta option \<Rightarrow> bytes \<Rightarrow> bool \<Rightarrow> 'c server \<Rightarrow> 'c server" where
  "send_reply i t meta response write_ok sv =
     (let sv = sv\<lparr>sv_free := sv_free sv + 1, sv_tasks := remove_nth i (sv_tasks sv)\<rparr> in
      case tk_client t of
        UdpPeer peer \<Rightarrow>
          let reply = truncate_to response (udp_limit (tk_query t) meta)
          in sv\<lparr>sv_log := sv_log sv @ [(tk_client t, tk_query t, reply)]\<rparr>
      | TcpConn k \<Rightarrow>
          (case get (sv_conns sv) k of
             None \<Rightarrow> sv
           | Some c \<Rightarrow>
               if \<not> write_ok then set_conn k (c\<lparr>cn_state := Closed\<rparr>) sv
               else let len = min (length response) 65535; reply = take len response
                 in (set_conn k (c\<lparr>cn_output := cn_output c @ to_be16 (word_of_nat len) @ reply,
                                   cn_state := Reading\<rparr>) sv)
                      \<lparr>sv_log := sv_log sv @ [(tk_client t, tk_query t, reply)]\<rparr>))"

text \<open>The first poll of a task: parse, answer locally, or start forwarding.\<close>

definition task_poll :: "'c entries_ops \<Rightarrow> nat \<Rightarrow> nat \<Rightarrow> bool \<Rightarrow> 'c server \<Rightarrow> 'c server run" where
  "task_poll ops i now write_ok sv =
     (case get (sv_tasks sv) i of
        None \<Rightarrow> Ret sv
      | Some t \<Rightarrow>
          if tk_stage t \<noteq> Fresh then Ret sv
          else let meta = cache_query_meta (sv_cache sv) (tk_query t) in
            run_bind (local_response ops (sv_cache sv) (tk_query t) meta now [])
              (\<lambda>(found, response, cache).
                 let sv = sv\<lparr>sv_cache := cache\<rparr> in
                 if found then Ret (send_reply i t meta response write_ok sv)
                 else Ret (sv\<lparr>sv_tasks := (sv_tasks sv)[i := t\<lparr>tk_stage := Forwarding meta\<rparr>]\<rparr>)))"

text \<open>The rest of a task, once the manager has answered.\<close>

definition task_finish ::
  "'c entries_ops \<Rightarrow> nat \<Rightarrow> (bytes \<Rightarrow> forward_env) \<Rightarrow> nat \<Rightarrow> bool \<Rightarrow> 'c server \<Rightarrow> 'c server run"
where
  "task_finish ops i env now write_ok sv =
     (case get (sv_tasks sv) i of
        None \<Rightarrow> Ret sv
      | Some t \<Rightarrow>
          (case tk_stage t of
             Fresh \<Rightarrow> Ret sv
           | Forwarding meta \<Rightarrow>
               run_bind (manager_forward (sv_manager sv) (tk_query t) (env (tk_query t))) (\<lambda>out.
                 case out of
                   None \<Rightarrow> Ret sv
                 | Some (answer, m) \<Rightarrow>
                     run_bind (proxy_forward ops (sv_cache sv) (tk_query t) meta answer now)
                       (\<lambda>(response, cache).
                          Ret (send_reply i t meta response write_ok
                                 (sv\<lparr>sv_manager := m, sv_cache := cache\<rparr>))))))"

fun server_step :: "'c entries_ops \<Rightarrow> listener_event \<Rightarrow> 'c server \<Rightarrow> 'c server run" where
  "server_step ops (Datagram peer d) sv = Ret (udp_receive peer d sv)"
| "server_step ops Accepted sv = Ret (tcp_accept sv)"
| "server_step ops (Arrived k data) sv =
     (case get (sv_conns sv) k of
        None \<Rightarrow> Ret sv
      | Some c \<Rightarrow> Ret (set_conn k (c\<lparr>cn_input := cn_input c @ data\<rparr>) sv))"
| "server_step ops (ReadTurn k) sv = Ret (tcp_read k sv)"
| "server_step ops (IdleTimeout k) sv =
     (case get (sv_conns sv) k of
        None \<Rightarrow> Ret sv
      | Some c \<Rightarrow> if cn_state c = Reading then Ret (set_conn k (c\<lparr>cn_state := Closed\<rparr>) sv) else Ret sv)"
| "server_step ops (Poll i now write_ok) sv = task_poll ops i now write_ok sv"
| "server_step ops (Forwarded i env now write_ok) sv = task_finish ops i env now write_ok sv"

definition serve_events :: "'c entries_ops \<Rightarrow> listener_event list \<Rightarrow> 'c server \<Rightarrow> 'c server run" where
  "serve_events ops events sv = fold_run (server_step ops) events sv"


section \<open>Local replies\<close>

definition reply_ok :: "bytes \<Rightarrow> bytes \<Rightarrow> bool" where
  "reply_ok query r \<longleftrightarrow> 12 \<le> length r \<and> take 2 r = take 2 query"

lemma take_2_eq: "2 \<le> length q \<Longrightarrow> take 2 q = [q ! 0, q ! 1]"
  by (cases q; cases "tl q") auto

lemma reply_ok_servfail: "12 \<le> length query \<Longrightarrow> reply_ok query (servfail query)"
  by (simp add: reply_ok_def servfail_def)

lemma formerr_value:
  assumes "3 \<le> length query"
  shows "formerr query = Ret ([query ! 0, query ! 1, (query ! 2 AND 0x79) OR 0x80, 0x81] @ replicate 8 0)"
proof -
  obtain a b c rest where "query = a # b # c # rest"
    using assms by (auto simp: numeral_eq_Suc Suc_le_length_iff)
  then show ?thesis
    by (simp add: formerr_def get_range_def get_def write_range_def numeral_eq_Suc)
qed

lemma reply_ok_formerr: "3 \<le> length query \<Longrightarrow> \<exists>r. formerr query = Ret r \<and> reply_ok query r"
  by (simp add: formerr_value reply_ok_def take_2_eq)

lemma reply_ok_truncate: "reply_ok query r \<Longrightarrow> reply_ok query (truncate_to r limit)"
  unfolding reply_ok_def
  by (metis take2_truncate_to truncate_to_header(1) truncate_to_short not_less)

lemma reply_ok_good: "good_reply query a \<Longrightarrow> reply_ok query a"
  by (simp add: good_reply_def reply_ok_def)

lemma payload_loop_bounds: "512 \<le> payload_loop n m off \<and> payload_loop n m off \<le> 4096"
  by (induction n m off rule: payload_loop.induct) (auto simp: clamp_def split: option.split)

lemma udp_payload_size_bounds: "512 \<le> udp_payload_size m \<and> udp_payload_size m \<le> 4096"
  using payload_loop_bounds by (auto simp: udp_payload_size_def split: option.split bind_split)

definition meta_of :: "bytes \<Rightarrow> query_meta option \<Rightarrow> bool" where
  "meta_of query meta \<longleftrightarrow> (\<forall>mt. meta = Some mt \<longrightarrow> parse_query_meta query = Some mt)"

lemma meta_of_cache: "meta_of query (cache_query_meta cache query)"
  by (auto simp: meta_of_def cache_query_meta_def split: option.splits)

lemma udp_limit_eq: "meta_of query meta \<Longrightarrow> udp_limit query meta = udp_payload_size query"
  using accepted_payload_size parse_query_meta_accepted
  by (auto simp: meta_of_def udp_limit_def split: option.splits) metis

context response_cache
begin

lemma get_into_reply:
  assumes "ok cache"
  shows "\<exists>found r cache'. get_into ops cache meta (a, b) now buf = Ret (found, r, cache')
     \<and> ok cache' \<and> (found \<longrightarrow> 12 \<le> length r \<and> take 2 r = [a, b])"
proof (cases rule: get_into_cases [OF assms, of meta now a b buf, case_names hit miss])
  case (hit aged c)
  from hit_Some [OF hit(1)] assms have "entry_ok aged"
    by (auto simp: cache_ok_def cached_def split: option.splits)
  then have "12 \<le> length (a # b # drop 2 (e_response aged))" by (auto simp: entry_ok_def)
  with hit show ?thesis by auto
qed auto

lemma local_response_ok:
  assumes "ok cache" "12 \<le> length query"
  shows "\<exists>found r cache'. local_response ops cache query meta now buf = Ret (found, r, cache')
     \<and> ok cache' \<and> (found \<longrightarrow> reply_ok query r)"
proof (cases "is_multi_question_query query")
  case True
  then show ?thesis using assms reply_ok_formerr [of query] by (auto simp: local_response_def)
next
  case False
  show ?thesis
  proof (cases meta)
    case (Some mt)
    then have "local_response ops cache query meta now buf
        = get_into ops cache mt (query ! 0, query ! 1) now buf"
      using False assms(2) by (auto simp: local_response_def get_def)
    with get_into_reply [OF assms(1), of mt "query ! 0" "query ! 1" now buf] assms(2)
    show ?thesis by (simp add: reply_ok_def take_2_eq)
  qed (use False assms in \<open>auto simp: local_response_def\<close>)
qed

lemma proxy_forward_ok:
  assumes "ok cache" "12 \<le> length query" "\<And>a. answer = Some a \<Longrightarrow> reply_ok query a"
  shows "\<exists>r cache'. proxy_forward ops cache query meta answer now = Ret (r, cache')
     \<and> ok cache' \<and> reply_ok query r"
proof -
  let ?r = "case answer of Some response \<Rightarrow> response | None \<Rightarrow> servfail query"
  have r: "reply_ok query ?r"
    using assms reply_ok_servfail by (auto split: option.split)
  show ?thesis
  proof (cases meta)
    case (Some mt)
    with insert_no_panic [OF assms(1), of mt ?r now] r show ?thesis
      by (auto simp: proxy_forward_def Let_def)
  qed (use r assms(1) in \<open>simp add: proxy_forward_def\<close>)
qed

end


section \<open>The listener invariant\<close>

definition log_ok :: "client \<times> bytes \<times> bytes \<Rightarrow> bool" where
  "log_ok = (\<lambda>(client, query, reply). reply_ok query reply \<and>
     (case client of
        UdpPeer _ \<Rightarrow> length reply \<le> udp_payload_size query
      | TcpConn _ \<Rightarrow> length reply \<le> 65535))"

definition task_ok :: "task \<Rightarrow> bool" where
  "task_ok t \<longleftrightarrow> 12 \<le> length (tk_query t) \<and> length (tk_query t) \<le> MAX_QUERY_SIZE
     \<and> (\<forall>meta. tk_stage t = Forwarding meta \<longrightarrow> meta_of (tk_query t) meta)"

text \<open>What the client of connection \<open>k\<close> has been sent is the framed replies in order.\<close>

definition replies_to :: "nat \<Rightarrow> (client \<times> bytes \<times> bytes) list \<Rightarrow> bytes list" where
  "replies_to k entries = map (\<lambda>(_, _, reply). reply) (filter (\<lambda>(client, _, _). client = TcpConn k) entries)"

definition open_conns :: "'c server \<Rightarrow> nat" where
  "open_conns sv = length (filter (\<lambda>c. cn_state c \<noteq> Closed) (sv_conns sv))"

definition server_inv ::
  "('c \<Rightarrow> query_key \<rightharpoonup> entry) \<Rightarrow> ('c \<Rightarrow> bool) \<Rightarrow> upstream_entry list \<Rightarrow> 'c server \<Rightarrow> bool"
where
  "server_inv view invar entries sv \<longleftrightarrow>
     cache_ok view invar (sv_cache sv) \<and> mg_entries (sv_manager sv) = entries
     \<and> sv_free sv + length (sv_tasks sv) = MAX_INFLIGHT
     \<and> (\<forall>t \<in> set (sv_tasks sv). task_ok t) \<and> (\<forall>l \<in> set (sv_log sv). log_ok l)
     \<and> (\<forall>k < length (sv_conns sv).
          cn_output (sv_conns sv ! k) = concat (map frame (replies_to k (sv_log sv))))
     \<and> (\<forall>l \<in> set (sv_log sv). \<forall>k. fst l = TcpConn k \<longrightarrow> k < length (sv_conns sv))"

lemma remove_nth_length [simp]: "i < length xs \<Longrightarrow> length (remove_nth i xs) = length xs - 1"
  by (simp add: remove_nth_def)

lemma set_remove_nth: "set (remove_nth i xs) \<subseteq> set xs"
  by (auto simp: remove_nth_def dest: in_set_takeD in_set_dropD)

lemma replies_to_snoc [simp]:
  "replies_to k (log @ [(client, q, r)]) = replies_to k log @ (if client = TcpConn k then [r] else [])"
  by (simp add: replies_to_def)

lemma reply_ok_take: "reply_ok q r \<Longrightarrow> reply_ok q (take (min (length r) 65535) r)"
  by (auto simp: reply_ok_def min_def)

lemma set_conn_inv:
  assumes "server_inv view invar entries sv" "k < length (sv_conns sv)"
    and "cn_output c = cn_output (sv_conns sv ! k)"
  shows "server_inv view invar entries (set_conn k c sv)"
  using assms by (auto simp: server_inv_def set_conn_def nth_list_update)

lemma send_reply_inv:
  assumes inv: "server_inv view invar entries sv" and t: "get (sv_tasks sv) i = Some t"
    and meta: "meta_of (tk_query t) meta" and r: "reply_ok (tk_query t) r"
  shows "server_inv view invar entries (send_reply i t meta r write_ok sv)"
proof -
  have i: "i < length (sv_tasks sv)" using t by (simp add: get_Some_iff)
  let ?sv = "sv\<lparr>sv_free := sv_free sv + 1, sv_tasks := remove_nth i (sv_tasks sv)\<rparr>"
  have inv': "server_inv view invar entries ?sv"
    using inv i set_remove_nth [of i "sv_tasks sv"] by (auto simp: server_inv_def)
  show ?thesis
  proof (cases "tk_client t")
    case (UdpPeer peer)
    let ?reply = "truncate_to r (udp_limit (tk_query t) meta)"
    have "log_ok (tk_client t, tk_query t, ?reply)"
      using reply_ok_truncate [OF r] truncate_to_length [of r "udp_payload_size (tk_query t)"]
        udp_limit_eq [OF meta] udp_payload_size_bounds [of "tk_query t"] UdpPeer
      by (auto simp: log_ok_def max_def split: if_splits)
    with inv' show ?thesis
      by (auto simp: send_reply_def UdpPeer Let_def server_inv_def)
  next
    case (TcpConn k)
    show ?thesis
    proof (cases "get (sv_conns sv) k")
      case (Some c)
      then have k: "k < length (sv_conns sv)" "c = sv_conns sv ! k" by (auto simp: get_Some_iff)
      let ?reply = "take (min (length r) 65535) r"
      have "log_ok (tk_client t, tk_query t, ?reply)"
        using reply_ok_take [OF r] TcpConn by (simp add: log_ok_def)
      moreover have "frame ?reply = to_be16 (word_of_nat (min (length r) 65535)) @ ?reply"
        by (simp add: frame_def)
      ultimately show ?thesis
        using inv' Some k set_conn_inv [OF inv', of k "c\<lparr>cn_state := Closed\<rparr>"]
        by (auto simp: send_reply_def TcpConn Let_def server_inv_def set_conn_def nth_list_update)
    qed (use inv' in \<open>simp add: send_reply_def TcpConn Let_def\<close>)
  qed
qed


lemma server_inv_task:
  assumes "server_inv view invar entries sv" "get (sv_tasks sv) i = Some t"
  shows "task_ok t" "i < length (sv_tasks sv)"
  using assms by (auto simp: server_inv_def get_Some_iff)

lemma udp_receive_inv:
  "server_inv view invar entries sv \<Longrightarrow> server_inv view invar entries (udp_receive peer d sv)"
  by (auto simp: server_inv_def udp_receive_def Let_def task_ok_def)

lemma tcp_accept_inv:
  assumes "server_inv view invar entries sv"
  shows "server_inv view invar entries (tcp_accept sv)"
proof -
  have "replies_to (length (sv_conns sv)) (sv_log sv) = []"
    using assms by (fastforce simp: server_inv_def replies_to_def filter_empty_conv)
  with assms show ?thesis
    by (auto simp: server_inv_def tcp_accept_def nth_append less_Suc_eq)
qed

lemma tcp_read_inv:
  assumes "server_inv view invar entries sv"
  shows "server_inv view invar entries (tcp_read k sv)"
proof (cases "get (sv_conns sv) k")
  case (Some c)
  then have k: "k < length (sv_conns sv)" "c = sv_conns sv ! k" by (auto simp: get_Some_iff)
  let ?n = "unat (from_be16 (cn_input c ! 0) (cn_input c ! 1))"
  show ?thesis
  proof (cases "cn_state c \<noteq> Reading \<or> length (cn_input c) < 2 \<or> \<not> (12 \<le> ?n \<and> ?n \<le> MAX_QUERY_SIZE)
      \<or> length (cn_input c) < 2 + ?n \<or> sv_free sv = 0")
    case True
    then show ?thesis
      using assms set_conn_inv [OF assms, of k "c\<lparr>cn_state := Closed\<rparr>"] Some k
      by (auto simp: tcp_read_def Let_def)
  next
    case False
    let ?sv = "set_conn k (c\<lparr>cn_input := drop (2 + ?n) (cn_input c), cn_state := Serving\<rparr>) sv"
    have "server_inv view invar entries ?sv" using set_conn_inv [OF assms] k by simp
    with False Some show ?thesis
      by (auto simp: tcp_read_def Let_def server_inv_def task_ok_def set_conn_def)
  qed
qed (use assms in \<open>simp add: tcp_read_def\<close>)

definition sound_listener_event :: "listener_event \<Rightarrow> bool" where
  "sound_listener_event e \<longleftrightarrow>
     (case e of Forwarded _ env _ _ \<Rightarrow> \<forall>query. sound_env query (env query) | _ \<Rightarrow> True)"

context response_cache
begin

lemma task_poll_inv:
  assumes inv: "server_inv view invar entries sv"
  shows "\<exists>sv'. task_poll ops i now write_ok sv = Ret sv' \<and> server_inv view invar entries sv'"
proof (cases "get (sv_tasks sv) i")
  case (Some t)
  note t = server_inv_task [OF inv Some]
  show ?thesis
  proof (cases "tk_stage t")
    case Fresh
    let ?meta = "cache_query_meta (sv_cache sv) (tk_query t)"
    have "ok (sv_cache sv)" "12 \<le> length (tk_query t)"
      using inv t by (auto simp: server_inv_def task_ok_def)
    from local_response_ok [OF this, of ?meta now "[]"] obtain found r c where
      loc: "local_response ops (sv_cache sv) (tk_query t) ?meta now [] = Ret (found, r, c)"
      and c: "ok c" and r: "found \<Longrightarrow> reply_ok (tk_query t) r" by auto
    have inv': "server_inv view invar entries (sv\<lparr>sv_cache := c\<rparr>)"
      using inv c by (simp add: server_inv_def)
    show ?thesis
    proof (cases found)
      case True
      have "get (sv_tasks (sv\<lparr>sv_cache := c\<rparr>)) i = Some t" using Some by simp
      from send_reply_inv [OF inv' this meta_of_cache r] True Some Fresh loc show ?thesis
        by (simp add: task_poll_def Let_def)
    next
      case False
      have "server_inv view invar entries
          (sv\<lparr>sv_cache := c, sv_tasks := (sv_tasks sv)[i := t\<lparr>tk_stage := Forwarding ?meta\<rparr>]\<rparr>)"
        using inv' t meta_of_cache
        by (auto simp: server_inv_def task_ok_def dest!: set_update_subset_insert [THEN subsetD])
      with False Some Fresh loc show ?thesis by (simp add: task_poll_def Let_def)
    qed
  qed (use inv Some in \<open>simp add: task_poll_def\<close>)
qed (use inv in \<open>simp add: task_poll_def\<close>)

lemma task_finish_inv:
  assumes inv: "server_inv view invar entries sv" and env: "\<forall>query. sound_env query (env query)"
  shows "\<exists>sv'. task_finish ops i env now write_ok sv = Ret sv' \<and> server_inv view invar entries sv'"
proof (cases "get (sv_tasks sv) i")
  case (Some t)
  note t = server_inv_task [OF inv Some]
  show ?thesis
  proof (cases "tk_stage t")
    case (Forwarding meta)
    have meta: "meta_of (tk_query t) meta" using t Forwarding by (simp add: task_ok_def)
    have "sound_env (tk_query t) (env (tk_query t))" using env by blast
    from manager_forward_cases [OF this, of "sv_manager sv", case_names waiting answered]
    show ?thesis
    proof cases
      case (answered answer m')
      have "ok (sv_cache sv)" "12 \<le> length (tk_query t)"
        using inv t by (auto simp: server_inv_def task_ok_def)
      from proxy_forward_ok [OF this, of answer meta now] answered(3) reply_ok_good
      obtain r c where fwd: "proxy_forward ops (sv_cache sv) (tk_query t) meta answer now = Ret (r, c)"
        and c: "ok c" and r: "reply_ok (tk_query t) r" by blast
      have "server_inv view invar entries (sv\<lparr>sv_manager := m', sv_cache := c\<rparr>)"
        using inv c answered(2) by (simp add: server_inv_def)
      moreover have "get (sv_tasks (sv\<lparr>sv_manager := m', sv_cache := c\<rparr>)) i = Some t"
        using Some by simp
      ultimately have "server_inv view invar entries
          (send_reply i t meta r write_ok (sv\<lparr>sv_manager := m', sv_cache := c\<rparr>))"
        by (rule send_reply_inv [OF _ _ meta r])
      then show ?thesis using Some Forwarding fwd answered(1) by (simp add: task_finish_def)
    qed (use inv Some Forwarding in \<open>simp add: task_finish_def\<close>)
  qed (use inv Some in \<open>simp add: task_finish_def\<close>)
qed (use inv in \<open>simp add: task_finish_def\<close>)

lemma server_step_inv:
  assumes inv: "server_inv view invar entries sv" and e: "sound_listener_event e"
  shows "\<exists>sv'. server_step ops e sv = Ret sv' \<and> server_inv view invar entries sv'"
proof (cases e)
  case (Forwarded i env now w)
  with e have "\<forall>query. sound_env query (env query)" by (simp add: sound_listener_event_def)
  from task_finish_inv [OF inv this] Forwarded show ?thesis by simp
next
  case (Arrived k data)
  with set_conn_inv [OF inv] inv show ?thesis
    by (auto simp: get_Some_iff split: option.split)
next
  case (IdleTimeout k)
  with set_conn_inv [OF inv] inv show ?thesis
    by (auto simp: get_Some_iff split: option.split)
qed (use inv udp_receive_inv tcp_accept_inv tcp_read_inv task_poll_inv in auto)

lemma serve_events_inv:
  assumes "\<forall>e \<in> set events. sound_listener_event e" "ok cache"
  shows "\<exists>sv. serve_events ops events (server_init cache m) = Ret sv
     \<and> server_inv view invar (mg_entries m) sv"
  unfolding serve_events_def
proof (intro fold_run_invariant)
  show "server_inv view invar (mg_entries m) (server_init cache m)"
    using assms(2) by (simp add: server_inv_def server_init_def)
qed (use assms(1) server_step_inv in auto)

end

section \<open>Properties\<close>

definition sample_peer :: socket_addr where
  "sample_peer = sock_new (V4 (IP4 127 0 0 1)) 40000"

text \<open>C6: The listeners are safe under every interleaving of datagrams, connections, reads, timeouts,
  polls and upstream answers: they never panic, the permits in use and free always add up to 512,
  every reply carries its query's ID in a complete header, a datagram never exceeds the payload
  size its query advertised, and each TCP client has received exactly its framed replies in order.\<close>

theorem listeners_safe:
  assumes "response_cache ops view capacity invar"
    and "\<forall>e \<in> set events. sound_listener_event e"
  shows "\<exists>sv. serve_events ops events (server_init (cache_new ops enabled n) m) = Ret sv
     \<and> sv_free sv + length (sv_tasks sv) = MAX_INFLIGHT
     \<and> (\<forall>(client, query, reply) \<in> set (sv_log sv).
          12 \<le> length reply \<and> take 2 reply = take 2 query
          \<and> (case client of UdpPeer _ \<Rightarrow> length reply \<le> udp_payload_size query
             | TcpConn _ \<Rightarrow> length reply \<le> 65535))
     \<and> (\<forall>k < length (sv_conns sv).
          cn_output (sv_conns sv ! k) = concat (map frame (replies_to k (sv_log sv))))"
proof -
  have "cache_ok view invar (cache_new ops enabled n)" by (rule response_cache.new_ok [OF assms(1)])
  from response_cache.serve_events_inv [OF assms(1,2) this, of m]
  obtain sv where "serve_events ops events (server_init (cache_new ops enabled n) m) = Ret sv"
    "server_inv view invar (mg_entries m) sv" by blast
  then show ?thesis by (auto simp: server_inv_def log_ok_def reply_ok_def)
qed

definition sample_traffic :: "listener_event list" where
  "sample_traffic = [Datagram sample_peer sample_query, Poll 0 0 True,
     Forwarded 0 (\<lambda>q. if q = sample_query then sample_env
                      else sample_env\<lparr>fe_result := Inl NoAddresses, fe_events := []\<rparr>) 0 True,
     Datagram sample_peer sample_query_upper, Poll 0 second True]"

lemma listeners_safe_witness:
  "\<exists>sv. serve_events ref_lru sample_traffic (server_init (cache_new ref_lru True 4) sample_manager) = Ret sv
     \<and> sv_free sv + length (sv_tasks sv) = MAX_INFLIGHT
     \<and> map (\<lambda>(_, _, reply). take 2 reply) (sv_log sv) = [[0, 7], [0, 9]]"
proof -
  have ev: "\<forall>e \<in> set sample_traffic. sound_listener_event e"
    using sample_env_sound
    by (auto simp: sample_traffic_def sound_listener_event_def)
       (auto simp: sound_env_def sound_result_def sample_env_def)
  have "run_bind (serve_events ref_lru sample_traffic (server_init (cache_new ref_lru True 4) sample_manager))
      (\<lambda>sv. Ret (map (\<lambda>(_, _, reply). take 2 reply) (sv_log sv))) = Ret [[0, 7], [0, 9]]"
    by code_simp
  with listeners_safe [OF ref.response_cache_axioms ev, of True 4 sample_manager] show ?thesis by auto
qed

end
