(* ===== verification/Text.thy ===== *)
theory Text
  imports Prelude
begin

text \<open>
  The string operations of the standard library that the program uses.  A string is its UTF-8
  bytes, one \<^typ>\<open>char\<close> per byte: every operation here looks for or changes ASCII
  characters only, and no byte of a multi-byte character is ASCII.
\<close>

section \<open>Characters\<close>

definition code :: "char \<Rightarrow> nat" where
  "code c = of_char c"

definition ascii_digit :: "char \<Rightarrow> bool" where
  "ascii_digit c \<longleftrightarrow> 48 \<le> code c \<and> code c \<le> 57"

definition digit_value :: "char \<Rightarrow> nat" where
  "digit_value c = code c - 48"

definition to_ascii_lower :: "char \<Rightarrow> char" where
  "to_ascii_lower c = (if 65 \<le> code c \<and> code c \<le> 90 then char_of (code c + 32) else c)"

definition to_ascii_lowercase :: "string \<Rightarrow> string" where
  "to_ascii_lowercase = map to_ascii_lower"

text \<open>White space: tab, line feed, vertical tab, form feed, carriage return and space.\<close>

definition ascii_space :: "char \<Rightarrow> bool" where
  "ascii_space c \<longleftrightarrow> code c \<in> {9, 10, 11, 12, 13, 32}"

lemma ascii_space_code [code]:
  "ascii_space c \<longleftrightarrow> c = CHR '' '' \<or> c = CHR 0x0A \<or> c = CHR 0x09 \<or> c = CHR 0x0D \<or> c = CHR 0x0B \<or> c = CHR 0x0C"
proof -
  have "ascii_space c \<longleftrightarrow> c \<in> char_of ` {9, 10, 11, 12, 13, 32 :: nat}"
    unfolding ascii_space_def code_def
  proof
    assume "of_char c \<in> {9, 10, 11, 12, 13, 32 :: nat}"
    then have "char_of (of_char c :: nat) \<in> char_of ` {9, 10, 11, 12, 13, 32 :: nat}" by (rule imageI)
    then show "c \<in> char_of ` {9, 10, 11, 12, 13, 32 :: nat}" by simp
  next
    assume "c \<in> char_of ` {9, 10, 11, 12, 13, 32 :: nat}"
    then obtain n :: nat where "n \<in> {9, 10, 11, 12, 13, 32}" "c = char_of n" by blast
    moreover from this have "of_char c = n" by auto
    ultimately show "of_char c \<in> {9, 10, 11, 12, 13, 32 :: nat}" by simp
  qed
  moreover have "char_of (9 :: nat) = CHR 0x09" "char_of (10 :: nat) = CHR 0x0A" "char_of (11 :: nat) = CHR 0x0B"
    "char_of (12 :: nat) = CHR 0x0C" "char_of (13 :: nat) = CHR 0x0D" "char_of (32 :: nat) = CHR '' ''"
    by (simp_all add: char_of_def bit_Suc_0_iff)
  ultimately show ?thesis by auto
qed

lemma code_char_of: "n < 256 \<Longrightarrow> code (char_of n) = n"
  by (simp add: code_def of_char_of)

lemma to_ascii_lower_idem [simp]: "to_ascii_lower (to_ascii_lower c) = to_ascii_lower c"
  by (simp add: to_ascii_lower_def code_char_of)

lemma to_ascii_lowercase_idem [simp]:
  "to_ascii_lowercase (to_ascii_lowercase s) = to_ascii_lowercase s"
  by (simp add: to_ascii_lowercase_def)

section \<open>Slicing\<close>

fun starts_with :: "string \<Rightarrow> string \<Rightarrow> bool" where
  "starts_with s [] = True"
| "starts_with [] (p # ps) = False"
| "starts_with (c # s) (p # ps) = (c = p \<and> starts_with s ps)"

definition strip_prefix :: "string \<Rightarrow> string \<Rightarrow> string option" where
  "strip_prefix p s = (if starts_with s p then Some (drop (length p) s) else None)"

definition ends_with :: "string \<Rightarrow> string \<Rightarrow> bool" where
  "ends_with s p = starts_with (rev s) (rev p)"

definition strip_suffix :: "string \<Rightarrow> string \<Rightarrow> string option" where
  "strip_suffix p s = (if ends_with s p then Some (take (length s - length p) s) else None)"

text \<open>The text before and after the first, or the last, occurrence of a separator.\<close>

fun split_once :: "string \<Rightarrow> string \<Rightarrow> (string \<times> string) option" where
  "split_once sep [] = (if sep = [] then Some ([], []) else None)"
| "split_once sep (c # s) =
     (if starts_with (c # s) sep then Some ([], drop (length sep) (c # s))
      else map_option (\<lambda>(a, b). (c # a, b)) (split_once sep s))"

definition rsplit_once :: "string \<Rightarrow> string \<Rightarrow> (string \<times> string) option" where
  "rsplit_once sep s =
     map_option (\<lambda>(a, b). (rev b, rev a)) (split_once (rev sep) (rev s))"

lemma starts_with_append: "starts_with (p @ s) p"
  by (induction p) simp_all

lemma starts_with_iff: "starts_with s p \<longleftrightarrow> (\<exists>t. s = p @ t)"
  by (induction s p rule: starts_with.induct) auto

lemma split_once_append: "split_once sep s = Some (a, b) \<Longrightarrow> s = a @ sep @ b"
proof (induction sep s arbitrary: a rule: split_once.induct)
  case (2 sep c s)
  then show ?case by (auto split: if_splits simp: starts_with_iff)
qed (auto split: if_splits)

lemma split_once_first: "\<forall>c \<in> set a. c \<noteq> sep \<Longrightarrow> split_once [sep] (a @ sep # b) = Some (a, b)"
  by (induction a) auto

lemma rsplit_once_last: "\<forall>c \<in> set b. c \<noteq> sep \<Longrightarrow> rsplit_once [sep] (a @ sep # b) = Some (a, b)"
  using split_once_first [of "rev b" sep "rev a"] by (simp add: rsplit_once_def)

definition trim :: "string \<Rightarrow> string" where
  "trim s = rev (dropWhile ascii_space (rev (dropWhile ascii_space s)))"

lemma trim_id: "\<forall>c \<in> set s. \<not> ascii_space c \<Longrightarrow> trim s = s"
proof -
  have keep: "\<forall>c \<in> set t. \<not> ascii_space c \<Longrightarrow> dropWhile ascii_space t = t" for t
    by (cases t) auto
  assume "\<forall>c \<in> set s. \<not> ascii_space c"
  then show ?thesis using keep [of s] keep [of "rev s"] by (simp add: trim_def)
qed

text \<open>The pieces of a string between occurrences of one character.\<close>

fun split_char :: "char \<Rightarrow> string \<Rightarrow> string list" where
  "split_char sep [] = [[]]"
| "split_char sep (c # s) =
     (if c = sep then [] # split_char sep s
      else case split_char sep s of [] \<Rightarrow> [[c]] | w # ws \<Rightarrow> (c # w) # ws)"

text \<open>\<open>str::lines\<close>: a final line ending does not start another line, and \<open>CR LF\<close> ends one.\<close>

definition strip_cr :: "string \<Rightarrow> string" where
  "strip_cr l = (if l \<noteq> [] \<and> last l = char_of (13 :: nat) then butlast l else l)"

definition text_lines :: "string \<Rightarrow> string list" where
  "text_lines s =
     (let ls = split_char (char_of (10 :: nat)) s
      in map strip_cr (butlast ls) @ (if last ls = [] then [] else [last ls]))"

definition split_whitespace :: "string \<Rightarrow> string list" where
  "split_whitespace s =
     filter (\<lambda>w. w \<noteq> []) (split_char (CHR '' '') (map (\<lambda>c. if ascii_space c then CHR '' '' else c) s))"

fun join_with :: "string \<Rightarrow> string list \<Rightarrow> string" where
  "join_with sep [] = []"
| "join_with sep [w] = w"
| "join_with sep (w # ws) = w @ sep @ join_with sep ws"

lemma split_char_not_Nil [simp]: "split_char sep s \<noteq> []"
  by (induction s) (auto split: list.split)

lemma split_char_join: "join_with [sep] (split_char sep s) = s"
proof (induction s)
  case (Cons c s)
  then show ?case
    by (cases "split_char sep s"; cases "tl (split_char sep s)") auto
qed simp

section \<open>Numbers\<close>

text \<open>\<open>str::parse\<close> for an unsigned integer at most \<open>limit\<close>: an optional plus sign and digits.\<close>

fun digits_value :: "nat \<Rightarrow> string \<Rightarrow> nat option" where
  "digits_value acc [] = Some acc"
| "digits_value acc (c # s) =
     (if ascii_digit c then digits_value (acc * 10 + digit_value c) s else None)"

definition parse_unsigned :: "nat \<Rightarrow> string \<Rightarrow> nat option" where
  "parse_unsigned limit s =
     (let ds = (case s of c # rest \<Rightarrow> if c = CHR ''+'' \<and> rest \<noteq> [] then rest else s | [] \<Rightarrow> [])
      in if ds = [] then None
         else case digits_value 0 ds of
           None \<Rightarrow> None
         | Some n \<Rightarrow> if n \<le> limit then Some n else None)"

fun show_nat :: "nat \<Rightarrow> string" where
  "show_nat n = (if n < 10 then [char_of (48 + n)] else show_nat (n div 10) @ [char_of (48 + n mod 10)])"

declare show_nat.simps [simp del]

lemma digits_value_append:
  "digits_value acc (s @ t) = (case digits_value acc s of None \<Rightarrow> None | Some n \<Rightarrow> digits_value n t)"
  by (induction acc s rule: digits_value.induct) simp_all

lemma ascii_digit_char_of: "d < 10 \<Longrightarrow> ascii_digit (char_of (48 + d)) \<and> digit_value (char_of (48 + d)) = d"
  by (simp add: ascii_digit_def digit_value_def code_char_of)

lemma digits_value_show: "digits_value 0 (show_nat n) = Some n"
proof (induction n rule: show_nat.induct)
  case (1 n)
  show ?case
  proof (cases "n < 10")
    case False
    then show ?thesis using 1 ascii_digit_char_of [of "n mod 10"]
      by (subst show_nat.simps) (simp add: digits_value_append)
  qed (use ascii_digit_char_of [of n] in \<open>simp add: show_nat.simps [of n]\<close>)
qed

lemma show_nat_digits: "show_nat n \<noteq> [] \<and> (\<forall>c \<in> set (show_nat n). ascii_digit c)"
proof (induction n rule: show_nat.induct)
  case (1 n)
  then show ?case using ascii_digit_char_of [of n] ascii_digit_char_of [of "n mod 10"]
    by (subst (1 2) show_nat.simps) auto
qed

lemma parse_unsigned_show: "n \<le> limit \<Longrightarrow> parse_unsigned limit (show_nat n) = Some n"
proof -
  assume n: "n \<le> limit"
  obtain c rest where s: "show_nat n = c # rest" using show_nat_digits [of n] by (cases "show_nat n") auto
  then have "ascii_digit c" using show_nat_digits [of n] by simp
  then have "c \<noteq> CHR ''+''" by (auto simp: ascii_digit_def code_def)
  with s n digits_value_show [of n] show ?thesis by (simp add: parse_unsigned_def)
qed

end
