(* ===== verification/Bootstrap.thy ===== *)
theory Bootstrap
  imports Legacy_Transport Config_Types Text
begin

text \<open>
  Host name resolution through the bootstrap servers, \<open>src/src/upstream/bootstrap.rs\<close>: the
  cached answer of a key with its stale fallback and retry pause, one lookup over the servers,
  and the coordination of concurrent callers, of which one per key refreshes.
\<close>

section \<open>Slots\<close>

abbreviation UDP_TIMEOUT :: nat where "UDP_TIMEOUT \<equiv> 1 * second"
abbreviation TCP_TIMEOUT :: nat where "TCP_TIMEOUT \<equiv> 2 * second"
abbreviation MIN_TTL_SECS :: nat where "MIN_TTL_SECS \<equiv> 60"
abbreviation MAX_TTL_SECS :: nat where "MAX_TTL_SECS \<equiv> 86400"
abbreviation MAX_STALE :: nat where "MAX_STALE \<equiv> 86400 * second"
abbreviation RETRY_AFTER_FAILURE :: nat where "RETRY_AFTER_FAILURE \<equiv> 30 * second"

definition SERVERS :: "ip_addr list" where
  "SERVERS = [V4 (IP4 1 1 1 1), V4 (IP4 8 8 8 8),
              V6 (IP6 0x2606 0x4700 0x4700 0 0 0 0 0x1111), V6 (IP6 0x2001 0x4860 0x4860 0 0 0 0 0x8888)]"

type_synonym host_key = "string \<times> ip_stack"

datatype udp_failure = UdpTruncated | UdpFailed legacy_error | UdpTimedOut
datatype tcp_failure = TcpFailed legacy_error | TcpTimedOut

datatype lookup_error =
  NoServers
| Unencodable string
| ExchangeFailed socket_addr udp_failure tcp_failure
| Undecodable string

datatype boot_error =
  InvalidHostname string string
| BootstrapFailed string lookup_error
| RefreshAborted

record host_entry =
  he_ips :: "ip_addr list"
  he_expires :: nat

definition is_fresh :: "host_entry \<Rightarrow> nat \<Rightarrow> bool" where
  "is_fresh e now \<longleftrightarrow> now < he_expires e"

definition is_servable :: "host_entry \<Rightarrow> nat \<Rightarrow> bool" where
  "is_servable e now \<longleftrightarrow> now - he_expires e \<le> MAX_STALE"

record failure =
  fl_err :: boot_error
  fl_retry_at :: nat

record slot =
  sl_entry :: "host_entry option"
  sl_failure :: "failure option"

definition slot_default :: slot where
  "slot_default = \<lparr>sl_entry = None, sl_failure = None\<rparr>"

datatype plan = Answer "boot_error + ip_addr list" | Refresh "ip_addr list option"

definition drop_unservable :: "slot \<Rightarrow> nat \<Rightarrow> slot" where
  "drop_unservable slot now =
     (case sl_entry slot of
        Some e \<Rightarrow> if is_servable e now then slot else slot\<lparr>sl_entry := None\<rparr>
      | None \<Rightarrow> slot)"

definition fresh_ips :: "slot \<Rightarrow> nat \<Rightarrow> ip_addr list option" where
  "fresh_ips slot now =
     (case sl_entry slot of
        Some e \<Rightarrow> if is_fresh e now then Some (he_ips e) else None
      | None \<Rightarrow> None)"

definition slot_plan :: "slot \<Rightarrow> nat \<Rightarrow> plan \<times> slot" where
  "slot_plan slot now =
     (case fresh_ips slot now of
        Some ips \<Rightarrow> (Answer (Inr ips), slot)
      | None \<Rightarrow>
          let slot = drop_unservable slot now;
              stale = map_option he_ips (sl_entry slot)
          in case sl_failure slot of
               None \<Rightarrow> (Refresh stale, slot)
             | Some f \<Rightarrow>
                 if now < fl_retry_at f
                 then (Answer (case stale of Some ips \<Rightarrow> Inr ips | None \<Rightarrow> Inl (fl_err f)), slot)
                 else (Refresh stale, slot))"

definition slot_record ::
  "slot \<Rightarrow> boot_error + (ip_addr list \<times> nat) \<Rightarrow> nat \<Rightarrow> (boot_error + ip_addr list) \<times> slot"
where
  "slot_record slot result now =
     (case result of
        Inr (ips, ttl) \<Rightarrow>
          (Inr ips, \<lparr>sl_entry = Some \<lparr>he_ips = ips, he_expires = now + ttl * second\<rparr>, sl_failure = None\<rparr>)
      | Inl err \<Rightarrow>
          let slot = slot\<lparr>sl_failure := Some \<lparr>fl_err = err, fl_retry_at = now + RETRY_AFTER_FAILURE\<rparr>\<rparr>
          in case sl_entry slot of
               Some e \<Rightarrow> if is_servable e now then (Inr (he_ips e), slot)
                         else (Inl err, slot\<lparr>sl_entry := None\<rparr>)
             | None \<Rightarrow> (Inl err, slot))"

section \<open>One lookup\<close>

text \<open>A future awaited for at most \<open>limit\<close>; \<open>None\<close> inside is one that never completes.\<close>

definition within :: "nat \<Rightarrow> 'a option \<Rightarrow> nat \<Rightarrow> 'a option" where
  "within limit outcome done_after = (if done_after \<le> limit then outcome else None)"

record exchange_net =
  xn_udp :: udp_net
  xn_udp_after :: nat
  xn_tcp :: tcp_net
  xn_tcp_after :: nat

definition exchange :: "exchange_net \<Rightarrow> socket_addr \<Rightarrow> bytes \<Rightarrow> lookup_error + bytes" where
  "exchange net server query =
     (let udp = within UDP_TIMEOUT (query_udp (xn_udp net) query) (xn_udp_after net);
          tcp = (\<lambda>udp_err.
            case within TCP_TIMEOUT (Some (query_tcp (xn_tcp net) query)) (xn_tcp_after net) of
              Some (Inr response) \<Rightarrow> Inr response
            | Some (Inl e) \<Rightarrow> Inl (ExchangeFailed server udp_err (TcpFailed e))
            | None \<Rightarrow> Inl (ExchangeFailed server udp_err TcpTimedOut))
      in case udp of
           Some (Inr response) \<Rightarrow> if \<not> is_truncated response then Inr response else tcp UdpTruncated
         | Some (Inl e) \<Rightarrow> tcp (UdpFailed e)
         | None \<Rightarrow> tcp UdpTimedOut)"

text \<open>The record data the resolver distinguishes, as hickory decodes it.\<close>

datatype rdata = RA ip4 | RAAAA ip6 | ROther
datatype record_type = A | AAAA

type_synonym answer_record = "rdata \<times> u32"

text \<open>
  The parts of hickory a query uses: encoding a question under an ID, decoding the answers,
  and whether a string is a host name.
\<close>

record ('m) codec =
  cd_name :: "string \<Rightarrow> string + 'm"
  cd_encode :: "u16 \<Rightarrow> 'm \<Rightarrow> record_type \<Rightarrow> string + bytes"
  cd_answers :: "bytes \<Rightarrow> string + answer_record list"

text \<open>IDs mix the clock with a counter.\<close>

definition next_id :: "nat \<Rightarrow> u16 \<Rightarrow> u16 \<times> u16" where
  "next_id nanos counter = (word_of_nat nanos XOR counter, counter + 0x9e37)"

fun collect_answers :: "answer_record list \<Rightarrow> ip_addr list \<times> u32 \<Rightarrow> ip_addr list \<times> u32" where
  "collect_answers [] acc = acc"
| "collect_answers ((RA a, ttl) # rest) (ips, t) = collect_answers rest (ips @ [V4 a], min t ttl)"
| "collect_answers ((RAAAA a, ttl) # rest) (ips, t) = collect_answers rest (ips @ [V6 a], min t ttl)"
| "collect_answers ((ROther, ttl) # rest) (ips, t) = collect_answers rest (ips, t)"

type_synonym server_answer = "lookup_error + (ip_addr list \<times> u32)"

definition boot_query ::
  "'m codec \<Rightarrow> u16 \<Rightarrow> (socket_addr \<Rightarrow> record_type \<Rightarrow> exchange_net) \<Rightarrow> socket_addr \<Rightarrow> 'm \<Rightarrow> record_type \<Rightarrow> server_answer"
where
  "boot_query codec ident net server name rtype =
     (case cd_encode codec ident name rtype of
        Inl e \<Rightarrow> Inl (Unencodable e)
      | Inr query \<Rightarrow>
          (case exchange (net server rtype) server query of
             Inl e \<Rightarrow> Inl e
           | Inr response \<Rightarrow>
               (case cd_answers codec response of
                  Inl e \<Rightarrow> Inl (Undecodable e)
                | Inr records \<Rightarrow> Inr (collect_answers records ([], - 1)))))"

definition query_if :: "bool \<Rightarrow> server_answer \<Rightarrow> server_answer option" where
  "query_if wanted answer = (if wanted then Some answer else None)"

fun server_rank :: "ip_stack \<Rightarrow> socket_addr \<Rightarrow> bool" where
  "server_rank OnlyV4 server = is_ipv6 server"
| "server_rank OnlyV6 server = is_ipv4 server"
| "server_rank Both server = False"

definition ordered_servers :: "socket_addr list \<Rightarrow> ip_stack \<Rightarrow> socket_addr list" where
  "ordered_servers servers stack = sort_key (server_rank stack) servers"

text \<open>Merging the answers of one server: addresses, smallest TTL, last error.\<close>

fun merge_answers ::
  "server_answer list \<Rightarrow> ip_addr list \<times> nat \<times> lookup_error \<Rightarrow> ip_addr list \<times> nat \<times> lookup_error"
where
  "merge_answers [] acc = acc"
| "merge_answers (Inr (got, ttl) # rest) (ips, min_ttl, last_err) =
     merge_answers rest (ips @ got, min min_ttl (unat ttl), last_err)"
| "merge_answers (Inl e # rest) (ips, min_ttl, last_err) = merge_answers rest (ips, min_ttl, e)"

fun lookup_loop ::
  "string \<Rightarrow> (socket_addr \<Rightarrow> record_type \<Rightarrow> server_answer) \<Rightarrow> bool \<Rightarrow> bool \<Rightarrow> socket_addr list
     \<Rightarrow> lookup_error \<Rightarrow> boot_error + (ip_addr list \<times> nat)"
where
  "lookup_loop host ask want_a want_aaaa [] last_err = Inl (BootstrapFailed host last_err)"
| "lookup_loop host ask want_a want_aaaa (server # servers) last_err =
     (case merge_answers
             (List.map_filter id [query_if want_a (ask server A), query_if want_aaaa (ask server AAAA)])
             ([], MAX_TTL_SECS, last_err) of
        (ips, min_ttl, last_err) \<Rightarrow>
          if ips \<noteq> [] then Inr (remdups_adj (sort_key ip_is_ipv6 ips), clamp MIN_TTL_SECS MAX_TTL_SECS min_ttl)
          else lookup_loop host ask want_a want_aaaa servers last_err)"

definition lookup ::
  "'m codec \<Rightarrow> ('m \<Rightarrow> socket_addr \<Rightarrow> record_type \<Rightarrow> server_answer) \<Rightarrow> socket_addr list \<Rightarrow> string \<Rightarrow> ip_stack
     \<Rightarrow> boot_error + (ip_addr list \<times> nat)"
where
  "lookup codec ask servers host stack =
     (case cd_name codec host of
        Inl e \<Rightarrow> Inl (InvalidHostname host e)
      | Inr name \<Rightarrow>
          lookup_loop host (ask name) (stack \<noteq> OnlyV6) (stack \<noteq> OnlyV4)
            (ordered_servers servers stack) NoServers)"

section \<open>Callers\<close>

text \<open>
  \<open>rs_refreshing\<close> lists the keys whose refresh lock is held.  A call is answered at once,
  starts the refresh task and waits for it, or waits for the lock.
\<close>

record resolver =
  rs_servers :: "socket_addr list"
  rs_slots :: "host_key \<rightharpoonup> slot"
  rs_refreshing :: "host_key list"

datatype progress = Returned "boot_error + ip_addr list" | Refreshing | WaitingForLock

definition with_servers :: "socket_addr list \<Rightarrow> resolver" where
  "with_servers servers = \<lparr>rs_servers = servers, rs_slots = Map.empty, rs_refreshing = []\<rparr>"

definition bootstrap_new :: resolver where
  "bootstrap_new = with_servers (map (\<lambda>ip. sock_new ip 53) SERVERS)"

definition slot_of :: "resolver \<Rightarrow> host_key \<Rightarrow> slot" where
  "slot_of rs k = (case rs_slots rs k of Some slot \<Rightarrow> slot | None \<Rightarrow> slot_default)"

definition plan_key :: "resolver \<Rightarrow> host_key \<Rightarrow> nat \<Rightarrow> plan \<times> resolver" where
  "plan_key rs k now =
     (case slot_plan (slot_of rs k) now of
        (p, slot) \<Rightarrow> (p, rs\<lparr>rs_slots := (rs_slots rs)(k \<mapsto> slot)\<rparr>))"

definition resolve_call :: "resolver \<Rightarrow> string \<Rightarrow> ip_stack \<Rightarrow> nat \<Rightarrow> progress \<times> resolver" where
  "resolve_call rs host stack now =
     (let k = (to_ascii_lowercase host, stack) in
      case plan_key rs k now of
        (Answer result, rs) \<Rightarrow> (Returned result, rs)
      | (Refresh stale, rs) \<Rightarrow>
          if k \<notin> set (rs_refreshing rs)
          then (Refreshing, rs\<lparr>rs_refreshing := k # rs_refreshing rs\<rparr>)
          else (case stale of
                  Some ips \<Rightarrow> (Returned (Inr ips), rs)
                | None \<Rightarrow> (WaitingForLock, rs)))"

text \<open>A waiting caller that gets the lock plans again; the lock is released on an answer.\<close>

definition resolve_woken :: "resolver \<Rightarrow> host_key \<Rightarrow> nat \<Rightarrow> progress \<times> resolver" where
  "resolve_woken rs k now =
     (if k \<in> set (rs_refreshing rs) then (WaitingForLock, rs)
      else case plan_key rs k now of
        (Answer result, rs) \<Rightarrow> (Returned result, rs)
      | (Refresh stale, rs) \<Rightarrow> (Refreshing, rs\<lparr>rs_refreshing := k # rs_refreshing rs\<rparr>))"

definition refresh_done ::
  "resolver \<Rightarrow> host_key \<Rightarrow> boot_error + (ip_addr list \<times> nat) \<Rightarrow> nat \<Rightarrow> progress \<times> resolver"
where
  "refresh_done rs k result now =
     (case slot_record (slot_of rs k) result now of
        (answer, slot) \<Rightarrow>
          (Returned answer, rs\<lparr>rs_slots := (rs_slots rs)(k \<mapsto> slot),
                               rs_refreshing := removeAll k (rs_refreshing rs)\<rparr>))"

definition invalidate :: "resolver \<Rightarrow> string \<Rightarrow> nat \<Rightarrow> resolver" where
  "invalidate rs host now =
     rs\<lparr>rs_slots := (\<lambda>k. case rs_slots rs k of
          None \<Rightarrow> None
        | Some slot \<Rightarrow>
            Some (if fst k = to_ascii_lowercase host
                  then slot\<lparr>sl_entry := map_option (\<lambda>e. e\<lparr>he_expires := min (he_expires e) now\<rparr>)
                                          (sl_entry slot)\<rparr>
                  else slot))\<rparr>"


section \<open>Histories\<close>

datatype resolver_event =
  Call string ip_stack nat
| Woken host_key nat
| Done host_key "boot_error + (ip_addr list \<times> nat)" nat
| Invalidate string nat

text \<open>The outcome names the key and the time of the caller; a refresh must be running to end.\<close>

fun resolver_step ::
  "resolver_event \<Rightarrow> resolver \<Rightarrow> (host_key \<times> nat \<times> progress) list \<times> resolver"
where
  "resolver_step (Call host stack now) rs =
     (case resolve_call rs host stack now of
        (p, rs) \<Rightarrow> ([((to_ascii_lowercase host, stack), now, p)], rs))"
| "resolver_step (Woken k now) rs =
     (case resolve_woken rs k now of (p, rs) \<Rightarrow> ([(k, now, p)], rs))"
| "resolver_step (Done k result now) rs =
     (if k \<in> set (rs_refreshing rs)
      then case refresh_done rs k result now of (p, rs) \<Rightarrow> ([(k, now, p)], rs)
      else ([], rs))"
| "resolver_step (Invalidate host now) rs = ([], invalidate rs host now)"

fun resolver_run ::
  "resolver_event list \<Rightarrow> resolver \<Rightarrow> (host_key \<times> nat \<times> progress) list \<times> resolver"
where
  "resolver_run [] rs = ([], rs)"
| "resolver_run (e # es) rs =
     (case resolver_step e rs of
        (out, rs) \<Rightarrow> (case resolver_run es rs of (outs, rs) \<Rightarrow> (out @ outs, rs)))"

section \<open>Where addresses come from\<close>

text \<open>An entry stems from a successful refresh of its key and expires no later than its TTL says.\<close>

definition from_refresh :: "resolver_event set \<Rightarrow> host_key \<Rightarrow> host_entry \<Rightarrow> bool" where
  "from_refresh E k e \<longleftrightarrow>
     (\<exists>t ttl. Done k (Inr (he_ips e, ttl)) t \<in> E \<and> he_expires e \<le> t + ttl * second)"

definition slot_from :: "resolver_event set \<Rightarrow> host_key \<Rightarrow> slot \<Rightarrow> bool" where
  "slot_from E k slot \<longleftrightarrow> (\<forall>e. sl_entry slot = Some e \<longrightarrow> from_refresh E k e)"

definition slots_from :: "resolver_event set \<Rightarrow> resolver \<Rightarrow> bool" where
  "slots_from E rs \<longleftrightarrow> (\<forall>k. slot_from E k (slot_of rs k))"

definition served_from :: "resolver_event set \<Rightarrow> host_key \<Rightarrow> nat \<Rightarrow> progress \<Rightarrow> bool" where
  "served_from E k now p \<longleftrightarrow> (\<forall>ips. p = Returned (Inr ips) \<longrightarrow>
     (\<exists>t ttl. Done k (Inr (ips, ttl)) t \<in> E \<and> now \<le> t + ttl * second + MAX_STALE))"

definition plan_progress :: "plan \<Rightarrow> progress" where
  "plan_progress p = (case p of
     Answer r \<Rightarrow> Returned r
   | Refresh (Some ips) \<Rightarrow> Returned (Inr ips)
   | Refresh None \<Rightarrow> WaitingForLock)"

lemma served_entry:
  "from_refresh E k e \<Longrightarrow> is_fresh e now \<or> is_servable e now \<Longrightarrow> served_from E k now (Returned (Inr (he_ips e)))"
  unfolding from_refresh_def served_from_def is_fresh_def is_servable_def by fastforce

lemma served_from_other [simp]:
  "served_from E k now WaitingForLock" "served_from E k now Refreshing"
  "served_from E k now (Returned (Inl err))"
  by (simp_all add: served_from_def)

lemma plan_progress_simps [simp]:
  "plan_progress (Answer r) = Returned r" "plan_progress (Refresh (Some ips)) = Returned (Inr ips)"
  "plan_progress (Refresh None) = WaitingForLock"
  by (simp_all add: plan_progress_def)

lemma slot_plan_from:
  assumes "slot_from E k slot" "slot_plan slot now = (p, slot')"
  shows "slot_from E k slot' \<and> served_from E k now (plan_progress p) \<and> sl_failure slot' = sl_failure slot"
proof (cases "sl_entry slot")
  case None
  with assms show ?thesis
    by (auto simp: slot_plan_def fresh_ips_def drop_unservable_def Let_def split: option.splits if_splits)
next
  case (Some e)
  then have e: "from_refresh E k e" using assms(1) by (simp add: slot_from_def)
  consider (fresh) "is_fresh e now" | (stale) "\<not> is_fresh e now" "is_servable e now"
    | (dead) "\<not> is_fresh e now" "\<not> is_servable e now" by blast
  then show ?thesis
  proof cases
    case fresh
    with assms Some served_entry [OF e, of now] show ?thesis by (auto simp: slot_plan_def fresh_ips_def)
  next
    case stale
    with assms Some served_entry [OF e, of now] show ?thesis
      by (auto simp: slot_plan_def fresh_ips_def drop_unservable_def Let_def split: option.splits if_splits)
  next
    case dead
    with assms Some show ?thesis
      by (auto simp: slot_plan_def fresh_ips_def drop_unservable_def Let_def slot_from_def
          split: option.splits if_splits)
  qed
qed

lemma slot_record_from:
  assumes "slot_from E k slot" "slot_record slot result now = (answer, slot')" "Done k result now \<in> E"
  shows "slot_from E k slot' \<and> served_from E k now (Returned answer)"
proof (cases result)
  case (Inl err)
  show ?thesis
  proof (cases "sl_entry slot")
    case (Some e)
    then have "from_refresh E k e" using assms(1) by (simp add: slot_from_def)
    then show ?thesis
      using assms(2) Some Inl served_entry [of E k e now]
      by (auto simp: slot_record_def slot_from_def served_from_def Let_def split: if_splits)
  qed (use assms(2) Inl in \<open>auto simp: slot_record_def slot_from_def served_from_def\<close>)
next
  case (Inr x)
  then show ?thesis
    using assms(2,3) by (cases x) (fastforce simp: slot_record_def slot_from_def served_from_def from_refresh_def)
qed

lemma slot_of_update [simp]:
  "slot_of (rs\<lparr>rs_slots := (rs_slots rs)(k \<mapsto> slot)\<rparr>) l = (if l = k then slot else slot_of rs l)"
  "slot_of (rs\<lparr>rs_refreshing := r\<rparr>) l = slot_of rs l"
  by (simp_all add: slot_of_def)

lemma plan_key_from:
  assumes "slots_from E rs" "plan_key rs k now = (p, rs')"
  shows "slots_from E rs' \<and> served_from E k now (plan_progress p)
     \<and> (\<forall>l. sl_failure (slot_of rs' l) = sl_failure (slot_of rs l))"
proof -
  obtain slot where slot: "slot_plan (slot_of rs k) now = (p, slot)"
    "rs' = rs\<lparr>rs_slots := (rs_slots rs)(k \<mapsto> slot)\<rparr>"
    using assms(2) by (auto simp: plan_key_def split: prod.splits)
  have "slot_from E k (slot_of rs k)" using assms(1) unfolding slots_from_def by blast
  from slot_plan_from [OF this slot(1)] assms(1) slot(2) show ?thesis
    by (auto simp: slots_from_def)
qed

text \<open>Invalidation shortens the lifetime of the entries of one host.\<close>

definition cut_slot :: "slot \<Rightarrow> nat \<Rightarrow> slot" where
  "cut_slot slot now =
     slot\<lparr>sl_entry := map_option (\<lambda>e. e\<lparr>he_expires := min (he_expires e) now\<rparr>) (sl_entry slot)\<rparr>"

lemma slot_of_invalidate:
  "slot_of (invalidate rs host now) k =
     (if fst k = to_ascii_lowercase host then cut_slot (slot_of rs k) now else slot_of rs k)"
  by (auto simp: slot_of_def invalidate_def cut_slot_def slot_default_def split: option.split)

lemma slot_from_cut: "slot_from E k slot \<Longrightarrow> slot_from E k (cut_slot slot now)"
  by (fastforce simp: slot_from_def cut_slot_def from_refresh_def min_le_iff_disj)

lemma resolver_step_from:
  assumes "slots_from E rs" "e \<in> E" "resolver_step e rs = (out, rs')"
  shows "slots_from E rs' \<and> (\<forall>(k, now, p) \<in> set out. served_from E k now p)"
proof (cases e)
  case (Call host stack now)
  let ?k = "(to_ascii_lowercase host, stack)"
  obtain p rs1 where p: "plan_key rs ?k now = (p, rs1)" by fastforce
  from plan_key_from [OF assms(1) p] assms(3) Call p show ?thesis
    by (auto simp: resolve_call_def plan_progress_def slots_from_def Let_def
        split: plan.splits option.splits if_splits)
next
  case (Woken k now)
  obtain p rs1 where p: "plan_key rs k now = (p, rs1)" by fastforce
  from plan_key_from [OF assms(1) p] assms(1,3) Woken p show ?thesis
    by (auto simp: resolve_woken_def plan_progress_def slots_from_def split: plan.splits if_splits)
next
  case (Done k result now)
  obtain answer slot where r: "slot_record (slot_of rs k) result now = (answer, slot)" by fastforce
  have "slot_from E k (slot_of rs k)" using assms(1) unfolding slots_from_def by blast
  from slot_record_from [OF this r] assms Done r show ?thesis
    by (auto simp: refresh_done_def slots_from_def slot_of_def split: if_splits)
next
  case (Invalidate host now)
  with assms show ?thesis
    by (auto simp: slots_from_def slot_of_invalidate slot_from_cut)
qed

lemma resolver_run_from:
  assumes "slots_from E rs" "set events \<subseteq> E" "resolver_run events rs = (out, rs')"
  shows "slots_from E rs' \<and> (\<forall>(k, now, p) \<in> set out. served_from E k now p)"
  using assms
proof (induction events arbitrary: rs out rs')
  case (Cons e es)
  obtain out1 rs1 where s: "resolver_step e rs = (out1, rs1)" by fastforce
  obtain out2 rs2 where r: "resolver_run es rs1 = (out2, rs2)" by fastforce
  from resolver_step_from [OF Cons.prems(1) _ s] Cons.prems(2)
  have "slots_from E rs1" "\<forall>(k, now, p) \<in> set out1. served_from E k now p" by auto
  moreover from Cons.IH [OF this(1) _ r] Cons.prems(2)
  have "slots_from E rs2" "\<forall>(k, now, p) \<in> set out2. served_from E k now p" by auto
  ultimately show ?case using Cons.prems(3) s r by auto
qed simp

section \<open>The retry pause\<close>

text \<open>Only the end of its own refresh changes the recorded failure of a key.\<close>

lemma plan_key_failure:
  "plan_key rs k now = (p, rs') \<Longrightarrow> sl_failure (slot_of rs' l) = sl_failure (slot_of rs l)"
  by (auto simp: plan_key_def slot_plan_def drop_unservable_def Let_def
      split: prod.splits option.splits if_splits)

lemma resolver_step_failure:
  assumes "resolver_step e rs = (out, rs')" "\<forall>result t. e \<noteq> Done k result t"
  shows "sl_failure (slot_of rs' k) = sl_failure (slot_of rs k)"
proof (cases e)
  case (Call host stack now)
  then show ?thesis using assms(1)
    by (auto simp: resolve_call_def Let_def dest: plan_key_failure
        split: prod.splits plan.splits option.splits if_splits)
next
  case (Woken l now)
  then show ?thesis using assms(1)
    by (auto simp: resolve_woken_def dest: plan_key_failure split: prod.splits plan.splits if_splits)
next
  case (Done l result now)
  then show ?thesis using assms
    by (auto simp: refresh_done_def slot_of_def split: prod.splits if_splits)
next
  case (Invalidate host now)
  then show ?thesis using assms(1) by (auto simp: slot_of_invalidate cut_slot_def)
qed

lemma resolver_run_failure:
  assumes "resolver_run events rs = (out, rs')" "\<forall>e \<in> set events. \<forall>result t. e \<noteq> Done k result t"
  shows "sl_failure (slot_of rs' k) = sl_failure (slot_of rs k)"
  using assms
proof (induction events arbitrary: rs out rs')
  case (Cons e es)
  obtain out1 rs1 where s: "resolver_step e rs = (out1, rs1)" by fastforce
  obtain out2 rs2 where r: "resolver_run es rs1 = (out2, rs2)" by fastforce
  have "sl_failure (slot_of rs1 k) = sl_failure (slot_of rs k)"
    using resolver_step_failure [OF s] Cons.prems(2) by simp
  moreover have "sl_failure (slot_of rs2 k) = sl_failure (slot_of rs1 k)"
    using Cons.IH [OF r] Cons.prems(2) by simp
  ultimately show ?case using Cons.prems(1) s r by simp
qed simp

lemma slot_plan_paused:
  assumes "sl_failure slot = Some f" "now < fl_retry_at f"
  shows "\<exists>r slot'. slot_plan slot now = (Answer r, slot')"
  using assms
  by (auto simp: slot_plan_def drop_unservable_def Let_def split: option.split)

lemma slot_record_failure:
  "slot_record slot (Inl err) now = (answer, slot') \<Longrightarrow>
     sl_failure slot' = Some \<lparr>fl_err = err, fl_retry_at = now + RETRY_AFTER_FAILURE\<rparr>"
  by (auto simp: slot_record_def Let_def split: option.splits if_splits)

section \<open>One lookup\<close>

lemma merge_answers_ips:
  "merge_answers rs (ips, t, e) = (ips', t', e') \<Longrightarrow>
     ips' = ips @ concat (map (\<lambda>r. case r of Inr (got, _) \<Rightarrow> got | Inl _ \<Rightarrow> []) rs) \<and> t' \<le> t"
  by (induction rs "(ips, t, e)" arbitrary: ips t e rule: merge_answers.induct) fastforce+

text \<open>The addresses one server's answers carry.\<close>

definition server_ips ::
  "(socket_addr \<Rightarrow> record_type \<Rightarrow> server_answer) \<Rightarrow> ip_stack \<Rightarrow> socket_addr \<Rightarrow> ip_addr list" where
  "server_ips ask stack server =
     concat (map (\<lambda>rt. case ask server rt of Inr (got, _) \<Rightarrow> got | Inl _ \<Rightarrow> [])
       ((if stack \<noteq> OnlyV6 then [A] else []) @ (if stack \<noteq> OnlyV4 then [AAAA] else [])))"

lemma lookup_loop_first:
  "(case lookup_loop host ask (stack \<noteq> OnlyV6) (stack \<noteq> OnlyV4) servers e of
      Inl _ \<Rightarrow> (\<forall>server \<in> set servers. server_ips ask stack server = [])
    | Inr (ips, ttl) \<Rightarrow>
        (\<exists>before server after. servers = before @ server # after
           \<and> (\<forall>s \<in> set before. server_ips ask stack s = []) \<and> server_ips ask stack server \<noteq> []
           \<and> ips = remdups_adj (sort_key ip_is_ipv6 (server_ips ask stack server)))
        \<and> MIN_TTL_SECS \<le> ttl \<and> ttl \<le> MAX_TTL_SECS)"
proof (induction servers arbitrary: e)
  case (Cons server servers)
  let ?answers = "List.map_filter id [query_if (stack \<noteq> OnlyV6) (ask server A),
                                      query_if (stack \<noteq> OnlyV4) (ask server AAAA)]"
  obtain ips t e' where m: "merge_answers ?answers ([], MAX_TTL_SECS, e) = (ips, t, e')"
    by (cases "merge_answers ?answers ([], MAX_TTL_SECS, e)")
  have ips: "ips = server_ips ask stack server"
    using merge_answers_ips [OF m] by (cases stack) (simp_all add: server_ips_def query_if_def List.map_filter_def)
  show ?case
  proof (cases "ips = []")
    case True
    have step: "lookup_loop host ask (stack \<noteq> OnlyV6) (stack \<noteq> OnlyV4) (server # servers) e
        = lookup_loop host ask (stack \<noteq> OnlyV6) (stack \<noteq> OnlyV4) servers e'"
      using True m by simp
    show ?thesis using Cons.IH [of e'] True ips unfolding step
      by (auto split: sum.splits) (metis append_Cons set_ConsD)
  next
    case False
    with m ips clamp_bounds [of MIN_TTL_SECS MAX_TTL_SECS t] show ?thesis
      by (auto intro!: exI [of _ "[]"])
  qed
qed simp

lemma sort_key_filter_split:
  fixes f :: "'a \<Rightarrow> bool"
  shows "sort_key f xs = filter (\<lambda>x. \<not> f x) xs @ filter f xs"
proof (induction xs)
  case (Cons x xs)
  have "insort_key f x (filter (\<lambda>x. \<not> f x) ys @ filter f ys) =
      (if f x then filter (\<lambda>x. \<not> f x) ys @ x # filter f ys
       else x # filter (\<lambda>x. \<not> f x) ys @ filter f ys)" for ys
  proof (cases "f x")
    case True
    have low: "insort_key f x (as @ bs) = as @ insort_key f x bs" if "\<forall>a \<in> set as. \<not> f a" for as bs
      using that True by (induction as) auto
    have "insort_key f x (filter f ys) = x # filter f ys"
      by (cases "filter f ys") (use True in \<open>auto dest: filter_eq_ConsD\<close>)
    then show ?thesis using True low [of "filter (\<lambda>x. \<not> f x) ys"] by simp
  next
    case False
    then show ?thesis by (cases "filter (\<lambda>x. \<not> f x) ys @ filter f ys") auto
  qed
  with Cons show ?case by simp
qed simp

section \<open>Properties\<close>

text \<open>C31: The resolver never serves addresses that are too old: in every history of calls, woken
  waiters, finished refreshes and invalidations, the addresses returned for a key were fetched by a
  successful refresh of that key and are at most a day past the expiry their TTL gave them.\<close>

theorem resolver_staleness_bounded:
  assumes "resolver_run events (with_servers servers) = (out, rs)" "(k, now, Returned (Inr ips)) \<in> set out"
  shows "\<exists>t ttl. Done k (Inr (ips, ttl)) t \<in> set events \<and> now \<le> t + ttl * second + MAX_STALE"
proof -
  have "slots_from (set events) (with_servers servers)"
    by (simp add: slots_from_def slot_from_def slot_of_def with_servers_def slot_default_def)
  from resolver_run_from [OF this subset_refl assms(1)] assms(2) show ?thesis
    by (fastforce simp: served_from_def)
qed

definition sample_history :: "resolver_event list" where
  "sample_history = [Call ''Dns'' Both 0, Done (''dns'', Both) (Inr ([V4 (IP4 9 9 9 9)], 60)) 0,
     Invalidate ''dns'' 5, Call ''dns'' Both second,
     Done (''dns'', Both) (Inl (BootstrapFailed ''dns'' NoServers)) (2 * second),
     Call ''dns'' Both (3 * second)]"

lemma sample_history_run:
  "fst (resolver_run sample_history bootstrap_new) =
     [((''dns'', Both), 0, Refreshing), ((''dns'', Both), 0, Returned (Inr [V4 (IP4 9 9 9 9)])),
      ((''dns'', Both), second, Refreshing),
      ((''dns'', Both), 2 * second, Returned (Inr [V4 (IP4 9 9 9 9)])),
      ((''dns'', Both), 3 * second, Returned (Inr [V4 (IP4 9 9 9 9)]))]"
  by code_simp

lemma resolver_staleness_bounded_witness:
  "\<exists>t ttl. Done (''dns'', Both) (Inr ([V4 (IP4 9 9 9 9)], ttl)) t \<in> set sample_history"
proof -
  obtain out rs where r: "resolver_run sample_history bootstrap_new = (out, rs)" by fastforce
  then have "((''dns'', Both), 3 * second, Returned (Inr [V4 (IP4 9 9 9 9)])) \<in> set out"
    using sample_history_run by simp
  from resolver_staleness_bounded [OF r [unfolded bootstrap_new_def] this] show ?thesis by blast
qed

text \<open>A failed refresh pauses its key: after it, and whatever happens short of another refresh of
  the key ending, every call for the key in the next thirty seconds is answered at once, without
  starting or awaiting a lookup.\<close>

lemma failed_refresh_pauses:
  assumes "refresh_done rs k (Inl err) t = (p, rs1)"
    and "\<forall>e \<in> set events. \<forall>result t'. e \<noteq> Done k result t'"
    and "resolver_run events rs1 = (out, rs2)"
    and "k = (to_ascii_lowercase host, stack)" "now < t + RETRY_AFTER_FAILURE"
  shows "\<exists>answer. fst (resolve_call rs2 host stack now) = Returned answer"
proof -
  obtain answer slot where r: "slot_record (slot_of rs k) (Inl err) t = (answer, slot)" by fastforce
  have "slot_of rs1 k = slot" using assms(1) r by (auto simp: refresh_done_def slot_of_def)
  then have "sl_failure (slot_of rs2 k) = Some \<lparr>fl_err = err, fl_retry_at = t + RETRY_AFTER_FAILURE\<rparr>"
    using resolver_run_failure [OF assms(3,2)] slot_record_failure [OF r] by simp
  from slot_plan_paused [OF this, of now] assms(5) obtain a slot' where
    "slot_plan (slot_of rs2 k) now = (Answer a, slot')" by auto
  then show ?thesis by (simp add: resolve_call_def plan_key_def assms(4))
qed

text \<open>C32: A lookup asks the servers of the preferred family first, keeping their order, and returns
  the addresses of the first server that has any, IPv4 before IPv6 and without adjacent repeats,
  with a TTL between a minute and a day; it fails only if no server has an address.\<close>

theorem lookup_first_server:
  assumes "cd_name codec host = Inr name"
  shows "(case lookup codec ask servers host stack of
      Inl _ \<Rightarrow> (\<forall>server \<in> set servers. server_ips (ask name) stack server = [])
    | Inr (ips, ttl) \<Rightarrow>
        (\<exists>before server after.
           filter (\<lambda>s. \<not> server_rank stack s) servers @ filter (server_rank stack) servers
             = before @ server # after
           \<and> (\<forall>s \<in> set before. server_ips (ask name) stack s = [])
           \<and> server_ips (ask name) stack server \<noteq> []
           \<and> ips = remdups_adj (filter (\<lambda>ip. \<not> ip_is_ipv6 ip) (server_ips (ask name) stack server)
                                @ filter ip_is_ipv6 (server_ips (ask name) stack server)))
        \<and> 60 \<le> ttl \<and> ttl \<le> 86400)"
  using lookup_loop_first [where host = host and ask = "ask name" and stack = stack
      and servers = "ordered_servers servers stack" and e = NoServers]
  by (auto simp: lookup_def assms ordered_servers_def sort_key_filter_split split: sum.splits)

lemma lookup_first_server_witness:
  "server_ips (\<lambda>_ _. Inr ([V4 (IP4 9 9 9 9)], 5)) OnlyV4 (sock_new (V4 (IP4 1 1 1 1)) 53) \<noteq> []"
proof -
  let ?codec = "\<lparr>cd_name = (\<lambda>s. Inr s), cd_encode = (\<lambda>_ _ _. Inr []), cd_answers = (\<lambda>_. Inr [])\<rparr>"
  let ?ask = "\<lambda>_ _ _. Inr ([V4 (IP4 9 9 9 9)], 5)"
  let ?servers = "[sock_new (V4 (IP4 1 1 1 1)) 53]"
  have "lookup ?codec ?ask ?servers ''dns'' OnlyV4 = Inr ([V4 (IP4 9 9 9 9)], 60)" by code_simp
  with lookup_first_server [where codec = ?codec and host = "''dns''" and name = "''dns''"
      and ask = ?ask and servers = ?servers and stack = OnlyV4]
  show ?thesis by (auto simp: Cons_eq_append_conv)
qed

end
