(* ===== verification/Channel.thy ===== *)
theory Channel
  imports Manager Bootstrap
begin

text \<open>
  Encrypted upstream channels, \<open>src/src/upstream/encrypted.rs\<close>: the slot with one connection and
  its generation, acquiring a lease (sleep detection, cooldown, resolution, dialling), and the
  query loop with its single redial.  A connection is a value of a type parameter; the TLS,
  HTTP and QUIC handshakes of the library hickory and what a connection answers are arguments.
  Queries of one channel interleave wherever the code releases the slot's lock.
\<close>

section \<open>The slot\<close>

abbreviation CONNECT_TIMEOUT :: nat where "CONNECT_TIMEOUT \<equiv> 5 * second"
abbreviation MAX_BACKOFF_SHIFT :: u32 where "MAX_BACKOFF_SHIFT \<equiv> 5"
abbreviation MIN_REDIAL_BUDGET :: nat where "MIN_REDIAL_BUDGET \<equiv> 250000000"
abbreviation RENEW_AFTER_SLEEP :: nat where "RENEW_AFTER_SLEEP \<equiv> 5 * second"

record stamp =
  st_mono :: nat
  st_wall :: nat

definition slept_since :: "stamp \<Rightarrow> stamp \<Rightarrow> nat" where
  "slept_since now earlier = (st_wall now - st_wall earlier) - (st_mono now - st_mono earlier)"

record 'e conn_slot =
  cs_exchange :: "'e option"
  cs_generation :: "64 word"
  cs_failures :: u32
  cs_cooldown :: "nat option"
  cs_last_used :: "stamp option"

definition conn_slot_default :: "'e conn_slot" where
  "conn_slot_default = \<lparr>cs_exchange = None, cs_generation = 0, cs_failures = 0,
                        cs_cooldown = None, cs_last_used = None\<rparr>"

definition slot_lease :: "'e conn_slot \<Rightarrow> ('e \<times> 64 word) option" where
  "slot_lease s = map_option (\<lambda>e. (e, cs_generation s)) (cs_exchange s)"

definition slot_store :: "'e conn_slot \<Rightarrow> 'e \<Rightarrow> stamp \<Rightarrow> 64 word \<times> 'e conn_slot" where
  "slot_store s conn now =
     (cs_generation s + 1,
      \<lparr>cs_exchange = Some conn, cs_generation = cs_generation s + 1, cs_failures = 0,
       cs_cooldown = None, cs_last_used = Some now\<rparr>)"

definition drop_if_slept :: "'e conn_slot \<Rightarrow> stamp \<Rightarrow> nat option \<times> 'e conn_slot" where
  "drop_if_slept s now =
     (let s' = s\<lparr>cs_last_used := Some now\<rparr> in
      case cs_last_used s of
        None \<Rightarrow> (None, s')
      | Some earlier \<Rightarrow>
          let slept = slept_since now earlier in
          if slept > RENEW_AFTER_SLEEP
          then (if cs_exchange s = None then None else Some slept, s'\<lparr>cs_exchange := None\<rparr>)
          else (None, s'))"

definition slot_invalidate :: "'e conn_slot \<Rightarrow> 64 word \<Rightarrow> bool \<times> 'e conn_slot" where
  "slot_invalidate s generation =
     (if cs_generation s = generation \<and> cs_exchange s \<noteq> None
      then (True, s\<lparr>cs_exchange := None\<rparr>) else (False, s))"

definition saturating_inc :: "u32 \<Rightarrow> u32" where
  "saturating_inc n = (if n = - 1 then n else n + 1)"

definition slot_backoff :: "'e conn_slot \<Rightarrow> nat \<Rightarrow> nat \<times> 'e conn_slot" where
  "slot_backoff s now =
     (let failures = saturating_inc (cs_failures s);
          pause = 2 ^ unat (min failures MAX_BACKOFF_SHIFT) * second
      in (pause, s\<lparr>cs_failures := failures, cs_cooldown := Some (now + pause)\<rparr>))"

section \<open>Dialling\<close>

text \<open>What is asked of the library for each protocol.\<close>

datatype transport = Tls string | Https string string | Quic string | H3 string string

datatype dial_error = ConnectTimeout | NetFailed string | NoCandidates | OwnListener socket_addr

datatype channel_error =
  DeadlineExpired
| SendFailed string
| RedialFailed string channel_error
| InCooldown nat
| BootstrapBackoff boot_error
| ConnectFailed dial_error nat

text \<open>
  \<open>ce_handshake\<close> gives the outcome of a connection attempt and its duration, \<open>ce_stamp\<close> the clock
  readings at the start, \<open>ce_now\<close> those when an address is dialled and \<open>ce_end\<close> at the end.
\<close>

record 'e connect_env =
  ce_stamp :: stamp
  ce_clock :: nat
  ce_resolved :: "boot_error + ip_addr list"
  ce_server_name :: "string \<Rightarrow> string option"
  ce_handshake :: "transport \<Rightarrow> socket_addr \<Rightarrow> (string + 'e) option \<times> nat"
  ce_now :: "socket_addr \<Rightarrow> nat"
  ce_end :: stamp

definition connect_limit :: "nat option \<Rightarrow> nat \<Rightarrow> nat" where
  "connect_limit deadline now =
     (case deadline of Some at \<Rightarrow> min CONNECT_TIMEOUT (at - now) | None \<Rightarrow> CONNECT_TIMEOUT)"

definition finish :: "(string + 'e) option \<times> nat \<Rightarrow> nat option \<Rightarrow> nat \<Rightarrow> dial_error + 'e" where
  "finish outcome deadline now =
     (case within (connect_limit deadline now) (fst outcome) (snd outcome) of
        None \<Rightarrow> Inl ConnectTimeout
      | Some (Inl e) \<Rightarrow> Inl (NetFailed e)
      | Some (Inr conn) \<Rightarrow> Inr conn)"

definition connect ::
  "'e connect_env \<Rightarrow> upstream \<Rightarrow> socket_addr \<Rightarrow> nat option \<Rightarrow> (dial_error + 'e) run"
where
  "connect env up addr deadline =
     (let go = (\<lambda>t. Ret (finish (ce_handshake env t addr) deadline (ce_now env addr))) in
      case up_proto up of
        Dot \<Rightarrow> (case ce_server_name env (up_host up) of
                  Some e \<Rightarrow> Ret (Inl (NetFailed e))
                | None \<Rightarrow> go (Tls (up_host up)))
      | Doh \<Rightarrow> go (Https (up_host up) (up_path up))
      | Doq \<Rightarrow> go (Quic (up_host up))
      | Doh3 \<Rightarrow> go (H3 (up_host up) (up_path up))
      | Legacy \<Rightarrow> Panic)"

record channel =
  ch_up :: upstream
  ch_deny :: "socket_addr list"

record 'e lease =
  ls_exchange :: 'e
  ls_generation :: "64 word"
  ls_reused :: bool

fun dial_loop ::
  "channel \<Rightarrow> 'e connect_env \<Rightarrow> nat option \<Rightarrow> ip_addr list \<Rightarrow> dial_error \<Rightarrow> (dial_error + 'e) run"
where
  "dial_loop ch env deadline [] last_err = Ret (Inl last_err)"
| "dial_loop ch env deadline (ip # ips) last_err =
     (let addr = sock_new ip (up_port (ch_up ch)) in
      if is_self_address addr (ch_deny ch) then dial_loop ch env deadline ips (OwnListener addr)
      else run_bind (connect env (ch_up ch) addr deadline) (\<lambda>outcome.
        case outcome of
          Inr conn \<Rightarrow> Ret (Inr conn)
        | Inl e \<Rightarrow> dial_loop ch env deadline ips e))"

text \<open>Resolution, dialling and storing the new connection, or backing off.\<close>

definition dial ::
  "channel \<Rightarrow> 'e connect_env \<Rightarrow> nat option \<Rightarrow> ip_addr list \<Rightarrow> 'e conn_slot
     \<Rightarrow> ((channel_error + 'e lease) \<times> 'e conn_slot) run"
where
  "dial ch env deadline ips s =
     run_bind (dial_loop ch env deadline ips NoCandidates) (\<lambda>outcome.
       case outcome of
         Inr conn \<Rightarrow>
           (case slot_store s conn (ce_end env) of
              (g, s) \<Rightarrow> Ret (Inr \<lparr>ls_exchange = conn, ls_generation = g, ls_reused = False\<rparr>, s))
       | Inl e \<Rightarrow>
           (case slot_backoff s (st_mono (ce_end env)) of
              (pause, s) \<Rightarrow> Ret (Inl (ConnectFailed e pause), s)))"

definition acquire_dial ::
  "channel \<Rightarrow> 'e connect_env \<Rightarrow> nat option \<Rightarrow> 'e conn_slot \<Rightarrow> nat
     \<Rightarrow> ((channel_error + 'e lease) \<times> 'e conn_slot \<times> nat) run"
where
  "acquire_dial ch env deadline s forgotten =
     (case up_bootstrap_ip (ch_up ch) of
        Some ip \<Rightarrow> run_bind (dial ch env deadline [ip] s) (\<lambda>(r, s). Ret (r, s, forgotten))
      | None \<Rightarrow>
          let forgotten = (if cs_failures s > 0 then forgotten + 1 else forgotten) in
          case ce_resolved env of
            Inl e \<Rightarrow> Ret (Inl (BootstrapBackoff e), snd (slot_backoff s (st_mono (ce_end env))), forgotten)
          | Inr ips \<Rightarrow> run_bind (dial ch env deadline ips s) (\<lambda>(r, s). Ret (r, s, forgotten)))"

text \<open>
  \<open>acquire\<close> runs under the slot's lock.  Its result also counts the invalidations it asks of the
  bootstrap resolver, before \<open>ce_resolved\<close> is what resolving returns.
\<close>

definition acquire ::
  "channel \<Rightarrow> 'e connect_env \<Rightarrow> nat option \<Rightarrow> 'e conn_slot
     \<Rightarrow> ((channel_error + 'e lease) \<times> 'e conn_slot \<times> nat) run"
where
  "acquire ch env deadline s =
     (case drop_if_slept s (ce_stamp env) of
        (slept, s) \<Rightarrow>
          let forgotten = (if slept \<noteq> None \<and> up_bootstrap_ip (ch_up ch) = None then 1 else 0) in
          case slot_lease s of
            Some (conn, g) \<Rightarrow>
              Ret (Inr \<lparr>ls_exchange = conn, ls_generation = g, ls_reused = True\<rparr>, s, forgotten)
          | None \<Rightarrow>
              (case cs_cooldown s of
                 Some until \<Rightarrow>
                   if ce_clock env < until then Ret (Inl (InCooldown (until - ce_clock env)), s, forgotten)
                   else acquire_dial ch env deadline s forgotten
               | None \<Rightarrow> acquire_dial ch env deadline s forgotten))"

section \<open>Queries\<close>

definition budget_allows_redial :: "nat option \<Rightarrow> nat \<Rightarrow> bool" where
  "budget_allows_redial deadline now =
     (case deadline of None \<Rightarrow> True | Some d \<Rightarrow> d - now > MIN_REDIAL_BUDGET)"

datatype send_failure = DeadlineFailure | TransportFailure string

text \<open>The answer of a connection with the time it completes, \<open>None\<close> if it never does.\<close>

definition send_result :: "(string + bytes) option \<times> nat \<Rightarrow> nat option \<Rightarrow> (send_failure + bytes) option" where
  "send_result answer deadline =
     (case deadline of
        Some at \<Rightarrow>
          (case within at (fst answer) (snd answer) of
             None \<Rightarrow> Some (Inl DeadlineFailure)
           | Some (Inl e) \<Rightarrow> Some (Inl (TransportFailure e))
           | Some (Inr buffer) \<Rightarrow> Some (Inr buffer))
      | None \<Rightarrow> map_option (map_sum TransportFailure id) (fst answer))"

text \<open>
  A query of the channel: acquiring (with the error that made it redial, the second time),
  awaiting the answer of its lease, or finished.  \<open>qt_sends\<close> counts the requests it has sent.
\<close>

datatype 'e query_state =
  Acquiring "string option"
| Sending "'e lease" bool
| Concluded "channel_error + bytes"

record 'e query_task =
  qt_deadline :: "nat option"
  qt_state :: "'e query_state"
  qt_sends :: nat

record 'e channel_state =
  cst_slot :: "'e conn_slot"
  cst_tasks :: "'e query_task list"
  cst_forgotten :: nat

datatype 'e channel_event =
  NewQuery "nat option"
| Acquire nat "'e connect_env"
| SendDone nat "(string + bytes) option \<times> nat" nat

definition channel_new :: "'e channel_state" where
  "channel_new = \<lparr>cst_slot = conn_slot_default, cst_tasks = [], cst_forgotten = 0\<rparr>"

definition set_task :: "nat \<Rightarrow> 'e query_task \<Rightarrow> 'e channel_state \<Rightarrow> 'e channel_state" where
  "set_task i t st = st\<lparr>cst_tasks := (cst_tasks st)[i := t]\<rparr>"

definition redial_error :: "string option \<Rightarrow> channel_error \<Rightarrow> channel_error" where
  "redial_error previous e = (case previous of None \<Rightarrow> e | Some err \<Rightarrow> RedialFailed err e)"

definition task_acquire ::
  "channel \<Rightarrow> nat \<Rightarrow> 'e connect_env \<Rightarrow> 'e channel_state \<Rightarrow> 'e channel_state run" where
  "task_acquire ch i env st =
     (case get (cst_tasks st) i of
        None \<Rightarrow> Ret st
      | Some t \<Rightarrow>
          (case qt_state t of
             Acquiring previous \<Rightarrow>
               run_bind (acquire ch env (qt_deadline t) (cst_slot st)) (\<lambda>(r, s, forgotten).
                 let st = st\<lparr>cst_slot := s, cst_forgotten := cst_forgotten st + forgotten\<rparr> in
                 (case r of
                    Inl e \<Rightarrow> Ret (set_task i (t\<lparr>qt_state := Concluded (Inl (redial_error previous e))\<rparr>) st)
                  | Inr lease \<Rightarrow>
                      Ret (set_task i (t\<lparr>qt_state := Sending lease (previous \<noteq> None),
                                         qt_sends := qt_sends t + 1\<rparr>) st)))
           | _ \<Rightarrow> Ret st))"

text \<open>The handling of a failed send, under the lock: the slot and what becomes of the query.\<close>

definition send_failed ::
  "'e lease \<Rightarrow> bool \<Rightarrow> nat option \<Rightarrow> send_failure \<Rightarrow> nat \<Rightarrow> 'e conn_slot \<Rightarrow> 'e query_state \<times> 'e conn_slot"
where
  "send_failed lease retried deadline failure now s =
     (case slot_invalidate s (ls_generation lease) of
        (invalidated, s) \<Rightarrow>
          let backed_off = (if invalidated then snd (slot_backoff s now) else s) in
          (case failure of
             DeadlineFailure \<Rightarrow> (Concluded (Inl DeadlineExpired), backed_off)
           | TransportFailure err \<Rightarrow>
               if ls_reused lease \<and> \<not> retried \<and> budget_allows_redial deadline now
               then (Acquiring (Some err), s)
               else (Concluded (Inl (SendFailed err)), backed_off)))"

definition task_sent ::
  "nat \<Rightarrow> (string + bytes) option \<times> nat \<Rightarrow> nat \<Rightarrow> 'e channel_state \<Rightarrow> 'e channel_state" where
  "task_sent i answer now st =
     (case get (cst_tasks st) i of
        None \<Rightarrow> st
      | Some t \<Rightarrow>
          (case qt_state t of
             Sending lease retried \<Rightarrow>
               (case send_result answer (qt_deadline t) of
                  None \<Rightarrow> st
                | Some (Inr buffer) \<Rightarrow> set_task i (t\<lparr>qt_state := Concluded (Inr buffer)\<rparr>) st
                | Some (Inl failure) \<Rightarrow>
                    (case send_failed lease retried (qt_deadline t) failure now (cst_slot st) of
                       (state, s) \<Rightarrow> set_task i (t\<lparr>qt_state := state\<rparr>) (st\<lparr>cst_slot := s\<rparr>)))
           | _ \<Rightarrow> st))"

fun channel_step :: "channel \<Rightarrow> 'e channel_event \<Rightarrow> 'e channel_state \<Rightarrow> 'e channel_state run" where
  "channel_step ch (NewQuery deadline) st =
     Ret (st\<lparr>cst_tasks := cst_tasks st @ [\<lparr>qt_deadline = deadline, qt_state = Acquiring None, qt_sends = 0\<rparr>]\<rparr>)"
| "channel_step ch (Acquire i env) st = task_acquire ch i env st"
| "channel_step ch (SendDone i answer now) st = Ret (task_sent i answer now st)"

definition channel_run :: "channel \<Rightarrow> 'e channel_event list \<Rightarrow> 'e channel_state run" where
  "channel_run ch events = fold_run (channel_step ch) events channel_new"

section \<open>No panic\<close>

lemma connect_returns:
  "up_proto up \<noteq> Legacy \<Longrightarrow> \<exists>r. connect env up addr deadline = Ret r"
  by (cases "up_proto up") (auto simp: connect_def Let_def split: option.split)

lemma dial_loop_returns:
  "up_proto (ch_up ch) \<noteq> Legacy \<Longrightarrow> \<exists>r. dial_loop ch env deadline ips e = Ret r"
proof (induction ips arbitrary: e)
  case (Cons ip ips)
  obtain r where "connect env (ch_up ch) (sock_new ip (up_port (ch_up ch))) deadline = Ret r"
    using connect_returns [OF Cons.prems] by blast
  with Cons show ?case by (cases r) (auto simp: Let_def)
qed simp

section \<open>What acquiring does\<close>

text \<open>The outcomes of dialling: a stored connection of the next generation, or a backoff.\<close>

lemma dial_cases:
  assumes "up_proto (ch_up ch) \<noteq> Legacy"
  obtains (up) conn where "dial_loop ch env deadline ips NoCandidates = Ret (Inr conn)"
      "dial ch env deadline ips s = Ret (Inr \<lparr>ls_exchange = conn, ls_generation = cs_generation s + 1,
          ls_reused = False\<rparr>, snd (slot_store s conn (ce_end env)))"
  | (down) e where "dial ch env deadline ips s = Ret
        (Inl (ConnectFailed e (fst (slot_backoff s (st_mono (ce_end env))))),
         snd (slot_backoff s (st_mono (ce_end env))))"
proof -
  obtain r where r: "dial_loop ch env deadline ips NoCandidates = Ret r"
    using dial_loop_returns [OF assms] by blast
  show thesis
  proof (cases r)
    case (Inl e)
    with r down [of e] show thesis by (auto simp: dial_def split: prod.split)
  next
    case (Inr conn)
    with r up [of conn] show thesis by (auto simp: dial_def slot_store_def)
  qed
qed

definition after_sleep :: "'e conn_slot \<Rightarrow> stamp \<Rightarrow> 'e conn_slot" where
  "after_sleep s now = snd (drop_if_slept s now)"

lemma after_sleep_simps [simp]:
  "cs_generation (after_sleep s now) = cs_generation s" "cs_failures (after_sleep s now) = cs_failures s"
  "cs_cooldown (after_sleep s now) = cs_cooldown s"
  by (simp_all add: after_sleep_def drop_if_slept_def Let_def split: option.split)

lemma after_sleep_keeps:
  "cs_exchange (after_sleep s now) = Some e \<Longrightarrow> cs_exchange s = Some e"
  by (auto simp: after_sleep_def drop_if_slept_def Let_def split: option.splits if_splits)

lemma acquire_dial_cases:
  assumes "up_proto (ch_up ch) \<noteq> Legacy"
  obtains (dialled) conn n where "acquire_dial ch env deadline s k = Ret (Inr \<lparr>ls_exchange = conn,
         ls_generation = cs_generation s + 1, ls_reused = False\<rparr>, snd (slot_store s conn (ce_end env)), n)" "k \<le> n"
  | (failed) e n where "acquire_dial ch env deadline s k
         = Ret (Inl e, snd (slot_backoff s (st_mono (ce_end env))), n)" "k \<le> n"
      "(\<exists>d. e = ConnectFailed d (fst (slot_backoff s (st_mono (ce_end env))))) \<or> (\<exists>b. e = BootstrapBackoff b)"
proof -
  have dialling: thesis if "acquire_dial ch env deadline s k
      = run_bind (dial ch env deadline ips s) (\<lambda>(r, s). Ret (r, s, n))" "k \<le> n" for ips n
    using that by (cases rule: dial_cases [OF assms, of env deadline ips s]) (auto intro: dialled failed)
  show thesis
  proof (cases "up_bootstrap_ip (ch_up ch)")
    case None
    let ?n = "if cs_failures s > 0 then k + 1 else k"
    show thesis
    proof (cases "ce_resolved env")
      case (Inl b)
      then show thesis using None by (intro failed [of "BootstrapBackoff b" ?n]) (simp_all add: acquire_dial_def)
    next
      case (Inr ips)
      then show thesis using None by (intro dialling [of ips ?n]) (simp_all add: acquire_dial_def)
    qed
  next
    case (Some ip)
    then show thesis by (intro dialling [of "[ip]" k]) (simp_all add: acquire_dial_def)
  qed
qed

definition forgets :: "channel \<Rightarrow> 'e conn_slot \<Rightarrow> stamp \<Rightarrow> nat" where
  "forgets ch s now = (if fst (drop_if_slept s now) \<noteq> None \<and> up_bootstrap_ip (ch_up ch) = None then 1 else 0)"

lemma acquire_cases:
  assumes "up_proto (ch_up ch) \<noteq> Legacy"
  obtains (reused) conn where "cs_exchange (after_sleep s (ce_stamp env)) = Some conn"
      "acquire ch env deadline s = Ret (Inr \<lparr>ls_exchange = conn, ls_generation = cs_generation s,
         ls_reused = True\<rparr>, after_sleep s (ce_stamp env), forgets ch s (ce_stamp env))"
  | (cooling) until where "cs_exchange (after_sleep s (ce_stamp env)) = None"
      "cs_cooldown s = Some until" "ce_clock env < until"
      "acquire ch env deadline s = Ret (Inl (InCooldown (until - ce_clock env)),
         after_sleep s (ce_stamp env), forgets ch s (ce_stamp env))"
  | (dialled) conn n where "cs_exchange (after_sleep s (ce_stamp env)) = None"
      "acquire ch env deadline s = Ret (Inr \<lparr>ls_exchange = conn, ls_generation = cs_generation s + 1,
         ls_reused = False\<rparr>, snd (slot_store (after_sleep s (ce_stamp env)) conn (ce_end env)), n)"
      "forgets ch s (ce_stamp env) \<le> n"
  | (failed) e n where "cs_exchange (after_sleep s (ce_stamp env)) = None"
      "(\<exists>d. e = ConnectFailed d (fst (slot_backoff (after_sleep s (ce_stamp env)) (st_mono (ce_end env)))))
         \<or> (\<exists>b. e = BootstrapBackoff b)"
      "acquire ch env deadline s
         = Ret (Inl e, snd (slot_backoff (after_sleep s (ce_stamp env)) (st_mono (ce_end env))), n)"
      "forgets ch s (ce_stamp env) \<le> n"
proof -
  let ?S = "after_sleep s (ce_stamp env)" and ?k = "forgets ch s (ce_stamp env)"
  obtain slept where d: "drop_if_slept s (ce_stamp env) = (slept, ?S)"
    by (cases "drop_if_slept s (ce_stamp env)") (simp add: after_sleep_def)
  then have k: "(if slept \<noteq> None \<and> up_bootstrap_ip (ch_up ch) = None then 1 else 0) = ?k"
    by (simp add: forgets_def)
  have dialling: thesis if none: "cs_exchange ?S = None"
      and eq: "acquire ch env deadline s = acquire_dial ch env deadline ?S ?k"
    by (cases rule: acquire_dial_cases [OF assms, of env deadline ?S ?k])
       (use none in \<open>auto simp: eq intro: dialled failed\<close>)
  show thesis
  proof (cases "cs_exchange ?S")
    case (Some conn)
    then have "acquire ch env deadline s = Ret (Inr \<lparr>ls_exchange = conn,
        ls_generation = cs_generation s, ls_reused = True\<rparr>, ?S, ?k)"
      unfolding acquire_def d prod.case Let_def k by (simp add: slot_lease_def)
    with Some show thesis by (rule reused)
  next
    case None
    then have acq: "acquire ch env deadline s = (case cs_cooldown s of
        Some until \<Rightarrow> if ce_clock env < until then Ret (Inl (InCooldown (until - ce_clock env)), ?S, ?k)
                      else acquire_dial ch env deadline ?S ?k
      | None \<Rightarrow> acquire_dial ch env deadline ?S ?k)"
      unfolding acquire_def d prod.case Let_def k by (simp add: slot_lease_def)
    show thesis
    proof (cases "\<exists>until. cs_cooldown s = Some until \<and> ce_clock env < until")
      case True
      then show thesis using None acq by (auto intro: cooling)
    next
      case False
      then show thesis using None acq by (intro dialling) (auto split: option.split)
    qed
  qed
qed

section \<open>Generations name connections\<close>

text \<open>
  The connections a history has stored, in order: generation \<open>k\<close> is the \<open>k\<close>-th of them, a lease
  holds the connection its generation names, and no query sends more than twice.
\<close>

definition lease_of :: "'e list \<Rightarrow> 'e lease \<Rightarrow> bool" where
  "lease_of conns l \<longleftrightarrow> (\<exists>k < length conns. ls_generation l = word_of_nat (k + 1) \<and> ls_exchange l = conns ! k)"

definition query_ok :: "'e list \<Rightarrow> 'e query_task \<Rightarrow> bool" where
  "query_ok conns t \<longleftrightarrow>
     (case qt_state t of
        Acquiring None \<Rightarrow> qt_sends t = 0
      | Acquiring (Some _) \<Rightarrow> qt_sends t = 1
      | Sending l retried \<Rightarrow> lease_of conns l \<and> qt_sends t = (if retried then 2 else 1)
      | Concluded _ \<Rightarrow> qt_sends t \<le> 2)"

definition channel_inv :: "'e list \<Rightarrow> 'e channel_state \<Rightarrow> bool" where
  "channel_inv conns st \<longleftrightarrow>
     cs_generation (cst_slot st) = word_of_nat (length conns)
     \<and> (\<forall>e. cs_exchange (cst_slot st) = Some e \<longrightarrow> conns \<noteq> [] \<and> last conns = e)
     \<and> (\<forall>t \<in> set (cst_tasks st). query_ok conns t)"

lemma lease_of_snoc: "lease_of conns l \<Longrightarrow> lease_of (conns @ [e]) l"
  by (auto simp: lease_of_def nth_append intro: less_SucI)

lemma lease_of_last: "conns \<noteq> [] \<Longrightarrow> ls_generation l = word_of_nat (length conns) \<Longrightarrow>
    ls_exchange l = last conns \<Longrightarrow> lease_of conns l"
  unfolding lease_of_def
  by (intro exI [of _ "length conns - 1"]) (simp add: last_conv_nth)

lemma query_ok_snoc: "query_ok conns t \<Longrightarrow> query_ok (conns @ [e]) t"
  by (auto simp: query_ok_def lease_of_snoc split: query_state.splits option.splits)

lemma query_ok_sends: "query_ok conns t \<Longrightarrow> qt_sends t \<le> 2"
  by (auto simp: query_ok_def split: query_state.splits option.splits if_splits)

lemma slot_backoff_simps [simp]:
  "cs_exchange (snd (slot_backoff s now)) = cs_exchange s"
  "cs_generation (snd (slot_backoff s now)) = cs_generation s"
  by (simp_all add: slot_backoff_def Let_def)

lemma slot_store_simps [simp]:
  "cs_exchange (snd (slot_store s e now)) = Some e"
  "cs_generation (snd (slot_store s e now)) = cs_generation s + 1"
  by (simp_all add: slot_store_def)

lemma channel_inv_task:
  assumes "channel_inv conns st" "query_ok conns t"
  shows "channel_inv conns (set_task i t st)"
  using assms by (auto simp: channel_inv_def set_task_def dest!: set_update_subset_insert [THEN subsetD])

lemma channel_inv_slot:
  assumes "channel_inv conns st" "cs_generation s = cs_generation (cst_slot st)"
    and "\<And>e. cs_exchange s = Some e \<Longrightarrow> cs_exchange (cst_slot st) = Some e"
  shows "channel_inv conns (st\<lparr>cst_slot := s\<rparr>)"
    and "channel_inv conns (st\<lparr>cst_slot := s, cst_forgotten := n\<rparr>)"
  using assms by (simp_all add: channel_inv_def)

lemma channel_inv_store:
  assumes "channel_inv conns st"
  shows "channel_inv (conns @ [e])
     (st\<lparr>cst_slot := snd (slot_store (after_sleep (cst_slot st) now) e t), cst_forgotten := n\<rparr>)"
  using assms by (auto simp: channel_inv_def query_ok_snoc add.commute)

lemma task_acquire_inv:
  assumes inv: "channel_inv conns st" and proto: "up_proto (ch_up ch) \<noteq> Legacy"
  shows "\<exists>st' more. task_acquire ch i env st = Ret st' \<and> channel_inv (conns @ more) st' \<and> length more \<le> 1"
proof (cases "get (cst_tasks st) i")
  case (Some t)
  then have t: "query_ok conns t" using inv by (auto simp: channel_inv_def get_Some_iff)
  show ?thesis
  proof (cases "qt_state t")
    case (Acquiring previous)
    let ?s = "cst_slot st"
    have sends: "qt_sends t = (if previous = None then 0 else 1)"
      using t Acquiring by (auto simp: query_ok_def split: option.splits)
    have failing: ?thesis if "acquire ch env (qt_deadline t) ?s = Ret (Inl e, s', n)"
      "channel_inv conns (st\<lparr>cst_slot := s', cst_forgotten := cst_forgotten st + n\<rparr>)" for e s' n
      using that Some Acquiring channel_inv_task [OF that(2), of "t\<lparr>qt_state := Concluded (Inl (redial_error previous e))\<rparr>" i] sends
      by (intro exI [of _ "[]"] exI) (auto simp: task_acquire_def query_ok_def)
    have leasing: "\<exists>st'. task_acquire ch i env st = Ret st' \<and> channel_inv conns' st'"
      if "acquire ch env (qt_deadline t) ?s = Ret (Inr l, s', n)" "lease_of conns' l"
        "channel_inv conns' (st\<lparr>cst_slot := s', cst_forgotten := cst_forgotten st + n\<rparr>)" for l s' n conns'
      using that Some Acquiring sends
        channel_inv_task [OF that(3), of "t\<lparr>qt_state := Sending l (previous \<noteq> None), qt_sends := qt_sends t + 1\<rparr>" i]
      by (auto simp: task_acquire_def query_ok_def numeral_2_eq_2)
    show ?thesis
    proof (cases rule: acquire_cases [OF proto, of ?s env "qt_deadline t",
          case_names reused cooling dialled failed])
      case (reused conn)
      from after_sleep_keeps [OF reused(1)] inv have "conns \<noteq> [] \<and> last conns = conn"
        "cs_generation ?s = word_of_nat (length conns)" by (auto simp: channel_inv_def)
      then have "lease_of conns \<lparr>ls_exchange = conn, ls_generation = cs_generation ?s, ls_reused = True\<rparr>"
        by (intro lease_of_last) auto
      then have "\<exists>st'. task_acquire ch i env st = Ret st' \<and> channel_inv conns st'"
        by (rule leasing [OF reused(2) _ channel_inv_slot(2) [OF inv]])
           (simp, erule after_sleep_keeps)
      then obtain st' where "task_acquire ch i env st = Ret st'" "channel_inv conns st'" by blast
      then show ?thesis by (intro exI [of _ st'] exI [of _ "[]"]) simp
    next
      case (cooling until)
      show ?thesis by (rule failing [OF cooling(4) channel_inv_slot(2) [OF inv]]) (use cooling(1) in simp_all)
    next
      case (dialled conn n)
      have "lease_of (conns @ [conn]) \<lparr>ls_exchange = conn, ls_generation = cs_generation ?s + 1, ls_reused = False\<rparr>"
        using inv by (intro lease_of_last) (auto simp: channel_inv_def add.commute)
      from leasing [OF dialled(2) this channel_inv_store [OF inv]]
      obtain st' where "task_acquire ch i env st = Ret st'" "channel_inv (conns @ [conn]) st'" by blast
      then show ?thesis by (intro exI [of _ st'] exI [of _ "[conn]"]) simp
    next
      case (failed e n)
      show ?thesis by (rule failing [OF failed(3) channel_inv_slot(2) [OF inv]]) (use failed(1) in simp_all)
    qed
  qed (use inv Some in \<open>auto simp: task_acquire_def intro!: exI [of _ "[]"]\<close>)
qed (use inv in \<open>auto simp: task_acquire_def intro!: exI [of _ "[]"]\<close>)

lemma send_failed_slot:
  assumes "send_failed l retried deadline failure now s = (state, s')"
  shows "cs_generation s' = cs_generation s"
    and "cs_exchange s' = Some e \<Longrightarrow> cs_exchange s = Some e"
    and "cs_generation s \<noteq> ls_generation l \<Longrightarrow> s' = s"
    and "state = Acquiring p \<Longrightarrow> \<not> retried \<and> p \<noteq> None"
    and "\<exists>p. state = Acquiring p \<or> (\<exists>r. state = Concluded r)"
  using assms
  by (auto simp: send_failed_def slot_invalidate_def Let_def split: send_failure.splits if_splits)

lemma task_sent_inv:
  assumes inv: "channel_inv conns st"
  shows "channel_inv conns (task_sent i answer now st)"
proof (cases "get (cst_tasks st) i")
  case (Some t)
  then have t: "query_ok conns t" using inv by (auto simp: channel_inv_def get_Some_iff)
  show ?thesis
  proof (cases "qt_state t")
    case (Sending l retried)
    then have sends: "qt_sends t = (if retried then 2 else 1)" using t by (simp add: query_ok_def)
    show ?thesis
    proof (cases "\<exists>failure. send_result answer (qt_deadline t) = Some (Inl failure)")
      case True
      then obtain failure where f: "send_result answer (qt_deadline t) = Some (Inl failure)" by blast
      obtain state s where r: "send_failed l retried (qt_deadline t) failure now (cst_slot st) = (state, s)"
        by fastforce
      note S = send_failed_slot [OF r]
      have "query_ok conns (t\<lparr>qt_state := state\<rparr>)"
        using S(4,5) sends by (auto simp: query_ok_def split: query_state.splits option.splits)
      moreover have "channel_inv conns (st\<lparr>cst_slot := s\<rparr>)" using channel_inv_slot(1) [OF inv] S(1,2) by blast
      ultimately show ?thesis
        using Some Sending f r channel_inv_task by (simp add: task_sent_def)
    next
      case False
      have "channel_inv conns (set_task i (t\<lparr>qt_state := Concluded (Inr b)\<rparr>) st)" for b
        using sends inv by (intro channel_inv_task) (simp_all add: query_ok_def)
      then show ?thesis using False Some Sending inv
        by (auto simp: task_sent_def split: option.split sum.split)
    qed
  qed (use inv Some in \<open>auto simp: task_sent_def\<close>)
qed (use inv in \<open>auto simp: task_sent_def\<close>)

lemma channel_step_inv:
  assumes "channel_inv conns st" "up_proto (ch_up ch) \<noteq> Legacy"
  shows "\<exists>st' more. channel_step ch e st = Ret st' \<and> channel_inv (conns @ more) st' \<and> length more \<le> 1"
proof (cases e)
  case (NewQuery deadline)
  have "query_ok conns \<lparr>qt_deadline = deadline, qt_state = Acquiring None, qt_sends = 0\<rparr>"
    by (simp add: query_ok_def)
  with NewQuery assms show ?thesis by (auto simp: channel_inv_def intro!: exI [of _ "[]"])
next
  case (SendDone i answer now)
  with task_sent_inv [OF assms(1), of i answer now] show ?thesis by (auto intro!: exI [of _ "[]"])
qed (use task_acquire_inv [OF assms] in auto)

lemma channel_fold_inv:
  assumes "channel_inv conns st" "up_proto (ch_up ch) \<noteq> Legacy"
  shows "\<exists>st' more. fold_run (channel_step ch) events st = Ret st' \<and> channel_inv (conns @ more) st'
     \<and> length more \<le> length events"
  using assms(1)
proof (induction events arbitrary: conns st)
  case (Cons e es)
  from channel_step_inv [OF Cons.prems assms(2), of e] obtain st1 more where
    s: "channel_step ch e st = Ret st1" "channel_inv (conns @ more) st1" "length more \<le> 1" by blast
  from Cons.IH [OF s(2)] obtain st2 more2 where
    "fold_run (channel_step ch) es st1 = Ret st2" "channel_inv ((conns @ more) @ more2) st2"
    "length more2 \<le> length es" by blast
  with s show ?case by (intro exI [of _ st2] exI [of _ "more @ more2"]) simp
qed (auto intro!: exI [of _ "[]"])

lemma channel_run_inv:
  assumes "up_proto (ch_up ch) \<noteq> Legacy"
  shows "\<exists>st conns. channel_run ch events = Ret st \<and> channel_inv conns st \<and> length conns \<le> length events"
proof -
  have "channel_inv [] (channel_new :: 'e channel_state)"
    by (simp add: channel_inv_def channel_new_def conn_slot_default_def)
  from channel_fold_inv [OF this assms, of events] show ?thesis by (auto simp: channel_run_def)
qed

section \<open>Independence of listener addresses\<close>

lemma dial_loop_no_self:
  assumes "\<forall>t addr. \<not> is_self_address addr (ch_deny ch) \<longrightarrow> ce_handshake env' t addr = ce_handshake env t addr"
    and "env' = env\<lparr>ce_handshake := ce_handshake env'\<rparr>"
  shows "dial_loop ch env' deadline ips e = dial_loop ch env deadline ips e"
proof (induction ips arbitrary: e)
  case (Cons ip ips)
  let ?addr = "sock_new ip (up_port (ch_up ch))"
  have same: "ce_server_name env' = ce_server_name env" "ce_now env' = ce_now env"
    using arg_cong [OF assms(2), of ce_server_name] arg_cong [OF assms(2), of ce_now] by simp_all
  have "connect env' (ch_up ch) ?addr deadline = connect env (ch_up ch) ?addr deadline"
    if "\<not> is_self_address ?addr (ch_deny ch)"
    unfolding connect_def same using that assms(1) by simp
  with Cons.IH show ?case
    by (cases "connect env (ch_up ch) ?addr deadline") (auto simp: Let_def split: sum.split)
qed simp

section \<open>Properties\<close>

definition sample_channel :: channel where
  "sample_channel = \<lparr>ch_up = (sample_upstream ''dot'' (Some (V4 (IP4 9 9 9 9))))\<lparr>up_proto := Dot\<rparr>,
                     ch_deny = sample_listeners\<rparr>"

text \<open>An environment whose clock reads \<open>t\<close> and whose handshakes yield \<open>c\<close>, or fail without one.\<close>

definition sample_connect :: "nat \<Rightarrow> 'e option \<Rightarrow> 'e connect_env" where
  "sample_connect t c = \<lparr>ce_stamp = \<lparr>st_mono = t, st_wall = t\<rparr>, ce_clock = t,
     ce_resolved = Inr [], ce_server_name = (\<lambda>_. None),
     ce_handshake = (\<lambda>_ _. (Some (case c of Some e \<Rightarrow> Inr e | None \<Rightarrow> Inl ''refused''), 0)),
     ce_now = (\<lambda>_. t), ce_end = \<lparr>st_mono = t, st_wall = t\<rparr>\<rparr>"

text \<open>C27: Under every interleaving of the queries of an encrypted channel nothing panics, no query
  sends its request more than twice, and generations name connections: two queries in flight with
  the same generation hold the same connection, and a query whose generation is current holds the
  connection in the slot, as long as the history has fewer than \<open>2 ^ 64\<close> steps.\<close>

theorem channel_generations:
  assumes "up_proto (ch_up ch) \<noteq> Legacy" "length events < 2 ^ 64"
  shows "\<exists>st. channel_run ch events = Ret st \<and> (\<forall>t \<in> set (cst_tasks st). qt_sends t \<le> 2) \<and>
     (\<forall>t \<in> set (cst_tasks st). \<forall>l r. qt_state t = Sending l r \<longrightarrow>
        (\<forall>t' \<in> set (cst_tasks st). \<forall>l' r'. qt_state t' = Sending l' r' \<longrightarrow>
            ls_generation l' = ls_generation l \<longrightarrow> ls_exchange l' = ls_exchange l) \<and>
        (\<forall>e. cs_exchange (cst_slot st) = Some e \<longrightarrow>
            ls_generation l = cs_generation (cst_slot st) \<longrightarrow> ls_exchange l = e))"
proof -
  from channel_run_inv [OF assms(1), of events] obtain st conns where
    st: "channel_run ch events = Ret st" "channel_inv conns st" "length conns \<le> length events" by blast
  have inj: "k = j" if "(word_of_nat k :: 64 word) = word_of_nat j" "k \<le> length conns" "j \<le> length conns" for k j
    using that st(3) assms(2) by (simp add: word_of_nat_eq_iff take_bit_eq_mod)
  have lease: "lease_of conns l" if "t \<in> set (cst_tasks st)" "qt_state t = Sending l r" for t l r
    using that st(2) by (force simp: channel_inv_def query_ok_def)
  have same: "ls_exchange l' = ls_exchange l"
    if "lease_of conns l" "lease_of conns l'" "ls_generation l' = ls_generation l" for l l'
    using that inj by (fastforce simp: lease_of_def)
  have current: "ls_exchange l = e" if "lease_of conns l" "cs_exchange (cst_slot st) = Some e"
    "ls_generation l = cs_generation (cst_slot st)" for l e
  proof -
    have "conns \<noteq> []" "last conns = e" "cs_generation (cst_slot st) = word_of_nat (length conns)"
      using st(2) that(2) by (auto simp: channel_inv_def)
    with that lease_of_last [of conns "l\<lparr>ls_exchange := e\<rparr>"] same [of l "l\<lparr>ls_exchange := e\<rparr>"]
    show ?thesis by simp
  qed
  show ?thesis
  proof (intro exI conjI ballI allI impI)
    show "qt_sends t \<le> 2" if "t \<in> set (cst_tasks st)" for t
      using st(2) that query_ok_sends by (auto simp: channel_inv_def)
    fix t l r assume t: "t \<in> set (cst_tasks st)" "qt_state t = Sending l r"
    show "ls_exchange l' = ls_exchange l"
      if "t' \<in> set (cst_tasks st)" "qt_state t' = Sending l' r'" "ls_generation l' = ls_generation l" for t' l' r'
      by (rule same [OF lease [OF t] lease [OF that(1,2)] that(3)])
    show "ls_exchange l = e"
      if "cs_exchange (cst_slot st) = Some e" "ls_generation l = cs_generation (cst_slot st)" for e
      by (rule current [OF lease [OF t] that])
  qed (rule st(1))
qed

definition sample_channel_events :: "nat channel_event list" where
  "sample_channel_events = [NewQuery None, Acquire 0 (sample_connect 0 (Some 7)), NewQuery None,
     Acquire 1 (sample_connect 1 None)]"

lemma channel_generations_witness:
  "\<exists>st. channel_run sample_channel sample_channel_events = Ret st
     \<and> map qt_sends (cst_tasks st) = [1, 1]"
proof -
  have "up_proto (ch_up sample_channel) \<noteq> Legacy" by (simp add: sample_channel_def)
  moreover have "length sample_channel_events < 2 ^ 64" by (simp add: sample_channel_events_def)
  moreover have "run_bind (channel_run sample_channel sample_channel_events)
      (\<lambda>st. Ret (map qt_sends (cst_tasks st))) = Ret [1, 1]" by code_simp
  ultimately show ?thesis
    using channel_generations [of sample_channel sample_channel_events] by auto
qed

text \<open>A failure from a superseded connection never touches its successor: when the lease's
  generation is no longer current, a failed or expired send leaves the slot, its connection and its
  backoff state as they are.\<close>

lemma superseded_failure_harmless:
  assumes "get (cst_tasks st) i = Some t" "qt_state t = Sending l retried"
    and "ls_generation l \<noteq> cs_generation (cst_slot st)"
  shows "cst_slot (task_sent i answer now st) = cst_slot st"
proof (cases "\<exists>failure. send_result answer (qt_deadline t) = Some (Inl failure)")
  case True
  then obtain failure where f: "send_result answer (qt_deadline t) = Some (Inl failure)" by blast
  obtain state s where r: "send_failed l retried (qt_deadline t) failure now (cst_slot st) = (state, s)"
    by fastforce
  with send_failed_slot(3) [OF r] f assms show ?thesis by (simp add: task_sent_def set_task_def)
qed (use assms in \<open>auto simp: task_sent_def set_task_def split: option.split sum.split\<close>)

definition sample_superseded :: "nat channel_state" where
  "sample_superseded = \<lparr>cst_slot = \<lparr>cs_exchange = Some 8, cs_generation = 2, cs_failures = 0,
       cs_cooldown = None, cs_last_used = None\<rparr>,
     cst_tasks = [\<lparr>qt_deadline = None, qt_state = Sending \<lparr>ls_exchange = 7, ls_generation = 1,
                     ls_reused = True\<rparr> False, qt_sends = 1\<rparr>], cst_forgotten = 0\<rparr>"





text \<open>C30: An encrypted channel never dials one of our listeners: what an acquisition does is
  independent of every handshake with an address that denotes a listener.\<close>

theorem channel_never_dials_itself:
  assumes "\<forall>t addr. \<not> is_self_address addr (ch_deny ch) \<longrightarrow> ce_handshake env' t addr = ce_handshake env t addr"
    and "env' = env\<lparr>ce_handshake := ce_handshake env'\<rparr>"
  shows "acquire ch env' deadline s = acquire ch env deadline s"
proof -
  have same: "ce_stamp env' = ce_stamp env" "ce_clock env' = ce_clock env"
    "ce_resolved env' = ce_resolved env" "ce_end env' = ce_end env"
    using arg_cong [OF assms(2), of ce_stamp] arg_cong [OF assms(2), of ce_clock]
      arg_cong [OF assms(2), of ce_resolved] arg_cong [OF assms(2), of ce_end] by simp_all
  have dial: "dial ch env' deadline ips s = dial ch env deadline ips s" for ips s
    unfolding dial_def same dial_loop_no_self [OF assms] ..
  have acq: "acquire_dial ch env' deadline s k = acquire_dial ch env deadline s k" for s k
    unfolding acquire_dial_def same dial ..
  show ?thesis unfolding acquire_def same acq ..
qed

lemma channel_never_dials_itself_witness:
  "acquire (sample_channel\<lparr>ch_up := (sample_upstream ''dot'' (Some (V4 (IP4 127 0 0 1))))\<lparr>up_proto := Dot\<rparr>\<rparr>)
     ((sample_connect 0 (Some 7))\<lparr>ce_handshake := (\<lambda>_ _. (None, 0))\<rparr>) None (conn_slot_default :: nat conn_slot)
   = acquire (sample_channel\<lparr>ch_up := (sample_upstream ''dot'' (Some (V4 (IP4 127 0 0 1))))\<lparr>up_proto := Dot\<rparr>\<rparr>)
     ((sample_connect 0 (Some 7))\<lparr>ce_handshake :=
        (\<lambda>_ addr. if is_self_address addr sample_listeners then (Some (Inr 7), 0) else (None, 0))\<rparr>)
     None conn_slot_default"
  by (rule channel_never_dials_itself) (auto simp: sample_channel_def)

end
