(* ===== verification/Host.thy ===== *)
theory Host
  imports Text
begin

text \<open>
  What the control side of the program reaches outside itself: files, the cross-process lock
  and subprocesses.  The state of the machine is a type parameter, the operations on it are an
  argument (\<open>host\<close>), and code is a function of that state that returns a value or an error.
\<close>

section \<open>Code with errors on the state of the machine\<close>

datatype os_error =
  IoError string string
| LockError string string
| RunFailed string string
| CommandFailed string string
| NonUtf8 string
| Refused string
| OutOfFuel
| Unparsable string string
| Several "os_error list"
| Context string os_error

type_synonym ('o, 'a) io = "'o \<Rightarrow> (os_error + 'a) \<times> 'o"

definition io_return :: "'a \<Rightarrow> ('o, 'a) io" where
  "io_return x = (\<lambda>os. (Inr x, os))"

definition io_fail :: "os_error \<Rightarrow> ('o, 'a) io" where
  "io_fail e = (\<lambda>os. (Inl e, os))"

definition io_bind :: "('o, 'a) io \<Rightarrow> ('a \<Rightarrow> ('o, 'b) io) \<Rightarrow> ('o, 'b) io" where
  "io_bind m f = (\<lambda>os. case m os of (Inl e, os) \<Rightarrow> (Inl e, os) | (Inr x, os) \<Rightarrow> f x os)"

text \<open>The result of a call as a value, for code that inspects an error instead of passing it on.\<close>

definition io_try :: "('o, 'a) io \<Rightarrow> ('o, os_error + 'a) io" where
  "io_try m = (\<lambda>os. case m os of (r, os) \<Rightarrow> (Inr r, os))"

definition io_check :: "('o \<Rightarrow> 'a) \<Rightarrow> ('o, 'a) io" where
  "io_check f = (\<lambda>os. (Inr (f os), os))"

fun io_each :: "('a \<Rightarrow> ('o, 'b) io) \<Rightarrow> 'a list \<Rightarrow> ('o, 'b list) io" where
  "io_each f [] = io_return []"
| "io_each f (x # xs) = io_bind (f x) (\<lambda>y. io_bind (io_each f xs) (\<lambda>ys. io_return (y # ys)))"

lemmas io_defs = io_return_def io_fail_def io_try_def io_check_def

lemma io_bind_Inr: "io_bind m f os = (Inr y, os'') \<longleftrightarrow> (\<exists>x os'. m os = (Inr x, os') \<and> f x os' = (Inr y, os''))"
  by (auto simp: io_bind_def split: prod.splits sum.splits)

lemma io_bind_Inl:
  "io_bind m f os = (Inl e, os'') \<longleftrightarrow>
     m os = (Inl e, os'') \<or> (\<exists>x os'. m os = (Inr x, os') \<and> f x os' = (Inl e, os''))"
  by (auto simp: io_bind_def split: prod.splits sum.splits)

lemma io_bind_ok: "m os = (Inr x, os') \<Longrightarrow> io_bind m f os = f x os'"
  by (simp add: io_bind_def)

lemma io_bindE:
  assumes "io_bind m f os = (r, os')"
  obtains (error) e where "m os = (Inl e, os')" "r = Inl e"
  | (step) x os1 where "m os = (Inr x, os1)" "f x os1 = (r, os')"
  using assms by (auto simp: io_bind_def split: prod.splits sum.splits)

lemma io_bind_check: "io_bind (io_check g) f os = f (g os) os"
  by (simp add: io_bind_def io_check_def)

lemma io_bind_try: "io_bind (io_try m) f os = (case m os of (r, os) \<Rightarrow> f r os)"
  by (simp add: io_bind_def io_try_def split: prod.split)

text \<open>Code that keeps a property of the state, whatever its result.\<close>

definition io_keeps :: "('o \<Rightarrow> bool) \<Rightarrow> ('o, 'a) io \<Rightarrow> bool" where
  "io_keeps I m \<longleftrightarrow> (\<forall>os r os'. I os \<longrightarrow> m os = (r, os') \<longrightarrow> I os')"

lemma io_keeps_bind:
  assumes m: "io_keeps I m" and f: "\<And>x. io_keeps I (f x)"
  shows "io_keeps I (io_bind m f)"
proof -
  have "I os'" if I: "I os" and b: "io_bind m f os = (r, os')" for os r os'
  proof (cases "m os")
    case (Pair q os1)
    then have "I os1" using m I unfolding io_keeps_def by blast
    moreover have "f x os1 = (r, os')" if "q = Inr x" for x
      using that b Pair by (simp add: io_bind_def)
    moreover have "os' = os1" if "q = Inl e" for e
      using that b Pair by (simp add: io_bind_def)
    ultimately show ?thesis using f unfolding io_keeps_def by (cases q) blast+
  qed
  then show ?thesis unfolding io_keeps_def by blast
qed

lemma io_keeps_simps [simp]:
  "io_keeps I (io_return x)" "io_keeps I (io_fail e)" "io_keeps I (io_check f)"
  "io_keeps I (io_try m) \<longleftrightarrow> io_keeps I m"
  by (auto simp: io_keeps_def io_defs split: prod.splits)

lemma io_keeps_each: "(\<And>x. io_keeps I (f x)) \<Longrightarrow> io_keeps I (io_each f xs)"
  by (induction xs) (simp_all add: io_keeps_bind)

section \<open>The machine\<close>

record cmd_output =
  out_success :: bool
  out_stdout :: string
  out_utf8 :: bool
  out_stderr :: string

datatype remove_error = NotFound | RemoveFailed string

text \<open>
  \<open>h_install\<close> creates the parent directory and replaces the file atomically, \<open>h_touch\<close> opens it
  for writing, creating and truncating it; an option is the error of the call, if any.
\<close>

record 'o host =
  h_is_file :: "string \<Rightarrow> 'o \<Rightarrow> bool"
  h_read :: "string \<Rightarrow> 'o \<Rightarrow> string + string"
  h_install :: "string \<Rightarrow> string \<Rightarrow> 'o \<Rightarrow> string option \<times> 'o"
  h_remove :: "string \<Rightarrow> 'o \<Rightarrow> remove_error option \<times> 'o"
  h_touch :: "string \<Rightarrow> 'o \<Rightarrow> string option \<times> 'o"
  h_lock :: "string \<Rightarrow> 'o \<Rightarrow> string option \<times> 'o"
  h_run :: "string \<Rightarrow> string list \<Rightarrow> 'o \<Rightarrow> (string + cmd_output) \<times> 'o"

definition read_file :: "'o host \<Rightarrow> string \<Rightarrow> ('o, string) io" where
  "read_file h path = (\<lambda>os. (map_sum (IoError path) id (h_read h path os), os))"

definition install_file :: "'o host \<Rightarrow> string \<Rightarrow> string \<Rightarrow> ('o, unit) io" where
  "install_file h path content = (\<lambda>os. case h_install h path content os of
     (None, os) \<Rightarrow> (Inr (), os) | (Some e, os) \<Rightarrow> (Inl (IoError path e), os))"

text \<open>Removing a file, an error if it is not there; and tolerating that it is not.\<close>

definition remove_file :: "'o host \<Rightarrow> string \<Rightarrow> ('o, unit) io" where
  "remove_file h path = (\<lambda>os. case h_remove h path os of
     (None, os) \<Rightarrow> (Inr (), os)
   | (Some NotFound, os) \<Rightarrow> (Inl (IoError path ''not found''), os)
   | (Some (RemoveFailed e), os) \<Rightarrow> (Inl (IoError path e), os))"

definition remove_if_present :: "'o host \<Rightarrow> string \<Rightarrow> ('o, unit) io" where
  "remove_if_present h path = (\<lambda>os. case h_remove h path os of
     (None, os) \<Rightarrow> (Inr (), os)
   | (Some NotFound, os) \<Rightarrow> (Inr (), os)
   | (Some (RemoveFailed e), os) \<Rightarrow> (Inl (IoError path e), os))"

definition touch_file :: "'o host \<Rightarrow> string \<Rightarrow> ('o, unit) io" where
  "touch_file h path = (\<lambda>os. case h_touch h path os of
     (None, os) \<Rightarrow> (Inr (), os) | (Some e, os) \<Rightarrow> (Inl (IoError path e), os))"

text \<open>\<open>FsLock::acquire\<close>; the lock is held until the caller returns.\<close>

definition acquire_lock :: "'o host \<Rightarrow> string \<Rightarrow> ('o, unit) io" where
  "acquire_lock h path = (\<lambda>os. case h_lock h path os of
     (None, os) \<Rightarrow> (Inr (), os) | (Some e, os) \<Rightarrow> (Inl (LockError path e), os))"

definition run_program :: "'o host \<Rightarrow> string \<Rightarrow> string list \<Rightarrow> ('o, cmd_output) io" where
  "run_program h program args = (\<lambda>os. case h_run h program args os of
     (Inl e, os) \<Rightarrow> (Inl (RunFailed program e), os) | (Inr out, os) \<Rightarrow> (Inr out, os))"

definition output_text :: "cmd_output \<Rightarrow> string \<Rightarrow> os_error + string" where
  "output_text out action =
     (if \<not> out_success out then Inl (CommandFailed action (trim (out_stderr out)))
      else if \<not> out_utf8 out then Inl (NonUtf8 action)
      else Inr (out_stdout out))"

definition io_of :: "os_error + 'a \<Rightarrow> ('o, 'a) io" where
  "io_of r = (\<lambda>os. (r, os))"

lemma io_keeps_of [simp]: "io_keeps I (io_of r)"
  by (simp add: io_keeps_def io_of_def)

end
