(* ===== verification/Net_Text.thy ===== *)
theory Net_Text
  imports Net_Addr Text
begin

text \<open>
  The text of addresses, as \<open>std::net\<close> reads and prints them: the backtracking parser of IPv4
  and IPv6 addresses and the canonical text of RFC 5952.  A parser returns its value and the
  rest of its input; \<open>parse\<close> accepts only a value that takes the whole input.
\<close>

section \<open>Reading\<close>

type_synonym 'a reader = "string \<Rightarrow> ('a \<times> string) option"

definition hex_value :: "char \<Rightarrow> nat option" where
  "hex_value c =
     (if 48 \<le> code c \<and> code c \<le> 57 then Some (code c - 48)
      else if 97 \<le> code c \<and> code c \<le> 102 then Some (code c - 87)
      else if 65 \<le> code c \<and> code c \<le> 70 then Some (code c - 55)
      else None)"

definition to_digit :: "nat \<Rightarrow> char \<Rightarrow> nat option" where
  "to_digit radix c = (case hex_value c of Some d \<Rightarrow> if d < radix then Some d else None | None \<Rightarrow> None)"

definition read_given_char :: "char \<Rightarrow> string \<Rightarrow> string option" where
  "read_given_char c s = (case s of d # rest \<Rightarrow> if d = c then Some rest else None | [] \<Rightarrow> None)"

text \<open>\<open>read_number\<close>: the digits read, the value bounded, at most \<open>max_digits\<close> of them if given.\<close>

fun read_digits :: "nat \<Rightarrow> nat \<Rightarrow> nat option \<Rightarrow> nat \<Rightarrow> nat \<Rightarrow> string \<Rightarrow> (nat \<times> nat \<times> string) option" where
  "read_digits radix limit max_digits acc n [] = Some (acc, n, [])"
| "read_digits radix limit max_digits acc n (c # s) =
     (case to_digit radix c of
        None \<Rightarrow> Some (acc, n, c # s)
      | Some d \<Rightarrow>
          if acc * radix + d > limit \<or> (case max_digits of Some m \<Rightarrow> n + 1 > m | None \<Rightarrow> False) then None
          else read_digits radix limit max_digits (acc * radix + d) (n + 1) s)"

definition read_number :: "nat \<Rightarrow> nat \<Rightarrow> nat option \<Rightarrow> bool \<Rightarrow> nat reader" where
  "read_number radix limit max_digits allow_zero_prefix s =
     (case read_digits radix limit max_digits 0 0 s of
        None \<Rightarrow> None
      | Some (value, n, rest) \<Rightarrow>
          if n = 0 then None
          else if \<not> allow_zero_prefix \<and> n > 1 \<and> hd s = CHR ''0'' then None
          else Some (value, rest))"

definition read_separated :: "char \<Rightarrow> nat \<Rightarrow> 'a reader \<Rightarrow> 'a reader" where
  "read_separated sep index inner s =
     (if index > 0 then Option.bind (read_given_char sep s) inner else inner s)"

definition read_octet :: "nat \<Rightarrow> u8 reader" where
  "read_octet index s =
     map_option (\<lambda>(n, rest). (word_of_nat n, rest))
       (read_separated (CHR ''.'') index (read_number 10 255 (Some 3) False) s)"

definition read_ipv4 :: "ip4 reader" where
  "read_ipv4 s =
     Option.bind (read_octet 0 s) (\<lambda>(a, s).
     Option.bind (read_octet 1 s) (\<lambda>(b, s).
     Option.bind (read_octet 2 s) (\<lambda>(c, s).
     Option.bind (read_octet 3 s) (\<lambda>(d, s). Some (IP4 a b c d, s)))))"

definition pair16 :: "u8 \<Rightarrow> u8 \<Rightarrow> u16" where
  "pair16 a b = from_be16 a b"

text \<open>At most \<open>limit\<close> groups from index \<open>i\<close> on; the flag tells of an embedded IPv4 address.\<close>

function read_groups :: "nat \<Rightarrow> nat \<Rightarrow> string \<Rightarrow> u16 list \<times> bool \<times> string" where
  "read_groups limit i s =
     (if i \<ge> limit then ([], False, s)
      else let group = (\<lambda>_ :: unit.
             case read_separated (CHR '':'') i (read_number 16 65535 (Some 4) True) s of
               None \<Rightarrow> ([], False, s)
             | Some (g, rest) \<Rightarrow>
                 (case read_groups limit (i + 1) rest of
                    (gs, v4, rest) \<Rightarrow> (word_of_nat g # gs, v4, rest)))
      in if i + 1 < limit then
           (case read_separated (CHR '':'') i read_ipv4 s of
              Some (IP4 a b c d, rest) \<Rightarrow> ([pair16 a b, pair16 c d], True, rest)
            | None \<Rightarrow> group ())
         else group ())"
  by pat_completeness auto
termination by (relation "measure (\<lambda>(limit, i, s). limit - i)") auto

definition ip6_of_groups :: "u16 list \<Rightarrow> ip6" where
  "ip6_of_groups gs = IP6 (gs ! 0) (gs ! 1) (gs ! 2) (gs ! 3) (gs ! 4) (gs ! 5) (gs ! 6) (gs ! 7)"

definition read_ipv6 :: "ip6 reader" where
  "read_ipv6 s =
     (case read_groups 8 0 s of
        (head, head_v4, rest) \<Rightarrow>
          if length head = 8 then Some (ip6_of_groups head, rest)
          else if head_v4 then None
          else Option.bind (read_given_char (CHR '':'') rest) (\<lambda>rest.
               Option.bind (read_given_char (CHR '':'') rest) (\<lambda>rest.
                 case read_groups (8 - (length head + 1)) 0 rest of
                   (tail, _, rest) \<Rightarrow>
                     Some (ip6_of_groups (head @ replicate (8 - length head - length tail) 0 @ tail), rest))))"

definition parse_whole :: "'a reader \<Rightarrow> string \<Rightarrow> 'a option" where
  "parse_whole r s = (case r s of Some (x, []) \<Rightarrow> Some x | _ \<Rightarrow> None)"

definition read_ip :: "ip_addr reader" where
  "read_ip s =
     (case read_ipv4 s of
        Some (a, rest) \<Rightarrow> Some (V4 a, rest)
      | None \<Rightarrow> map_option (\<lambda>(a, rest). (V6 a, rest)) (read_ipv6 s))"

definition parse_ip :: "string \<Rightarrow> ip_addr option" where
  "parse_ip = parse_whole read_ip"

definition parse_ipv6 :: "string \<Rightarrow> ip6 option" where
  "parse_ipv6 = parse_whole read_ipv6"

section \<open>Printing\<close>

definition show_ip4 :: "ip4 \<Rightarrow> string" where
  "show_ip4 ip = (case ip of IP4 a b c d \<Rightarrow>
     show_nat (unat a) @ ''.'' @ show_nat (unat b) @ ''.'' @ show_nat (unat c) @ ''.'' @ show_nat (unat d))"

definition hex_char :: "nat \<Rightarrow> char" where
  "hex_char d = char_of (if d < 10 then 48 + d else 87 + d)"

fun show_hex :: "nat \<Rightarrow> string" where
  "show_hex n = (if n < 16 then [hex_char n] else show_hex (n div 16) @ [hex_char (n mod 16)])"

declare show_hex.simps [simp del]

text \<open>The first longest run of zero groups, as its start and length.\<close>

fun zero_run :: "u16 list \<Rightarrow> nat" where
  "zero_run [] = 0"
| "zero_run (g # gs) = (if g = 0 then 1 + zero_run gs else 0)"

fun longest_run :: "nat \<Rightarrow> u16 list \<Rightarrow> nat \<times> nat \<Rightarrow> nat \<times> nat" where
  "longest_run i [] best = best"
| "longest_run i (g # gs) best =
     longest_run (i + 1) gs (if zero_run (g # gs) > snd best then (i, zero_run (g # gs)) else best)"

definition show_groups :: "u16 list \<Rightarrow> string" where
  "show_groups gs = join_with '':'' (map (\<lambda>g. show_hex (unat g)) gs)"

definition groups_of :: "ip6 \<Rightarrow> u16 list" where
  "groups_of ip = (case ip of IP6 a b c d e f g h \<Rightarrow> [a, b, c, d, e, f, g, h])"

definition show_ip6 :: "ip6 \<Rightarrow> string" where
  "show_ip6 ip =
     (case to_canonical (V6 ip) of
        V4 v4 \<Rightarrow> ''::ffff:'' @ show_ip4 v4
      | V6 _ \<Rightarrow>
          (case longest_run 0 (groups_of ip) (0, 0) of
             (start, n) \<Rightarrow>
               if n > 1 then show_groups (take start (groups_of ip)) @ ''::'' @
                             show_groups (drop (start + n) (groups_of ip))
               else show_groups (groups_of ip)))"

fun show_ip :: "ip_addr \<Rightarrow> string" where
  "show_ip (V4 a) = show_ip4 a"
| "show_ip (V6 a) = show_ip6 a"

section \<open>Reading back an IPv4 address\<close>

lemma hex_value_digit: "ascii_digit c \<Longrightarrow> hex_value c = Some (digit_value c)"
  by (simp add: ascii_digit_def hex_value_def digit_value_def)

lemma to_digit_decimal: "ascii_digit c \<Longrightarrow> to_digit 10 c = Some (digit_value c)"
proof -
  assume c: "ascii_digit c"
  then have "digit_value c < 10" by (simp add: ascii_digit_def digit_value_def less_diff_conv2)
  with c show ?thesis by (simp add: to_digit_def hex_value_digit)
qed

lemma digits_value_ge: "digits_value acc s = Some v \<Longrightarrow> acc \<le> v"
proof (induction acc s rule: digits_value.induct)
  case (2 acc c s)
  then show ?case by (fastforce split: if_splits)
qed simp

lemma read_digits_decimal:
  assumes "\<forall>c \<in> set ds. ascii_digit c" "rest = [] \<or> to_digit 10 (hd rest) = None"
    and "digits_value acc ds = Some v" "v \<le> limit" "n + length ds \<le> m"
  shows "read_digits 10 limit (Some m) acc n (ds @ rest) = Some (v, n + length ds, rest)"
  using assms
proof (induction ds arbitrary: acc n)
  case Nil
  then show ?case by (cases rest) auto
next
  case (Cons c ds)
  then have d: "to_digit 10 c = Some (digit_value c)" "digits_value (acc * 10 + digit_value c) ds = Some v"
    by (simp_all add: to_digit_decimal)
  from digits_value_ge [OF d(2)] Cons.prems(4) have "acc * 10 + digit_value c \<le> limit" by simp
  with d Cons.IH [of "acc * 10 + digit_value c" "Suc n"] Cons.prems show ?case by simp
qed

lemma show_nat_octet:
  assumes "n < 1000"
  shows "length (show_nat n) \<le> 3" "1 < length (show_nat n) \<Longrightarrow> hd (show_nat n) \<noteq> CHR ''0''"
proof -
  have small: "show_nat k = [char_of (48 + k)]" if "k < 10" for k
    using that by (simp add: show_nat.simps [of k])
  have two: "show_nat k = [char_of (48 + k div 10), char_of (48 + k mod 10)]" if "10 \<le> k" "k < 100" for k
    using that by (simp add: show_nat.simps [of k] small)
  have three: "show_nat k = [char_of (48 + k div 10 div 10), char_of (48 + k div 10 mod 10), char_of (48 + k mod 10)]"
    if "100 \<le> k" "k < 1000" for k
  proof -
    have "10 \<le> k div 10" "k div 10 < 100" using that by (simp_all add: less_mult_imp_div_less div_le_mono [of 100 k 10, simplified])
    with that two [of "k div 10"] show ?thesis by (simp add: show_nat.simps [of k])
  qed
  have nz: "char_of (48 + d) \<noteq> CHR ''0''" if "0 < d" "d < 10" for d :: nat
  proof
    assume "char_of (48 + d) = CHR ''0''"
    then have "code (char_of (48 + d)) = code (CHR ''0'')" by simp
    with that show False by (simp add: code_char_of) (simp add: code_def)
  qed
  show "length (show_nat n) \<le> 3"
    using assms small [of n] two [of n] three [of n] by (cases "n < 10"; cases "n < 100") auto
  show "hd (show_nat n) \<noteq> CHR ''0''" if "1 < length (show_nat n)"
  proof (cases "n < 100")
    case True
    with that small [of n] have "10 \<le> n" by (cases "n < 10") auto
    with True two [of n] nz [of "n div 10"] show ?thesis by auto
  next
    case False
    with assms three [of n] nz [of "n div 10 div 10"] show ?thesis by (auto simp: div_mult2_eq [symmetric])
  qed
qed

lemma read_octet_show:
  assumes "rest = [] \<or> to_digit 10 (hd rest) = None"
  shows "read_number 10 255 (Some 3) False (show_nat (unat (a :: u8)) @ rest) = Some (unat a, rest)"
proof -
  have a: "unat a < 256" by (rule unat_u8_lt)
  then have "length (show_nat (unat a)) \<le> 3" by (simp add: show_nat_octet(1))
  with a have "read_digits 10 255 (Some 3) 0 0 (show_nat (unat a) @ rest)
      = Some (unat a, length (show_nat (unat a)), rest)"
    using show_nat_digits [of "unat a"] assms read_digits_decimal [of "show_nat (unat a)" rest 0 "unat a" 255 0 3]
    by (simp add: digits_value_show)
  with a show_nat_octet(2) [of "unat a"] show_nat_digits [of "unat a"] show ?thesis
    by (auto simp: read_number_def)
qed

lemma not_digit [simp]: "to_digit 10 (CHR ''.'') = None" "to_digit 10 (CHR ''%'') = None" "to_digit 10 (CHR '':'') = None"
  by code_simp+

lemma read_ipv4_show: "rest = [] \<or> to_digit 10 (hd rest) = None \<Longrightarrow> read_ipv4 (show_ip4 a @ rest) = Some (a, rest)"
  by (cases a) (simp add: read_ipv4_def show_ip4_def read_octet_def read_separated_def read_given_char_def
      read_octet_show)

text \<open>Reading the text of an IPv4 address gives the address back.\<close>

lemma parse_ip_show4: "parse_ip (show_ip4 a) = Some (V4 a)"
  using read_ipv4_show [of "[]" a] by (simp add: parse_ip_def parse_whole_def read_ip_def)

section \<open>Printed addresses are no keyword\<close>

lemma set_join_with: "set (join_with sep ws) \<subseteq> set sep \<union> \<Union> (set ` set ws)"
  by (induction sep ws rule: join_with.induct) auto

lemma show_nat_no_letter: "c \<in> set (show_nat n) \<Longrightarrow> c \<noteq> CHR ''E''"
  using show_nat_digits [of n] by (auto simp: ascii_digit_def code_def)

lemma hex_char_no_E: "d < 16 \<Longrightarrow> hex_char d \<noteq> CHR ''E''"
proof
  assume d: "d < 16" and "hex_char d = CHR ''E''"
  then have "of_char (hex_char d) = (69 :: nat)" by simp
  moreover have "of_char (hex_char d) = (if d < 10 then 48 + d else 87 + d :: nat)"
    using d by (simp add: hex_char_def)
  ultimately show False by (simp split: if_splits)
qed

lemma show_hex_no_E: "c \<in> set (show_hex n) \<Longrightarrow> c \<noteq> CHR ''E''"
proof (induction n rule: show_hex.induct)
  case (1 n)
  then show ?case using hex_char_no_E [of n] hex_char_no_E [of "n mod 16"]
    by (subst (asm) show_hex.simps) (auto split: if_splits)
qed

lemma show_ip4_no_E: "c \<in> set (show_ip4 a) \<Longrightarrow> c \<noteq> CHR ''E''"
  by (auto simp: show_ip4_def dest: show_nat_no_letter split: ip4.splits)

lemma show_groups_no_E: "c \<in> set (show_groups gs) \<Longrightarrow> c \<noteq> CHR ''E''"
  using set_join_with [of "'':''" "map (\<lambda>g. show_hex (unat g)) gs"] show_hex_no_E
  by (fastforce simp: show_groups_def)

lemma show_ip6_no_E: "c \<in> set (show_ip6 a) \<Longrightarrow> c \<noteq> CHR ''E''"
  by (auto simp: show_ip6_def dest: show_ip4_no_E show_groups_no_E split: ip_addr.splits prod.splits if_splits)

lemma show_ip_not_Empty: "show_ip ip \<noteq> ''Empty''"
proof
  assume "show_ip ip = ''Empty''"
  then have "CHR ''E'' \<in> set (show_ip ip)" by simp
  then show False using show_ip4_no_E show_ip6_no_E by (cases ip) auto
qed

end
