(* ===== verification/Osdns.thy ===== *)
theory Osdns
  imports Host Net_Text
begin

text \<open>
  The macOS DNS takeover, \<open>src/src/osdns/macos.rs\<close>: snapshot and switch every network service,
  verify and reassert, restore.  \<open>networksetup\<close> and \<open>scutil\<close> are programs run through the host;
  the TOML encoding of the backup and \<open>if_nametoindex\<close> are arguments.  Warnings printed for
  the user are left out.
\<close>

section \<open>Data\<close>

definition NETWORKSETUP :: string where "NETWORKSETUP = ''/usr/sbin/networksetup''"
definition SCUTIL :: string where "SCUTIL = ''/usr/sbin/scutil''"
definition BACKUP_PATH :: string where
  "BACKUP_PATH = ''/Library/Application Support/DNSRivet/dns-backup.toml''"
definition MARKER_PATH :: string where
  "MARKER_PATH = ''/Library/Application Support/DNSRivet/takeover-active''"
definition LOCK_PATH :: string where "LOCK_PATH = ''/Library/Application Support/DNSRivet/.lock''"

datatype takeover_state = NotTakenOver | Active | Indeterminate | Corrupted

fun classify :: "bool \<Rightarrow> bool \<Rightarrow> takeover_state" where
  "classify False False = NotTakenOver"
| "classify True True = Active"
| "classify True False = Indeterminate"
| "classify False True = Corrupted"

record service_dns =
  sd_name :: string
  sd_servers :: "string list"

record backup =
  bk_version :: u8
  bk_services :: "service_dns list"
  bk_fallback :: "string list"
  bk_takeovers :: "ip_addr list option"

text \<open>The host together with the parts of libraries the takeover uses.\<close>

record 'o dns_host =
  dh_host :: "'o host"
  dh_encode :: "backup \<Rightarrow> string + string"
  dh_decode :: "string \<Rightarrow> string + backup"
  dh_ifindex :: "string \<Rightarrow> u32 option"

section \<open>Addresses of DNS servers\<close>

definition parse_dns_socket :: "(string \<Rightarrow> u32 option) \<Rightarrow> string \<Rightarrow> os_error + socket_addr" where
  "parse_dns_socket ifindex value =
     (let value = trim value in
      case parse_ip value of
        Some ip \<Rightarrow> Inr (sock_new ip 53)
      | None \<Rightarrow>
          (case rsplit_once ''%'' value of
             None \<Rightarrow> Inl (Unparsable ''DNS server address'' value)
           | Some (address, scope) \<Rightarrow>
               (case parse_ipv6 address of
                  None \<Rightarrow> Inl (Unparsable ''IPv6 DNS server address'' value)
                | Some ip \<Rightarrow>
                    (case parse_unsigned 4294967295 scope of
                       Some n \<Rightarrow> Inr (SocketV6 ip 53 (word_of_nat n))
                     | None \<Rightarrow>
                         (case ifindex scope of
                            Some n \<Rightarrow> Inr (SocketV6 ip 53 n)
                          | None \<Rightarrow> Inl (Unparsable ''IPv6 DNS interface'' scope))))))"

fun serialize_dns_socket :: "socket_addr \<Rightarrow> string" where
  "serialize_dns_socket (SocketV4 ip port) = show_ip4 ip"
| "serialize_dns_socket (SocketV6 ip port scope) =
     (if scope \<noteq> 0 then show_ip6 ip @ ''%'' @ show_nat (unat scope) else show_ip6 ip)"

fun retain_servers :: "ip_addr list \<Rightarrow> socket_addr list \<Rightarrow> socket_addr list \<Rightarrow> socket_addr list" where
  "retain_servers denied seen [] = []"
| "retain_servers denied seen (address # rest) =
     (let ip = sock_ip address in
      if \<not> is_loopback ip \<and> \<not> is_unspecified ip \<and> \<not> is_multicast ip \<and> ip \<notin> set denied
         \<and> address \<notin> set seen
      then address # retain_servers denied (address # seen) rest
      else retain_servers denied seen rest)"

definition filter_fallback_servers :: "socket_addr list \<Rightarrow> ip_addr list \<Rightarrow> socket_addr list" where
  "filter_fallback_servers servers denied = retain_servers denied [] servers"

section \<open>Output of the system tools\<close>

definition parse_services :: "string \<Rightarrow> string list" where
  "parse_services text =
     filter (\<lambda>line. line \<noteq> [] \<and> \<not> starts_with line ''*'') (map trim (drop 1 (text_lines text)))"

definition parse_all_services :: "string \<Rightarrow> string list" where
  "parse_all_services text =
     map (\<lambda>line. trim (case strip_prefix ''*'' line of Some rest \<Rightarrow> rest | None \<Rightarrow> line))
       (filter (\<lambda>line. line \<noteq> []) (map trim (drop 1 (text_lines text))))"

definition parse_dns_servers :: "(string \<Rightarrow> u32 option) \<Rightarrow> string \<Rightarrow> string list option" where
  "parse_dns_servers ifindex text =
     (let ls = filter (\<lambda>line. line \<noteq> []) (map trim (text_lines text)) in
      if length ls = 1 \<and> starts_with (hd ls) ''There aren't any DNS Servers set on'' then Some []
      else if list_all (\<lambda>line. \<not> isl (parse_dns_socket ifindex line)) ls then Some ls else None)"

text \<open>The scanner of \<open>scutil --dns\<close>: the resolvers of the global section without a domain.\<close>

record scutil_scan =
  su_servers :: "socket_addr list"
  su_pending :: "socket_addr list"
  su_domain_scoped :: bool
  su_in_global :: bool

definition commit :: "scutil_scan \<Rightarrow> scutil_scan" where
  "commit s = s\<lparr>su_servers := (if su_domain_scoped s then su_servers s else su_servers s @ su_pending s),
                su_pending := [], su_domain_scoped := False\<rparr>"

definition scan_line :: "(string \<Rightarrow> u32 option) \<Rightarrow> string \<Rightarrow> scutil_scan \<Rightarrow> os_error + scutil_scan" where
  "scan_line ifindex line s =
     (if line = ''DNS configuration'' then Inr ((commit s)\<lparr>su_in_global := True\<rparr>)
      else if starts_with line ''DNS configuration ('' then Inr ((commit s)\<lparr>su_in_global := False\<rparr>)
      else if \<not> su_in_global s then Inr s
      else if starts_with line ''resolver #'' then Inr (commit s)
      else if starts_with line ''domain'' then Inr (s\<lparr>su_domain_scoped := True\<rparr>)
      else if starts_with line ''nameserver['' then
        (case split_once '':'' line of
           None \<Rightarrow> Inr s
         | Some (_, value) \<Rightarrow>
             map_sum id (\<lambda>address. s\<lparr>su_pending := su_pending s @ [address]\<rparr>)
               (parse_dns_socket ifindex (trim value)))
      else Inr s)"

fun scan_lines :: "(string \<Rightarrow> u32 option) \<Rightarrow> string list \<Rightarrow> scutil_scan \<Rightarrow> os_error + scutil_scan" where
  "scan_lines ifindex [] s = Inr s"
| "scan_lines ifindex (raw # rest) s =
     (case scan_line ifindex (trim raw) s of
        Inl e \<Rightarrow> Inl e
      | Inr s \<Rightarrow> scan_lines ifindex rest s)"

definition parse_scutil_global_dns :: "(string \<Rightarrow> u32 option) \<Rightarrow> string \<Rightarrow> os_error + socket_addr list" where
  "parse_scutil_global_dns ifindex text =
     map_sum id (\<lambda>s. su_servers (commit s))
       (scan_lines ifindex (text_lines text)
          \<lparr>su_servers = [], su_pending = [], su_domain_scoped = False, su_in_global = False\<rparr>)"

section \<open>Running the system tools\<close>

definition list_services :: "'o dns_host \<Rightarrow> ('o, string list) io" where
  "list_services d =
     io_bind (run_program (dh_host d) NETWORKSETUP [''-listallnetworkservices'']) (\<lambda>out.
     io_bind (io_of (output_text out ''list network services'')) (\<lambda>text.
       io_return (parse_services text)))"

definition list_all_services :: "'o dns_host \<Rightarrow> ('o, string list) io" where
  "list_all_services d =
     io_bind (run_program (dh_host d) NETWORKSETUP [''-listallnetworkservices'']) (\<lambda>out.
     io_bind (io_of (output_text out ''list network services'')) (\<lambda>text.
       io_return (parse_all_services text)))"

definition get_dns_servers :: "'o dns_host \<Rightarrow> string \<Rightarrow> ('o, string list) io" where
  "get_dns_servers d service =
     io_bind (run_program (dh_host d) NETWORKSETUP [''-getdnsservers'', service]) (\<lambda>out.
     io_bind (io_of (output_text out ''read DNS servers'')) (\<lambda>text.
       (case parse_dns_servers (dh_ifindex d) text of
          None \<Rightarrow> io_fail (Unparsable ''DNS server output'' text)
        | Some servers \<Rightarrow> io_return servers)))"

definition set_dns_args :: "string \<Rightarrow> string list \<Rightarrow> string list" where
  "set_dns_args service servers =
     [''-setdnsservers'', service] @ (if servers = [] then [''Empty''] else servers)"

definition set_dns_servers :: "'o dns_host \<Rightarrow> string \<Rightarrow> string list \<Rightarrow> ('o, unit) io" where
  "set_dns_servers d service servers =
     io_bind (run_program (dh_host d) NETWORKSETUP (set_dns_args service servers)) (\<lambda>out.
       if out_success out then io_return ()
       else io_fail (CommandFailed ''set DNS servers'' (trim (out_stderr out))))"

definition flush_caches :: "'o dns_host \<Rightarrow> ('o, unit) io" where
  "flush_caches d =
     io_bind (io_try (run_program (dh_host d) ''/usr/bin/dscacheutil'' [''-flushcache''])) (\<lambda>_.
     io_bind (io_try (run_program (dh_host d) ''/usr/bin/killall'' [''-HUP'', ''mDNSResponder''])) (\<lambda>_.
       io_return ()))"

definition effective_dns_servers :: "'o dns_host \<Rightarrow> ('o, socket_addr list) io" where
  "effective_dns_servers d =
     io_bind (run_program (dh_host d) SCUTIL [''--dns'']) (\<lambda>out.
     io_bind (io_of (output_text out ''read effective system DNS'')) (\<lambda>text.
       io_of (parse_scutil_global_dns (dh_ifindex d) text)))"

section \<open>Files\<close>

definition lock :: "'o dns_host \<Rightarrow> ('o, unit) io" where
  "lock d = acquire_lock (dh_host d) LOCK_PATH"

definition marker_exists :: "'o dns_host \<Rightarrow> 'o \<Rightarrow> bool" where
  "marker_exists d os = h_is_file (dh_host d) MARKER_PATH os"

definition backup_exists :: "'o dns_host \<Rightarrow> 'o \<Rightarrow> bool" where
  "backup_exists d os = h_is_file (dh_host d) BACKUP_PATH os"

definition takeover_state :: "'o dns_host \<Rightarrow> 'o \<Rightarrow> takeover_state" where
  "takeover_state d os = classify (backup_exists d os) (marker_exists d os)"

definition create_marker :: "'o dns_host \<Rightarrow> ('o, unit) io" where
  "create_marker d = touch_file (dh_host d) MARKER_PATH"

definition remove_marker :: "'o dns_host \<Rightarrow> ('o, unit) io" where
  "remove_marker d = remove_if_present (dh_host d) MARKER_PATH"

definition read_backup :: "'o dns_host \<Rightarrow> ('o, backup) io" where
  "read_backup d =
     io_bind (read_file (dh_host d) BACKUP_PATH) (\<lambda>text.
       io_of (map_sum (Unparsable ''DNS backup'') id (dh_decode d text)))"

definition write_backup :: "'o dns_host \<Rightarrow> backup \<Rightarrow> ('o, unit) io" where
  "write_backup d b =
     io_bind (io_of (map_sum (Unparsable ''DNS backup'') id (dh_encode d b))) (\<lambda>text.
       install_file (dh_host d) BACKUP_PATH text)"

end
