(* ===== verification/Takeover.thy ===== *)
theory Takeover
  imports Osdns
begin

text \<open>
  The transactions of \<open>src/src/osdns/macos.rs\<close> over the tools of theory Osdns: taking DNS over
  with rollback, releasing it, restoring the backup, the fallback servers and the watchdog tick.
\<close>

section \<open>Taking over\<close>

text \<open>The snapshot of every enabled service, refused where the takeover address is already set.\<close>

fun snapshot_services ::
  "'o dns_host \<Rightarrow> ip_addr \<Rightarrow> string list \<Rightarrow> socket_addr list \<Rightarrow> service_dns list
     \<Rightarrow> ('o, socket_addr list \<times> service_dns list) io"
where
  "snapshot_services d server [] fallback services = io_return (fallback, services)"
| "snapshot_services d server (name # names) fallback services =
     io_bind (get_dns_servers d name) (\<lambda>servers.
       let fallback = fallback @ List.map_filter
             (\<lambda>value. case parse_dns_socket (dh_ifindex d) value of Inr a \<Rightarrow> Some a | Inl _ \<Rightarrow> None) servers in
       if show_ip server \<in> set servers then io_fail (Refused name)
       else snapshot_services d server names fallback
              (services @ [\<lparr>sd_name = name, sd_servers = servers\<rparr>]))"

definition find_service :: "backup \<Rightarrow> string \<Rightarrow> service_dns option" where
  "find_service b name = find (\<lambda>service. sd_name service = name) (bk_services b)"

text \<open>Whether every setting could be put back.\<close>

fun rollback_loop :: "'o dns_host \<Rightarrow> backup \<Rightarrow> string list \<Rightarrow> bool \<Rightarrow> ('o, bool) io" where
  "rollback_loop d b [] ok = io_return ok"
| "rollback_loop d b (name # names) ok =
     (case find_service b name of
        None \<Rightarrow> rollback_loop d b names ok
      | Some service \<Rightarrow>
          io_bind (io_try (set_dns_servers d (sd_name service) (sd_servers service))) (\<lambda>r.
            rollback_loop d b names (ok \<and> \<not> isl r)))"

definition rollback :: "'o dns_host \<Rightarrow> backup \<Rightarrow> string list \<Rightarrow> ('o, bool) io" where
  "rollback d b changed =
     io_bind (rollback_loop d b (rev changed) True) (\<lambda>ok.
     io_bind (flush_caches d) (\<lambda>_. io_return ok))"

fun switch_services ::
  "'o dns_host \<Rightarrow> ip_addr \<Rightarrow> backup \<Rightarrow> service_dns list \<Rightarrow> string list \<Rightarrow> ('o, unit) io"
where
  "switch_services d server b [] changed = io_return ()"
| "switch_services d server b (service # services) changed =
     io_bind (io_try (set_dns_servers d (sd_name service) [show_ip server])) (\<lambda>r.
       case r of
         Inr _ \<Rightarrow> switch_services d server b services (changed @ [sd_name service])
       | Inl e \<Rightarrow>
           io_bind (rollback d b changed) (\<lambda>rollback_ok.
           io_bind (if rollback_ok then io_try (remove_file (dh_host d) BACKUP_PATH) else io_return (Inr ())) (\<lambda>_.
             io_fail (Context (if rollback_ok then ''rollback completed'' else ''rollback incomplete'') e))))"

definition take_over :: "'o dns_host \<Rightarrow> ip_addr \<Rightarrow> ('o, unit) io" where
  "take_over d server =
     io_bind (lock d) (\<lambda>_.
     io_bind (io_check (backup_exists d)) (\<lambda>exists.
       if exists then io_fail (Refused BACKUP_PATH)
       else
     io_bind (io_try (effective_dns_servers d)) (\<lambda>effective.
     io_bind (list_services d) (\<lambda>names.
     io_bind (snapshot_services d server names (case effective of Inr servers \<Rightarrow> servers | Inl _ \<Rightarrow> []) [])
       (\<lambda>(fallback, services).
       if services = [] then io_fail (Refused ''no enabled network services'')
       else let b = \<lparr>bk_version = 2, bk_services = services,
                     bk_fallback = map serialize_dns_socket (filter_fallback_servers fallback [server]),
                     bk_takeovers = Some [server]\<rparr> in
     io_bind (write_backup d b) (\<lambda>_.
     io_bind (switch_services d server b services []) (\<lambda>_.
     io_bind (create_marker d) (\<lambda>_.
     io_bind (flush_caches d) (\<lambda>_. io_return ())))))))))"

section \<open>Restoring\<close>

definition dns_may_depend_on_takeover ::
  "(string \<Rightarrow> u32 option) \<Rightarrow> backup \<Rightarrow> string \<Rightarrow> string list \<Rightarrow> bool" where
  "dns_may_depend_on_takeover ifindex b name servers =
     (case bk_takeovers b of
        Some takeovers \<Rightarrow>
          list_ex (\<lambda>value. case parse_dns_socket ifindex value of
             Inr address \<Rightarrow> sock_ip address \<in> set takeovers | Inl _ \<Rightarrow> False) servers
      | None \<Rightarrow>
          \<not> (case find_service b name of Some service \<Rightarrow> sd_servers service = servers | None \<Rightarrow> False)
          \<and> list_ex (\<lambda>value. case parse_dns_socket ifindex value of
               Inr address \<Rightarrow> is_loopback (sock_ip address) | Inl _ \<Rightarrow> False) servers)"

text \<open>The errors of restoring the known names, then those of verifying every service.\<close>

fun restore_services ::
  "(string \<Rightarrow> string list \<Rightarrow> ('o, unit) io) \<Rightarrow> string list \<Rightarrow> service_dns list \<Rightarrow> ('o, os_error list) io"
where
  "restore_services set_dns current [] = io_return []"
| "restore_services set_dns current (service # services) =
     (if sd_name service \<notin> set current then restore_services set_dns current services
      else io_bind (io_try (set_dns (sd_name service) (sd_servers service))) (\<lambda>r.
           io_bind (restore_services set_dns current services) (\<lambda>errors.
             io_return ((case r of Inl e \<Rightarrow> [e] | Inr _ \<Rightarrow> []) @ errors))))"

fun verify_services ::
  "(string \<Rightarrow> u32 option) \<Rightarrow> (string \<Rightarrow> ('o, string list) io) \<Rightarrow> backup \<Rightarrow> string list \<Rightarrow> ('o, os_error list) io"
where
  "verify_services ifindex get_dns b [] = io_return []"
| "verify_services ifindex get_dns b (name # names) =
     io_bind (io_try (get_dns name)) (\<lambda>r.
     io_bind (verify_services ifindex get_dns b names) (\<lambda>errors.
       io_return ((case r of
           Inr servers \<Rightarrow> if dns_may_depend_on_takeover ifindex b name servers then [Refused name] else []
         | Inl e \<Rightarrow> [e]) @ errors)))"

definition restore_at ::
  "'o dns_host \<Rightarrow> ('o, string list) io \<Rightarrow> (string \<Rightarrow> ('o, string list) io)
     \<Rightarrow> (string \<Rightarrow> string list \<Rightarrow> ('o, unit) io) \<Rightarrow> ('o, unit) io"
where
  "restore_at d listing get_dns set_dns =
     io_bind (read_backup d) (\<lambda>b.
       if bk_version b \<noteq> 1 \<and> bk_version b \<noteq> 2 then io_fail (Refused ''backup version'')
       else
     io_bind listing (\<lambda>current.
     io_bind (restore_services set_dns current (bk_services b)) (\<lambda>errors.
     io_bind (io_try listing) (\<lambda>relisted.
     io_bind (case relisted of
                Inr names \<Rightarrow> verify_services (dh_ifindex d) get_dns b names
              | Inl e \<Rightarrow> io_return [e]) (\<lambda>more.
       if errors @ more \<noteq> [] then io_fail (Several (errors @ more))
       else remove_file (dh_host d) BACKUP_PATH)))))"

definition restore :: "'o dns_host \<Rightarrow> ('o, bool) io" where
  "restore d =
     io_bind (io_check (backup_exists d)) (\<lambda>exists.
       if \<not> exists then io_return False
       else io_bind (restore_at d (list_all_services d) (get_dns_servers d) (set_dns_servers d)) (\<lambda>_.
            io_bind (flush_caches d) (\<lambda>_. io_return True)))"

fun keep_loopback :: "socket_addr list \<Rightarrow> socket_addr list \<Rightarrow> socket_addr list" where
  "keep_loopback seen [] = []"
| "keep_loopback seen (address # rest) =
     (if is_loopback (sock_ip address) \<and> address \<notin> set seen
      then address # keep_loopback (address # seen) rest
      else keep_loopback seen rest)"

definition current_loopback_dns :: "'o dns_host \<Rightarrow> ('o, socket_addr list) io" where
  "current_loopback_dns d =
     io_bind (effective_dns_servers d) (\<lambda>servers. io_return (keep_loopback [] servers))"

fun any_loopback_service :: "'o dns_host \<Rightarrow> string list \<Rightarrow> ('o, bool) io" where
  "any_loopback_service d [] = io_return False"
| "any_loopback_service d (name # names) =
     io_bind (get_dns_servers d name) (\<lambda>servers.
       if list_ex (\<lambda>value. case parse_ip value of Some ip \<Rightarrow> is_loopback ip | None \<Rightarrow> False) servers
       then io_return True else any_loopback_service d names)"

definition system_points_at_loopback :: "'o dns_host \<Rightarrow> ('o, bool) io" where
  "system_points_at_loopback d =
     io_bind (current_loopback_dns d) (\<lambda>loopback.
       if loopback \<noteq> [] then io_return True
       else io_bind (list_all_services d) (any_loopback_service d))"

definition release :: "'o dns_host \<Rightarrow> ('o, bool) io" where
  "release d =
     io_bind (lock d) (\<lambda>_.
     io_bind (io_check (backup_exists d)) (\<lambda>backup.
       if \<not> backup then
         io_bind (io_check (marker_exists d)) (\<lambda>marker.
           if marker then
             io_bind (system_points_at_loopback d) (\<lambda>loopback.
               if loopback then io_fail (Refused ''system resolves through a loopback address'')
               else io_bind (remove_marker d) (\<lambda>_. io_return False))
           else io_return False)
       else io_bind (remove_marker d) (\<lambda>_. restore d)))"

section \<open>Fallback servers\<close>

definition dns_sockets :: "(string \<Rightarrow> u32 option) \<Rightarrow> string list \<Rightarrow> socket_addr list" where
  "dns_sockets ifindex values = List.map_filter
     (\<lambda>value. case parse_dns_socket ifindex value of Inr a \<Rightarrow> Some a | Inl _ \<Rightarrow> None) values"

definition fallback_servers :: "'o dns_host \<Rightarrow> socket_addr list \<Rightarrow> ('o, socket_addr list) io" where
  "fallback_servers d listeners =
     io_bind (io_check (backup_exists d)) (\<lambda>exists.
     io_bind (if exists then
                io_bind (read_backup d) (\<lambda>b.
                  if bk_version b \<noteq> 1 \<and> bk_version b \<noteq> 2 then io_fail (Refused ''backup version'')
                  else let candidates = dns_sockets (dh_ifindex d) (bk_fallback b) in
                    io_return (if candidates \<noteq> [] then candidates
                               else dns_sockets (dh_ifindex d) (concat (map sd_servers (bk_services b)))))
              else effective_dns_servers d)
       (\<lambda>candidates. io_return (filter_fallback_servers candidates (map sock_ip listeners))))"

section \<open>The watchdog\<close>

datatype tick_outcome =
  NotActive
| Clean "socket_addr list option" "os_error option"
| Reasserted "string list" "socket_addr list" "os_error option"

fun add_new_service_snapshots ::
  "(string \<Rightarrow> u32 option) \<Rightarrow> string \<Rightarrow> (string \<times> string list) list \<Rightarrow> backup \<Rightarrow> bool
     \<Rightarrow> os_error + (bool \<times> backup)"
where
  "add_new_service_snapshots ifindex expected [] b added = Inr (added, b)"
| "add_new_service_snapshots ifindex expected ((name, servers) # rest) b added =
     (if find_service b name \<noteq> None then add_new_service_snapshots ifindex expected rest b added
      else if expected \<in> set servers \<or> dns_may_depend_on_takeover ifindex b name servers
      then Inl (Refused name)
      else add_new_service_snapshots ifindex expected rest
             (b\<lparr>bk_services := bk_services b @ [\<lparr>sd_name = name, sd_servers = servers\<rparr>]\<rparr>) True)"

definition note_takeover :: "ip_addr \<Rightarrow> bool \<times> backup \<Rightarrow> bool \<times> backup" where
  "note_takeover server = (\<lambda>(changed, b).
     case bk_takeovers b of
       Some takeovers \<Rightarrow>
         if server \<notin> set takeovers then (True, b\<lparr>bk_takeovers := Some (takeovers @ [server])\<rparr>) else (changed, b)
     | None \<Rightarrow> (changed, b))"

definition prepare_watchdog_backup ::
  "(string \<Rightarrow> u32 option) \<Rightarrow> backup \<Rightarrow> (string \<times> string list) list \<Rightarrow> ip_addr
     \<Rightarrow> (backup \<Rightarrow> ('o, unit) io) \<Rightarrow> ('o, backup) io"
where
  "prepare_watchdog_backup ifindex b snapshots server persist =
     (case add_new_service_snapshots ifindex (show_ip server) snapshots b False of
        Inl e \<Rightarrow> io_fail e
      | Inr r \<Rightarrow>
          (case note_takeover server r of
             (changed, b) \<Rightarrow>
               io_bind (if changed then persist b else io_return ()) (\<lambda>_. io_return b)))"

definition service_dns_snapshot :: "'o dns_host \<Rightarrow> ('o, (string \<times> string list) list) io" where
  "service_dns_snapshot d =
     io_bind (read_backup d) (\<lambda>b.
     io_bind (list_all_services d) (\<lambda>all.
       io_each (\<lambda>service. io_bind (get_dns_servers d (sd_name service)) (\<lambda>servers.
           io_return (sd_name service, servers)))
         (filter (\<lambda>service. sd_name service \<in> set all) (bk_services b))))"

definition services_needing_reassert :: "(string \<times> string list) list \<Rightarrow> string \<Rightarrow> string list" where
  "services_needing_reassert current server =
     map fst (filter (\<lambda>(_, servers). servers \<noteq> [server]) current)"

definition usable_runtime_fallback :: "socket_addr list \<Rightarrow> ip_addr \<Rightarrow> os_error + socket_addr list" where
  "usable_runtime_fallback current server =
     (let usable = filter_fallback_servers current [server] in
      if usable = [] then Inl (Refused ''no non-loopback global DNS server'') else Inr usable)"

definition capture_runtime_fallback :: "'o dns_host \<Rightarrow> ip_addr \<Rightarrow> ('o, socket_addr list) io" where
  "capture_runtime_fallback d server =
     io_bind (effective_dns_servers d) (\<lambda>current. io_of (usable_runtime_fallback current server))"

text \<open>Pointing the drifted services at the takeover address again; the errors met.\<close>

fun reassert_services :: "'o dns_host \<Rightarrow> string \<Rightarrow> string list \<Rightarrow> ('o, os_error list) io" where
  "reassert_services d expected [] = io_return []"
| "reassert_services d expected (name # names) =
     io_bind (io_try (set_dns_servers d name [expected])) (\<lambda>r.
     io_bind (reassert_services d expected names) (\<lambda>errors.
       io_return ((case r of Inl e \<Rightarrow> [e] | Inr _ \<Rightarrow> []) @ errors)))"

definition tick_new_services :: "'o dns_host \<Rightarrow> backup \<Rightarrow> ('o, (string \<times> string list) list) io" where
  "tick_new_services d b =
     io_bind (list_services d) (\<lambda>names.
       io_each (\<lambda>name. io_bind (get_dns_servers d name) (\<lambda>servers. io_return (name, servers)))
         (filter (\<lambda>name. name \<notin> sd_name ` set (bk_services b)) names))"

definition tick_reassert :: "'o dns_host \<Rightarrow> ip_addr \<Rightarrow> ('o, tick_outcome) io" where
  "tick_reassert d server =
     io_bind (service_dns_snapshot d) (\<lambda>current.
       let drifted = services_needing_reassert current (show_ip server) in
     io_bind (io_try (capture_runtime_fallback d server)) (\<lambda>capture.
       if drifted = [] then
         io_return (case capture of Inr servers \<Rightarrow> Clean (Some servers) None | Inl e \<Rightarrow> Clean None (Some e))
       else
     io_bind (reassert_services d (show_ip server) drifted) (\<lambda>errors.
     io_bind (flush_caches d) (\<lambda>_.
       if errors \<noteq> [] then io_fail (Several errors)
       else io_return (case capture of
              Inr servers \<Rightarrow> Reasserted drifted servers None
            | Inl e \<Rightarrow> Reasserted drifted [] (Some e))))))"

definition watchdog_tick :: "'o dns_host \<Rightarrow> ip_addr \<Rightarrow> ('o, tick_outcome) io" where
  "watchdog_tick d server =
     io_bind (lock d) (\<lambda>_.
     io_bind (io_check (\<lambda>os. backup_exists d os \<and> marker_exists d os)) (\<lambda>active.
       if \<not> active then io_return NotActive
       else
     io_bind (read_backup d) (\<lambda>b.
     io_bind (tick_new_services d b) (\<lambda>new_services.
     io_bind (prepare_watchdog_backup (dh_ifindex d) b new_services server (write_backup d)) (\<lambda>_.
       tick_reassert d server)))))"

section \<open>Verification\<close>

fun takeover_intact_loop ::
  "(string \<Rightarrow> u32 option) \<Rightarrow> backup \<Rightarrow> string \<Rightarrow> string list \<Rightarrow> (string \<Rightarrow> ('o, string list) io)
     \<Rightarrow> string list \<Rightarrow> bool \<Rightarrow> ('o, bool) io"
where
  "takeover_intact_loop ifindex b expected enabled get_dns [] checked = io_return checked"
| "takeover_intact_loop ifindex b expected enabled get_dns (name # names) checked =
     io_bind (get_dns name) (\<lambda>servers.
       if find_service b name \<noteq> None \<or> name \<in> set enabled \<or> dns_may_depend_on_takeover ifindex b name servers
       then (if servers \<noteq> [expected] then io_return False
             else takeover_intact_loop ifindex b expected enabled get_dns names True)
       else takeover_intact_loop ifindex b expected enabled get_dns names checked)"

definition takeover_intact_with ::
  "(string \<Rightarrow> u32 option) \<Rightarrow> backup \<Rightarrow> string \<Rightarrow> string list \<Rightarrow> ('o, string list) io
     \<Rightarrow> (string \<Rightarrow> ('o, string list) io) \<Rightarrow> ('o, bool) io"
where
  "takeover_intact_with ifindex b expected enabled listing get_dns =
     io_bind listing (\<lambda>names. takeover_intact_loop ifindex b expected enabled get_dns names False)"

definition takeover_intact :: "'o dns_host \<Rightarrow> ip_addr \<Rightarrow> ('o, bool) io" where
  "takeover_intact d server =
     io_bind (read_backup d) (\<lambda>b.
     io_bind (list_services d) (\<lambda>enabled.
       takeover_intact_with (dh_ifindex d) b (show_ip server) enabled (list_all_services d) (get_dns_servers d)))"

end
