(* ===== verification/Dns_Machine.thy ===== *)
theory Dns_Machine
  imports Takeover
begin

text \<open>
  What the transactions of theory Takeover do to a machine.  The locale \<open>dns_machine\<close> states
  what the system tools and the file system are documented to do; everything may fail at any
  call, and a machine on which everything fails from some call on is one where the program
  crashed there, so the lemmas also cover crashes.  A reference machine shows the contract can
  be met.
\<close>

section \<open>The machine\<close>

record machine =
  mc_enabled :: "string list"
  mc_services :: "string list"
  mc_dns :: "string \<Rightarrow> string list"
  mc_files :: "string \<rightharpoonup> string"

definition set_argument :: "string list \<Rightarrow> string list" where
  "set_argument args = (if args = [''Empty''] then [] else args)"

definition answered :: "string + cmd_output \<Rightarrow> string \<Rightarrow> bool" where
  "answered r text \<longleftrightarrow> (\<exists>out. r = Inr out \<and> out_success out \<and> out_utf8 out \<and> out_stdout out = text)"

section \<open>States of a takeover\<close>

text \<open>
  \<open>recorded\<close>: the backup on disk holds the settings every enabled service had \<open>before\<close>.
  \<open>recoverable\<close>: nothing was changed, or the settings are recorded and only the takeover address
  has been set anywhere.  \<open>taken_over\<close>: exactly the services enabled before point at it.
\<close>

definition backed_by :: "'o dns_host \<Rightarrow> ('o \<Rightarrow> machine) \<Rightarrow> backup \<Rightarrow> 'o \<Rightarrow> bool" where
  "backed_by d view b os \<longleftrightarrow> (\<exists>t. mc_files (view os) BACKUP_PATH = Some t \<and> dh_decode d t = Inr b)"

definition recorded :: "'o dns_host \<Rightarrow> ('o \<Rightarrow> machine) \<Rightarrow> machine \<Rightarrow> ip_addr \<Rightarrow> 'o \<Rightarrow> bool" where
  "recorded d view before server os \<longleftrightarrow>
     (\<exists>b. backed_by d view b os \<and> bk_version b = 2 \<and> bk_takeovers b = Some [server]
        \<and> bk_services b = map (\<lambda>n. \<lparr>sd_name = n, sd_servers = mc_dns before n\<rparr>) (mc_enabled before))"

definition recoverable :: "'o dns_host \<Rightarrow> ('o \<Rightarrow> machine) \<Rightarrow> machine \<Rightarrow> ip_addr \<Rightarrow> 'o \<Rightarrow> bool" where
  "recoverable d view before server os \<longleftrightarrow>
     mc_dns (view os) = mc_dns before \<or>
     (recorded d view before server os
        \<and> (\<forall>s. mc_dns (view os) s = mc_dns before s \<or> mc_dns (view os) s = [show_ip server]))"

definition taken_over :: "'o dns_host \<Rightarrow> ('o \<Rightarrow> machine) \<Rightarrow> machine \<Rightarrow> ip_addr \<Rightarrow> 'o \<Rightarrow> bool" where
  "taken_over d view before server os \<longleftrightarrow> recorded d view before server os
     \<and> mc_files (view os) MARKER_PATH \<noteq> None \<and> mc_enabled before \<noteq> []
     \<and> (\<forall>s. mc_dns (view os) s = (if s \<in> set (mc_enabled before) then [show_ip server] else mc_dns before s))"

text \<open>The backup grew by true snapshots of services it did not name.\<close>

definition grown :: "backup \<Rightarrow> backup \<Rightarrow> machine \<Rightarrow> bool" where
  "grown b b' m \<longleftrightarrow> (\<exists>new. bk_services b' = bk_services b @ new
     \<and> (\<forall>x \<in> set new. sd_name x \<notin> sd_name ` set (bk_services b) \<and> sd_servers x = mc_dns m (sd_name x)))"

section \<open>The contract\<close>

locale dns_machine =
  fixes d :: "'o dns_host" and view :: "'o \<Rightarrow> machine"
  assumes is_file: "h_is_file (dh_host d) p os \<longleftrightarrow> mc_files (view os) p \<noteq> None"
    and read: "h_read (dh_host d) p os = Inr t \<Longrightarrow> mc_files (view os) p = Some t"
    and install: "h_install (dh_host d) p t os = (e, os') \<Longrightarrow>
          view os' = (view os)\<lparr>mc_files := (mc_files (view os))(p \<mapsto> t)\<rparr> \<or> (e \<noteq> None \<and> view os' = view os)"
    and remove: "h_remove (dh_host d) p os = (re, os') \<Longrightarrow>
          view os' = (if re = None then (view os)\<lparr>mc_files := (mc_files (view os))(p := None)\<rparr> else view os)"
    and remove_absent: "h_remove (dh_host d) p os = (Some NotFound, os') \<Longrightarrow> mc_files (view os) p = None"
    and touch: "h_touch (dh_host d) p os = (e, os') \<Longrightarrow>
          view os' = (view os)\<lparr>mc_files := (mc_files (view os))(p \<mapsto> [])\<rparr> \<or> (e \<noteq> None \<and> view os' = view os)"
    and lock_file: "h_lock (dh_host d) p os = (e, os') \<Longrightarrow>
          view os' = view os \<or> view os' = (view os)\<lparr>mc_files := (mc_files (view os))(p \<mapsto> [])\<rparr>"
    and run_list: "h_run (dh_host d) NETWORKSETUP [''-listallnetworkservices''] os = (r, os') \<Longrightarrow>
          view os' = view os \<and> (\<forall>text. answered r text \<longrightarrow>
            parse_services text = mc_enabled (view os) \<and> parse_all_services text = mc_services (view os))"
    and run_get: "h_run (dh_host d) NETWORKSETUP [''-getdnsservers'', s] os = (r, os') \<Longrightarrow>
          view os' = view os \<and> (\<forall>text servers. answered r text \<longrightarrow>
            parse_dns_servers (dh_ifindex d) text = Some servers \<longrightarrow> servers = mc_dns (view os) s)"
    and run_set: "h_run (dh_host d) NETWORKSETUP ([''-setdnsservers'', s] @ args) os = (r, os') \<Longrightarrow>
          view os' = (if \<exists>out. r = Inr out \<and> out_success out
            then (view os)\<lparr>mc_dns := (mc_dns (view os))(s := set_argument args)\<rparr> else view os)"
    and run_other: "program \<noteq> NETWORKSETUP \<Longrightarrow> h_run (dh_host d) program args os = (r, os') \<Longrightarrow> view os' = view os"
    and codec: "dh_encode d b = Inr t \<Longrightarrow> dh_decode d t = Inr b"
    and dns_not_Empty: "mc_dns (view os) s \<noteq> [''Empty'']"
begin

abbreviation "backup_file os \<equiv> mc_files (view os) BACKUP_PATH"

text \<open>Code that leaves the view alone.\<close>

definition quiet :: "('o, 'a) io \<Rightarrow> bool" where
  "quiet m \<longleftrightarrow> (\<forall>os. view (snd (m os)) = view os)"

lemma quietD: "quiet m \<Longrightarrow> m os = (r, os') \<Longrightarrow> view os' = view os"
  unfolding quiet_def by (metis snd_conv)

lemma quietI: "(\<And>os r os'. m os = (r, os') \<Longrightarrow> view os' = view os) \<Longrightarrow> quiet m"
  unfolding quiet_def by (metis prod.collapse)

lemma quiet_bind: "quiet m \<Longrightarrow> (\<And>x. quiet (f x)) \<Longrightarrow> quiet (io_bind m f)"
proof (rule quietI)
  fix os r os'
  assume m: "quiet m" and f: "\<And>x. quiet (f x)" and b: "io_bind m f os = (r, os')"
  obtain q os1 where q: "m os = (q, os1)" by fastforce
  with m have v: "view os1 = view os" by (rule quietD)
  show "view os' = view os"
  proof (cases q)
    case (Inr x)
    with b q have "f x os1 = (r, os')" by (simp add: io_bind_def)
    then show ?thesis using quietD [OF f [of x]] v by simp
  qed (use b q v in \<open>simp add: io_bind_def\<close>)
qed

lemma quiet_simps [simp]: "quiet (io_return x)" "quiet (io_fail e)" "quiet (io_check f)" "quiet (io_of r)"
  by (simp_all add: quiet_def io_defs io_of_def)

lemma quiet_try [simp]: "quiet m \<Longrightarrow> quiet (io_try m)"
  by (rule quietI) (auto simp: io_try_def dest: quietD split: prod.splits)

lemma quiet_each: "(\<And>x. quiet (f x)) \<Longrightarrow> quiet (io_each f xs)"
  by (induction xs) (simp_all add: quiet_bind)

lemma quiet_run_list: "quiet (run_program (dh_host d) NETWORKSETUP [''-listallnetworkservices''])"
  using run_list by (intro quietI) (auto simp: run_program_def split: prod.splits sum.splits)

lemma quiet_run_get: "quiet (run_program (dh_host d) NETWORKSETUP [''-getdnsservers'', s])"
  using run_get by (intro quietI) (auto simp: run_program_def split: prod.splits sum.splits)

lemma quiet_run_other: "program \<noteq> NETWORKSETUP \<Longrightarrow> quiet (run_program (dh_host d) program args)"
  using run_other by (intro quietI) (auto simp: run_program_def split: prod.splits sum.splits)

lemma quiet_lists [simp]: "quiet (list_services d)" "quiet (list_all_services d)"
  unfolding list_services_def list_all_services_def by (intro quiet_bind quiet_run_list quiet_simps)+

lemma quiet_get [simp]: "quiet (get_dns_servers d s)"
  unfolding get_dns_servers_def
  by (intro quiet_bind quiet_run_get quiet_simps) (simp split: option.split)

lemma quiet_flush [simp]: "quiet (flush_caches d)"
  unfolding flush_caches_def
  by (intro quiet_bind quiet_try quiet_run_other quiet_simps) (simp_all add: NETWORKSETUP_def)

lemma quiet_effective [simp]: "quiet (effective_dns_servers d)" "quiet (capture_runtime_fallback d server)"
  unfolding effective_dns_servers_def capture_runtime_fallback_def
  by (intro quiet_bind quiet_run_other quiet_simps; simp add: NETWORKSETUP_def SCUTIL_def)+

lemma quiet_read_backup [simp]: "quiet (read_backup d)"
  unfolding read_backup_def
  by (intro quiet_bind quiet_simps) (simp add: quiet_def read_file_def)

text \<open>The lock file is the only thing taking the lock may create.\<close>

lemma lock_paths [simp]: "BACKUP_PATH \<noteq> LOCK_PATH" "MARKER_PATH \<noteq> LOCK_PATH" "BACKUP_PATH \<noteq> MARKER_PATH"
  "MARKER_PATH \<noteq> BACKUP_PATH" "LOCK_PATH \<noteq> BACKUP_PATH" "LOCK_PATH \<noteq> MARKER_PATH"
  by (simp_all add: BACKUP_PATH_def LOCK_PATH_def MARKER_PATH_def)

lemma lock_view:
  "lock d os = (r, os') \<Longrightarrow> mc_dns (view os') = mc_dns (view os) \<and> mc_enabled (view os') = mc_enabled (view os)
     \<and> mc_services (view os') = mc_services (view os) \<and> (\<forall>p. p \<noteq> LOCK_PATH \<longrightarrow> mc_files (view os') p = mc_files (view os) p)"
  using lock_file [of LOCK_PATH os]
  by (cases "h_lock (dh_host d) LOCK_PATH os")
     (auto simp: lock_def acquire_lock_def split: option.splits)

text \<open>What reading tells of the view.\<close>

lemma list_services_enabled: "list_services d os = (Inr names, os') \<Longrightarrow> names = mc_enabled (view os)"
  using run_list [of os]
  by (auto simp: list_services_def io_bind_Inr run_program_def io_return_def io_of_def output_text_def
      answered_def split: prod.splits sum.splits if_splits)

lemma list_all_services_all: "list_all_services d os = (Inr names, os') \<Longrightarrow> names = mc_services (view os)"
  using run_list [of os]
  by (auto simp: list_all_services_def io_bind_Inr run_program_def io_return_def io_of_def output_text_def
      answered_def split: prod.splits sum.splits if_splits)

lemma get_dns_servers_dns: "get_dns_servers d s os = (Inr servers, os') \<Longrightarrow> servers = mc_dns (view os) s"
  using run_get [of s os]
  by (auto simp: get_dns_servers_def io_bind_Inr run_program_def io_return_def io_fail_def io_of_def
      output_text_def answered_def split: prod.splits sum.splits if_splits option.splits)

lemma read_backup_file:
  "read_backup d os = (Inr b, os') \<Longrightarrow> \<exists>t. backup_file os = Some t \<and> dh_decode d t = Inr b"
  by (auto simp: read_backup_def io_bind_Inr read_file_def io_of_def dest!: read)

text \<open>Setting the servers of one service, which may fail.\<close>

lemma set_dns_servers_view:
  assumes "set_dns_servers d s servers os = (r, os')"
  shows "view os' = (if isl r then view os
                     else (view os)\<lparr>mc_dns := (mc_dns (view os))(s := set_argument servers)\<rparr>)"
proof -
  obtain q os1 where q: "h_run (dh_host d) NETWORKSETUP (set_dns_args s servers) os = (q, os1)" by fastforce
  have args: "set_argument (if servers = [] then [''Empty''] else servers) = set_argument servers"
    by (simp add: set_argument_def)
  have v: "view os1 = (if \<exists>out. q = Inr out \<and> out_success out
      then (view os)\<lparr>mc_dns := (mc_dns (view os))(s := set_argument servers)\<rparr> else view os)"
    using run_set [OF q [unfolded set_dns_args_def]] by (simp only: args)
  show ?thesis
    using assms q v
    by (cases q) (auto simp: set_dns_servers_def io_bind_def run_program_def io_return_def io_fail_def
        split: if_splits)
qed

lemma write_backup_view:
  assumes "write_backup d b os = (r, os')"
  shows "view os' = view os \<and> isl r \<or>
     (\<exists>t. dh_decode d t = Inr b \<and> view os' = (view os)\<lparr>mc_files := (mc_files (view os))(BACKUP_PATH \<mapsto> t)\<rparr>)"
proof (cases "dh_encode d b")
  case (Inl e)
  with assms show ?thesis by (auto simp: write_backup_def io_bind_def io_of_def)
next
  case (Inr t)
  obtain e os1 where i: "h_install (dh_host d) BACKUP_PATH t os = (e, os1)" by fastforce
  from install [OF i] codec [OF Inr] show ?thesis
    using assms Inr i by (cases e) (auto simp: write_backup_def io_bind_def io_of_def install_file_def)
qed

lemma remove_file_view:
  assumes "remove_file (dh_host d) p os = (r, os')"
  shows "view os' = (if isl r then view os else (view os)\<lparr>mc_files := (mc_files (view os))(p := None)\<rparr>)"
proof -
  obtain e os1 where e: "h_remove (dh_host d) p os = (e, os1)" by fastforce
  from remove [OF this] assms e show ?thesis
    by (auto simp: remove_file_def split: option.splits remove_error.splits)
qed

lemma create_marker_view:
  assumes "create_marker d os = (r, os')"
  shows "view os' = (view os)\<lparr>mc_files := (mc_files (view os))(MARKER_PATH \<mapsto> [])\<rparr>
     \<or> (isl r \<and> view os' = view os)"
proof -
  obtain e os1 where e: "h_touch (dh_host d) MARKER_PATH os = (e, os1)" by fastforce
  from touch [OF this] assms e show ?thesis
    by (auto simp: create_marker_def touch_file_def split: option.splits)
qed

lemma remove_marker_view:
  assumes "remove_marker d os = (r, os')"
  shows "mc_dns (view os') = mc_dns (view os) \<and> mc_enabled (view os') = mc_enabled (view os)
     \<and> mc_services (view os') = mc_services (view os)
     \<and> (\<forall>p. p \<noteq> MARKER_PATH \<longrightarrow> mc_files (view os') p = mc_files (view os) p)
     \<and> (\<not> isl r \<longrightarrow> mc_files (view os') MARKER_PATH = None)"
proof -
  obtain e os1 where e: "h_remove (dh_host d) MARKER_PATH os = (e, os1)" by fastforce
  from remove [OF e] remove_absent [of MARKER_PATH os os1] assms e show ?thesis
    by (auto simp: remove_marker_def remove_if_present_def split: option.splits remove_error.splits if_splits)
qed

section \<open>Taking over\<close>

definition records :: "backup \<Rightarrow> (string \<Rightarrow> string list) \<Rightarrow> string list \<Rightarrow> bool" where
  "records b orig names \<longleftrightarrow> (\<forall>n \<in> set names. find_service b n = Some \<lparr>sd_name = n, sd_servers = orig n\<rparr>)"

lemma snapshot_services_spec:
  assumes "snapshot_services d server names fallback services os = (r, os')"
  shows "view os' = view os \<and>
     (\<forall>fb svcs. r = Inr (fb, svcs) \<longrightarrow>
        svcs = services @ map (\<lambda>n. \<lparr>sd_name = n, sd_servers = mc_dns (view os) n\<rparr>) names
        \<and> (\<forall>n \<in> set names. show_ip server \<notin> set (mc_dns (view os) n)))"
  using assms
proof (induction names arbitrary: fallback services os)
  case (Cons n names)
  obtain q os1 where q: "get_dns_servers d n os = (q, os1)" by fastforce
  have v: "view os1 = view os" using quietD [OF quiet_get q] .
  show ?case
  proof (cases q)
    case (Inr servers)
    then have s: "servers = mc_dns (view os) n" using get_dns_servers_dns q by blast
    show ?thesis
    proof (cases "show_ip server \<in> set servers")
      case True
      then show ?thesis using Cons.prems q Inr v by (auto simp: io_bind_def io_fail_def Let_def)
    next
      case False
      then have "snapshot_services d server names (fallback @ List.map_filter
          (\<lambda>value. case parse_dns_socket (dh_ifindex d) value of Inr a \<Rightarrow> Some a | Inl _ \<Rightarrow> None) servers)
          (services @ [\<lparr>sd_name = n, sd_servers = servers\<rparr>]) os1 = (r, os')"
        using Cons.prems q Inr by (simp add: io_bind_def Let_def)
      from Cons.IH [OF this] v s False show ?thesis by auto
    qed
  qed (use Cons.prems q v in \<open>auto simp: io_bind_def\<close>)
qed (auto simp: io_return_def)

lemma rollback_loop_spec:
  assumes "rollback_loop d b names ok os = (r, os')" "records b orig names" "\<forall>s. orig s \<noteq> [''Empty'']"
  shows "\<exists>ok'. r = Inr ok' \<and> (ok' \<longrightarrow> ok)
     \<and> mc_files (view os') = mc_files (view os) \<and> mc_enabled (view os') = mc_enabled (view os)
     \<and> mc_services (view os') = mc_services (view os)
     \<and> (\<forall>s. s \<in> set names \<and> ok' \<longrightarrow> mc_dns (view os') s = orig s)
     \<and> (\<forall>s. mc_dns (view os') s = mc_dns (view os) s \<or> (s \<in> set names \<and> mc_dns (view os') s = orig s))"
  using assms(1,2)
proof (induction names arbitrary: ok os)
  case (Cons n names)
  have f: "find_service b n = Some \<lparr>sd_name = n, sd_servers = orig n\<rparr>" and rec: "records b orig names"
    using Cons.prems(2) by (simp_all add: records_def)
  obtain q os1 where q: "set_dns_servers d n (orig n) os = (q, os1)" by fastforce
  have step: "rollback_loop d b names (ok \<and> \<not> isl q) os1 = (r, os')"
    using Cons.prems(1) f q by (simp add: io_bind_def io_try_def)
  have arg: "set_argument (orig n) = orig n" using assms(3) by (simp add: set_argument_def)
  note V = set_dns_servers_view [OF q, unfolded arg]
  from Cons.IH [OF step rec] obtain ok' where IH: "r = Inr ok'" "ok' \<longrightarrow> ok \<and> \<not> isl q"
    "mc_files (view os') = mc_files (view os1)" "mc_enabled (view os') = mc_enabled (view os1)"
    "mc_services (view os') = mc_services (view os1)"
    "\<forall>s. s \<in> set names \<and> ok' \<longrightarrow> mc_dns (view os') s = orig s"
    "\<forall>s. mc_dns (view os') s = mc_dns (view os1) s \<or> (s \<in> set names \<and> mc_dns (view os') s = orig s)"
    by metis
  have "mc_dns (view os') n = orig n" if ok'
    using IH(2,7) that V by (auto split: if_splits)
  with IH V show ?case by (intro exI [of _ ok']) (auto split: if_splits)
qed (auto simp: io_return_def)

lemma rollback_spec:
  assumes "rollback d b changed os = (r, os')" "records b orig changed" "\<forall>s. orig s \<noteq> [''Empty'']"
    and "\<forall>s. mc_dns (view os) s = (if s \<in> set changed then x else orig s)"
  shows "\<exists>ok. r = Inr ok \<and> mc_files (view os') = mc_files (view os)
     \<and> mc_enabled (view os') = mc_enabled (view os) \<and> mc_services (view os') = mc_services (view os)
     \<and> (\<forall>s. mc_dns (view os') s = orig s \<or> mc_dns (view os') s = x) \<and> (ok \<longrightarrow> mc_dns (view os') = orig)"
proof -
  obtain q os1 where q: "rollback_loop d b (rev changed) True os = (q, os1)" by fastforce
  have "records b orig (rev changed)" using assms(2) by (simp add: records_def)
  from rollback_loop_spec [OF q this assms(3)] obtain ok where L: "q = Inr ok"
    "mc_files (view os1) = mc_files (view os)" "mc_enabled (view os1) = mc_enabled (view os)"
    "mc_services (view os1) = mc_services (view os)"
    "\<forall>s. s \<in> set changed \<and> ok \<longrightarrow> mc_dns (view os1) s = orig s"
    "\<forall>s. mc_dns (view os1) s = mc_dns (view os) s \<or> (s \<in> set changed \<and> mc_dns (view os1) s = orig s)"
    by auto
  obtain f os2 where f: "flush_caches d os1 = (f, os2)" by fastforce
  have f_ok: "\<not> isl f" using f by (auto simp: flush_caches_def io_bind_def io_try_def io_return_def split: prod.splits)
  have v: "view os2 = view os1" using quietD [OF quiet_flush f] .
  have out: "r = Inr ok \<and> os' = os2"
    using assms(1) q f f_ok L(1) by (cases f) (auto simp: rollback_def io_bind_def io_return_def)
  have "mc_dns (view os1) s = orig s" if ok for s
    using that L(5,6) assms(4) by metis
  moreover have "mc_dns (view os1) s = orig s \<or> mc_dns (view os1) s = x" for s
    using L(6) assms(4) by metis
  ultimately show ?thesis using out L(2-4) v by auto
qed

lemma switch_services_spec:
  assumes "switch_services d server b svcs changed os = (r, os')"
    and "records b orig (changed @ map sd_name svcs)" "\<forall>s. orig s \<noteq> [''Empty'']"
    and "show_ip server \<noteq> ''Empty''"
    and "\<forall>s. mc_dns (view os) s = (if s \<in> set changed then [show_ip server] else orig s)"
  shows "mc_enabled (view os') = mc_enabled (view os) \<and> mc_services (view os') = mc_services (view os)
     \<and> (\<forall>p. p \<noteq> BACKUP_PATH \<longrightarrow> mc_files (view os') p = mc_files (view os) p)
     \<and> (\<not> isl r \<longrightarrow> backup_file os' = backup_file os
          \<and> (\<forall>s. mc_dns (view os') s = (if s \<in> set changed \<union> sd_name ` set svcs then [show_ip server] else orig s)))
     \<and> (isl r \<longrightarrow> (\<forall>s. mc_dns (view os') s = orig s \<or> mc_dns (view os') s = [show_ip server])
          \<and> (backup_file os' = backup_file os \<or> mc_dns (view os') = orig))"
  using assms(1,2,5)
proof (induction svcs arbitrary: changed os)
  case (Cons service svcs)
  obtain q os1 where q: "set_dns_servers d (sd_name service) [show_ip server] os = (q, os1)" by fastforce
  have "set_argument [show_ip server] = [show_ip server]" using assms(4) by (simp add: set_argument_def)
  note V = set_dns_servers_view [OF q, unfolded this]
  show ?case
  proof (cases q)
    case (Inr u)
    have "switch_services d server b svcs (changed @ [sd_name service]) os1 = (r, os')"
      using Cons.prems(1) q Inr by (simp add: io_bind_def io_try_def)
    from Cons.IH [OF this] Cons.prems(2,3) V Inr show ?thesis
      by (auto simp: insert_commute Un_insert_left)
  next
    case (Inl e)
    then have v: "view os1 = view os" using V by simp
    obtain k os2 where k: "rollback d b changed os1 = (k, os2)" by fastforce
    have "records b orig changed" using Cons.prems(2) by (simp add: records_def)
    from rollback_spec [OF k this assms(3), of "[show_ip server]"] Cons.prems(3) v obtain ok where
      R: "k = Inr ok" "mc_files (view os2) = mc_files (view os)" "mc_enabled (view os2) = mc_enabled (view os)"
        "mc_services (view os2) = mc_services (view os)"
        "\<forall>s. mc_dns (view os2) s = orig s \<or> mc_dns (view os2) s = [show_ip server]"
        "ok \<longrightarrow> mc_dns (view os2) = orig" by auto
    obtain f os3 where f: "remove_file (dh_host d) BACKUP_PATH os2 = (f, os3)" by fastforce
    have out: "isl r \<and> os' = (if ok then os3 else os2)"
      using Cons.prems(1) q Inl k R(1) f by (auto simp: io_bind_def io_try_def io_fail_def io_return_def split: if_splits)
    show ?thesis using out R remove_file_view [OF f] by (auto split: if_splits)
  qed
qed (auto simp: io_return_def)

lemma recoverable_same: "mc_dns (view os) = mc_dns before \<Longrightarrow> recoverable d view before server os"
  by (simp add: recoverable_def)

lemma recoverable_cong:
  assumes "mc_dns before = mc_dns before'" "mc_enabled before = mc_enabled before'"
  shows "recoverable d view before server os = recoverable d view before' server os"
    "taken_over d view before server os = taken_over d view before' server os"
  by (simp_all add: recoverable_def taken_over_def recorded_def assms)

lemma records_snapshot:
  "records \<lparr>bk_version = v, bk_services = map (\<lambda>n. \<lparr>sd_name = n, sd_servers = orig n\<rparr>) names,
            bk_fallback = f, bk_takeovers = t\<rparr> orig names"
proof -
  have "find (\<lambda>service. sd_name service = n) (map (\<lambda>n. \<lparr>sd_name = n, sd_servers = orig n\<rparr>) names)
      = Some \<lparr>sd_name = n, sd_servers = orig n\<rparr>" if "n \<in> set names" for n
    using that by (induction names) auto
  then show ?thesis by (simp add: records_def find_service_def)
qed

text \<open>The part of \<open>take_over\<close> that writes, from the snapshot on.\<close>

lemma take_over_commit:
  assumes b: "b = \<lparr>bk_version = 2, bk_services = map (\<lambda>n. \<lparr>sd_name = n, sd_servers = mc_dns (view os) n\<rparr>) (mc_enabled (view os)),
                   bk_fallback = fb, bk_takeovers = Some [server]\<rparr>"
    and go: "io_bind (write_backup d b) (\<lambda>_. io_bind (switch_services d server b (bk_services b) []) (\<lambda>_.
        io_bind (create_marker d) (\<lambda>_. io_bind (flush_caches d) (\<lambda>_. io_return ())))) os = (r, os')"
    and some: "mc_enabled (view os) \<noteq> []" and addr: "show_ip server \<noteq> ''Empty''"
  shows "recoverable d view (view os) server os' \<and> (\<not> isl r \<longrightarrow> taken_over d view (view os) server os')"
  using go
proof (cases rule: io_bindE)
  case (error e)
  then show ?thesis using write_backup_view [OF error(1)] by (auto simp: recoverable_def)
next
  case (step u os1)
  from write_backup_view [OF step(1)] obtain t where t: "dh_decode d t = Inr b"
    "view os1 = (view os)\<lparr>mc_files := (mc_files (view os))(BACKUP_PATH \<mapsto> t)\<rparr>" by auto
  have rec: "records b (mc_dns (view os)) ([] @ map sd_name (bk_services b))"
    using records_snapshot by (simp add: b comp_def)
  have names: "sd_name ` set (bk_services b) = set (mc_enabled (view os))" by (force simp: b)
  have kept: "recoverable d view (view os) server os2"
    if "backup_file os2 = Some t" "\<forall>s. mc_dns (view os2) s = mc_dns (view os) s \<or> mc_dns (view os2) s = [show_ip server]"
    for os2 using that t(1) by (simp add: recoverable_def recorded_def backed_by_def b)
  from step(2) show ?thesis
  proof (cases rule: io_bindE)
    case (error e)
    from switch_services_spec [OF error(1) rec _ addr] t(2) dns_not_Empty
    have E: "\<forall>s. mc_dns (view os') s = mc_dns (view os) s \<or> mc_dns (view os') s = [show_ip server]"
      "mc_dns (view os') \<noteq> mc_dns (view os) \<Longrightarrow> backup_file os' = Some t" by auto
    have "recoverable d view (view os) server os'"
      by (cases "mc_dns (view os') = mc_dns (view os)") (use E in \<open>auto intro: recoverable_same kept\<close>)
    with error(2) show ?thesis by simp
  next
    case (step u os2)
    from switch_services_spec [OF step(1) rec _ addr] t(2) dns_not_Empty names
    have S: "backup_file os2 = Some t"
      "\<forall>s. mc_dns (view os2) s = (if s \<in> set (mc_enabled (view os)) then [show_ip server] else mc_dns (view os) s)"
      by simp_all
    from step(2) show ?thesis
    proof (cases rule: io_bindE)
      case (error e)
      with create_marker_view [OF error(1)] S show ?thesis by (auto intro!: kept)
    next
      case (step u os3)
      have S3: "backup_file os3 = Some t" "mc_files (view os3) MARKER_PATH \<noteq> None \<or> isl (Inr u :: os_error + unit)"
        "\<forall>s. mc_dns (view os3) s = (if s \<in> set (mc_enabled (view os)) then [show_ip server] else mc_dns (view os) s)"
        using create_marker_view [OF step(1)] S by auto
      have v: "view os' = view os3"
        using step(2) by (cases rule: io_bindE) (auto simp: io_return_def dest: quietD [OF quiet_flush])
      have "recoverable d view (view os) server os'" using S3 v by (intro kept) auto
      moreover have "recorded d view (view os) server os'" using S3(1) v t(1) by (simp add: recorded_def backed_by_def b)
      ultimately show ?thesis using S3 v some by (auto simp: taken_over_def)
    qed
  qed
qed

lemma take_over_spec:
  assumes go: "take_over d server os = (r, os')" and addr: "show_ip server \<noteq> ''Empty''"
  shows "recoverable d view (view os) server os' \<and> (\<not> isl r \<longrightarrow> taken_over d view (view os) server os')"
  using go [unfolded take_over_def]
proof (cases rule: io_bindE)
  case (error e)
  then show ?thesis using lock_view by (auto simp: recoverable_def)
next
  case (step u os1)
  note L = lock_view [OF step(1)]
  have still: "recoverable d view (view os) server os2" if "view os2 = view os1" for os2
    using that L by (simp add: recoverable_def)
  from step(2) show ?thesis
  proof (cases rule: io_bindE)
    case (step exists os2)
    then have os2: "os2 = os1" by (simp add: io_check_def)
    show ?thesis
    proof (cases exists)
      case True
      with step(2) os2 still show ?thesis by (auto simp: io_fail_def)
    next
      case False
      with step(2) os2 have "io_bind (io_try (effective_dns_servers d)) (\<lambda>effective.
          io_bind (list_services d) (\<lambda>names.
          io_bind (snapshot_services d server names (case effective of Inr servers \<Rightarrow> servers | Inl _ \<Rightarrow> []) [])
            (\<lambda>(fallback, services).
            if services = [] then io_fail (Refused ''no enabled network services'')
            else let b = \<lparr>bk_version = 2, bk_services = services,
                          bk_fallback = map serialize_dns_socket (filter_fallback_servers fallback [server]),
                          bk_takeovers = Some [server]\<rparr> in
          io_bind (write_backup d b) (\<lambda>_. io_bind (switch_services d server b services []) (\<lambda>_.
          io_bind (create_marker d) (\<lambda>_. io_bind (flush_caches d) (\<lambda>_. io_return ()))))))) os1 = (r, os')"
        by simp
      then show ?thesis
      proof (cases rule: io_bindE)
        case (error e)
        then show ?thesis using still quietD [OF quiet_try [OF quiet_effective(1)] error(1)] by simp
      next
        case (step effective os3)
        have v3: "view os3 = view os1" using quietD [OF quiet_try [OF quiet_effective(1)] step(1)] .
        from step(2) show ?thesis
        proof (cases rule: io_bindE)
          case (error e)
          then show ?thesis using still quietD [OF quiet_lists(1) error(1)] v3 by simp
        next
          case (step names os4)
          have v4: "view os4 = view os1" "names = mc_enabled (view os1)"
            using quietD [OF quiet_lists(1) step(1)] list_services_enabled [OF step(1)] v3 by simp_all
          from step(2) show ?thesis
          proof (cases rule: io_bindE)
            case (error e)
            then show ?thesis using still snapshot_services_spec [OF error(1)] v4 by simp
          next
            case (step x os5)
            obtain fb svcs where x: "x = (fb, svcs)" by fastforce
            from snapshot_services_spec [OF step(1)] v4 x
            have v5: "view os5 = view os1"
              "svcs = map (\<lambda>n. \<lparr>sd_name = n, sd_servers = mc_dns (view os5) n\<rparr>) (mc_enabled (view os5))"
              by simp_all
            show ?thesis
            proof (cases "svcs = []")
              case True
              with step(2) x v5 still show ?thesis by (auto simp: io_fail_def)
            next
              case False
              then have "mc_enabled (view os5) \<noteq> []" using v5(2) by auto
              from take_over_commit [where fb = "map serialize_dns_socket (filter_fallback_servers fb [server])"
                  and server = server and r = r and os' = os', OF refl _ this addr]
                step(2) x False v5
              have "recoverable d view (view os5) server os' \<and> (\<not> isl r \<longrightarrow> taken_over d view (view os5) server os')"
                by (simp add: Let_def)
              then show ?thesis using recoverable_cong [of "view os5" "view os"] v5(1) L by simp
            qed
          qed
        qed
      qed
    qed
  qed (simp add: io_check_def)
qed

section \<open>Restoring\<close>

lemma restore_services_spec:
  assumes "restore_services (set_dns_servers d) current svcs os = (r, os')"
    and "\<forall>x \<in> set svcs. sd_servers x = orig (sd_name x)" "\<forall>s. orig s \<noteq> [''Empty'']"
  shows "\<exists>errors. r = Inr errors \<and> mc_files (view os') = mc_files (view os)
     \<and> mc_enabled (view os') = mc_enabled (view os) \<and> mc_services (view os') = mc_services (view os)
     \<and> (\<forall>s. mc_dns (view os') s = mc_dns (view os) s \<or> (s \<in> sd_name ` set svcs \<and> mc_dns (view os') s = orig s))
     \<and> (errors = [] \<longrightarrow> (\<forall>s \<in> set current \<inter> sd_name ` set svcs. mc_dns (view os') s = orig s))"
  using assms(1,2)
proof (induction svcs arbitrary: os r os')
  case (Cons x svcs)
  show ?case
  proof (cases "sd_name x \<in> set current")
    case False
    with Cons.IH [of os r os'] Cons.prems show ?thesis by auto
  next
    case True
    obtain q os1 where q: "set_dns_servers d (sd_name x) (sd_servers x) os = (q, os1)" by fastforce
    have "set_argument (sd_servers x) = orig (sd_name x)"
      using Cons.prems(2) assms(3) by (simp add: set_argument_def)
    note V = set_dns_servers_view [OF q, unfolded this]
    obtain q2 os2 where q2: "restore_services (set_dns_servers d) current svcs os1 = (q2, os2)" by fastforce
    from Cons.IH [OF q2] Cons.prems(2) obtain errors where IH: "q2 = Inr errors"
      "mc_files (view os2) = mc_files (view os1)" "mc_enabled (view os2) = mc_enabled (view os1)"
      "mc_services (view os2) = mc_services (view os1)"
      "\<forall>s. mc_dns (view os2) s = mc_dns (view os1) s \<or> (s \<in> sd_name ` set svcs \<and> mc_dns (view os2) s = orig s)"
      "errors = [] \<longrightarrow> (\<forall>s \<in> set current \<inter> sd_name ` set svcs. mc_dns (view os2) s = orig s)" by auto
    have out: "r = Inr ((case q of Inl e \<Rightarrow> [e] | Inr _ \<Rightarrow> []) @ errors) \<and> os' = os2"
      using Cons.prems(1) True q q2 IH(1) by (auto simp: io_bind_def io_try_def io_return_def)
    show ?thesis using out IH V by (cases q) (auto split: if_splits)
  qed
qed (auto simp: io_return_def)

lemma verify_services_spec:
  "verify_services (dh_ifindex d) (get_dns_servers d) b names os = (r, os') \<Longrightarrow>
     view os' = view os \<and> (\<exists>errors. r = Inr errors)"
proof (induction names arbitrary: os r os')
  case (Cons n names)
  obtain q os1 where q: "get_dns_servers d n os = (q, os1)" by fastforce
  obtain q2 os2 where q2: "verify_services (dh_ifindex d) (get_dns_servers d) b names os1 = (q2, os2)" by fastforce
  from Cons.IH [OF q2] quietD [OF quiet_get q] Cons.prems q q2 show ?case
    by (auto simp: io_bind_def io_try_def io_return_def)
qed (simp add: io_return_def)

lemma restore_at_spec:
  assumes go: "restore_at d (list_all_services d) (get_dns_servers d) (set_dns_servers d) os = (r, os')"
    and b: "backup_file os = Some t" "dh_decode d t = Inr b" "\<forall>x \<in> set (bk_services b). sd_servers x = orig (sd_name x)"
    and orig: "\<forall>s. orig s \<noteq> [''Empty'']"
  shows "mc_enabled (view os') = mc_enabled (view os) \<and> mc_services (view os') = mc_services (view os)
     \<and> (\<forall>p. p \<noteq> BACKUP_PATH \<longrightarrow> mc_files (view os') p = mc_files (view os) p)
     \<and> (\<forall>s. mc_dns (view os') s = mc_dns (view os) s \<or> (s \<in> sd_name ` set (bk_services b) \<and> mc_dns (view os') s = orig s))
     \<and> (if isl r then backup_file os' = backup_file os
        else backup_file os' = None \<and>
          (\<forall>s \<in> set (mc_services (view os)) \<inter> sd_name ` set (bk_services b). mc_dns (view os') s = orig s))"
  using go [unfolded restore_at_def]
proof (cases rule: io_bindE)
  case (error e)
  then show ?thesis using quietD [OF quiet_read_backup error(1)] by simp
next
  case (step b' os1)
  have v1: "view os1 = view os" using quietD [OF quiet_read_backup step(1)] .
  have b': "b' = b" using read_backup_file [OF step(1)] b(1,2) by auto
  show ?thesis
  proof (cases "bk_version b \<noteq> 1 \<and> bk_version b \<noteq> 2")
    case True
    with step(2) b' v1 show ?thesis by (auto simp: io_fail_def)
  next
    case False
    with step(2) b' have rest: "io_bind (list_all_services d) (\<lambda>current.
        io_bind (restore_services (set_dns_servers d) current (bk_services b)) (\<lambda>errors.
        io_bind (io_try (list_all_services d)) (\<lambda>relisted.
        io_bind (case relisted of Inr names \<Rightarrow> verify_services (dh_ifindex d) (get_dns_servers d) b names
                 | Inl e \<Rightarrow> io_return [e]) (\<lambda>more.
          if errors @ more \<noteq> [] then io_fail (Several (errors @ more))
          else remove_file (dh_host d) BACKUP_PATH)))) os1 = (r, os')" by auto
    then show ?thesis
    proof (cases rule: io_bindE)
      case (error e)
      then show ?thesis using quietD [OF quiet_lists(2) error(1)] v1 by simp
    next
      case (step current os2)
      have v2: "view os2 = view os" "current = mc_services (view os)"
        using quietD [OF quiet_lists(2) step(1)] list_all_services_all [OF step(1)] v1 by simp_all
      obtain q os3 where q: "restore_services (set_dns_servers d) current (bk_services b) os2 = (q, os3)" by fastforce
      from restore_services_spec [OF q b(3) orig] v2 obtain errors where R: "q = Inr errors"
        "mc_files (view os3) = mc_files (view os)" "mc_enabled (view os3) = mc_enabled (view os)"
        "mc_services (view os3) = mc_services (view os)"
        "\<forall>s. mc_dns (view os3) s = mc_dns (view os) s \<or> (s \<in> sd_name ` set (bk_services b) \<and> mc_dns (view os3) s = orig s)"
        "errors = [] \<longrightarrow> (\<forall>s \<in> set (mc_services (view os)) \<inter> sd_name ` set (bk_services b). mc_dns (view os3) s = orig s)"
        by auto
      obtain l os4 where l: "list_all_services d os3 = (l, os4)" by fastforce
      have v4: "view os4 = view os3" using quietD [OF quiet_lists(2) l] .
      obtain more os5 where v: "(case l of Inr names \<Rightarrow> verify_services (dh_ifindex d) (get_dns_servers d) b names
                 | Inl e \<Rightarrow> io_return [e]) os4 = (Inr more, os5)" "view os5 = view os3"
      proof (cases l)
        case (Inr names)
        obtain w os6 where w: "verify_services (dh_ifindex d) (get_dns_servers d) b names os4 = (w, os6)" by fastforce
        with verify_services_spec [OF w] Inr v4 that show thesis by auto
      qed (use v4 that in \<open>auto simp: io_return_def\<close>)
      have out: "(if errors @ more \<noteq> [] then io_fail (Several (errors @ more))
          else remove_file (dh_host d) BACKUP_PATH) os5 = (r, os')"
        using step(2) q R(1) l v(1) by (simp add: io_bind_def io_try_def)
      show ?thesis
      proof (cases "errors @ more = []")
        case True
        with out remove_file_view [of BACKUP_PATH os5 r os'] R v(2) show ?thesis by (auto split: if_splits)
      next
        case False
        with out R v(2) show ?thesis by (auto simp: io_fail_def)
      qed
    qed
  qed
qed

text \<open>Releasing a takeover restores every service that still exists, or keeps the backup.\<close>

lemma release_spec:
  assumes go: "release d os = (r, os')" and over: "taken_over d view before server os"
    and still: "set (mc_enabled before) \<subseteq> set (mc_services (view os))"
    and orig: "\<forall>s. mc_dns before s \<noteq> [''Empty'']"
  shows "if isl r then recoverable d view before server os' \<and> backup_file os' = backup_file os
     else r = Inr True \<and> mc_dns (view os') = mc_dns before \<and> backup_file os' = None"
proof -
  from over obtain t b where b: "backup_file os = Some t" "dh_decode d t = Inr b" "bk_version b = 2"
    "bk_takeovers b = Some [server]"
    "bk_services b = map (\<lambda>n. \<lparr>sd_name = n, sd_servers = mc_dns before n\<rparr>) (mc_enabled before)"
    by (auto simp: taken_over_def recorded_def backed_by_def)
  from over have dns: "\<forall>s. mc_dns (view os) s = (if s \<in> set (mc_enabled before) then [show_ip server] else mc_dns before s)"
    by (simp add: taken_over_def)
  have names: "sd_name ` set (bk_services b) = set (mc_enabled before)"
    "\<forall>x \<in> set (bk_services b). sd_servers x = mc_dns before (sd_name x)" by (force simp: b(5))+
  have keep: "recoverable d view before server os2"
    if "backup_file os2 = Some t" "\<forall>s. mc_dns (view os2) s = mc_dns before s \<or> mc_dns (view os2) s = [show_ip server]"
    for os2 using that b by (auto simp: recoverable_def recorded_def backed_by_def)
  have exists: "backup_exists d os2" if "backup_file os2 = Some t" for os2
    using that by (simp add: backup_exists_def is_file)
  from go [unfolded release_def] show ?thesis
  proof (cases rule: io_bindE)
    case (error e)
    with lock_view [OF error(1)] dns b(1) show ?thesis by (auto intro!: keep)
  next
    case (step u os1)
    note L = lock_view [OF step(1)]
    then have f1: "backup_file os1 = Some t" using b(1) by simp
    have "io_bind (remove_marker d) (\<lambda>_. restore d) os1 = (r, os')"
      using step(2) exists [OF f1] by (simp add: io_bind_def io_check_def)
    then show ?thesis
    proof (cases rule: io_bindE)
      case (error e)
      with remove_marker_view [OF error(1)] L dns b(1) f1 show ?thesis by (auto intro!: keep)
    next
      case (step u os2)
      note M = remove_marker_view [OF step(1)]
      then have f2: "backup_file os2 = Some t" using f1 by simp
      obtain q os3 where q: "restore_at d (list_all_services d) (get_dns_servers d) (set_dns_servers d) os2 = (q, os3)"
        by fastforce
      note R = restore_at_spec [OF q f2 b(2) names(2) orig]
      have out: "if isl q then isl r \<and> os' = os3 else r = Inr True \<and> view os' = view os3"
      proof (cases q)
        case (Inr x)
        obtain f os4 where f: "flush_caches d os3 = (f, os4)" by fastforce
        then have "\<not> isl f"
          by (auto simp: flush_caches_def io_bind_def io_try_def io_return_def split: prod.splits)
        with f quietD [OF quiet_flush f] step(2) exists [OF f2] q Inr show ?thesis
          by (cases f) (auto simp: restore_def io_bind_def io_check_def io_return_def)
      qed (use step(2) exists [OF f2] q in \<open>auto simp: restore_def io_bind_def io_check_def\<close>)
      have d2: "\<forall>s. mc_dns (view os2) s = (if s \<in> set (mc_enabled before) then [show_ip server] else mc_dns before s)"
        "mc_services (view os2) = mc_services (view os)" using M L dns by simp_all
      show ?thesis
      proof (cases "isl q")
        case True
        have "mc_dns (view os3) s = mc_dns before s \<or> mc_dns (view os3) s = [show_ip server]" for s
          using R d2(1) by metis
        then have "recoverable d view before server os3" using R True f2 by (intro keep) auto
        with out R True f2 b(1) show ?thesis by simp
      next
        case False
        have "mc_dns (view os3) s = mc_dns before s" for s
          using R False d2 names(1) still by (cases "s \<in> set (mc_enabled before)") (auto dest!: spec [of _ s])
        with out R False show ?thesis by auto
      qed
    qed
  qed
qed

section \<open>The watchdog\<close>

lemma reassert_services_spec:
  assumes "reassert_services d x names os = (r, os')" "x \<noteq> ''Empty''"
  shows "\<exists>errors. r = Inr errors \<and> mc_files (view os') = mc_files (view os)
     \<and> mc_enabled (view os') = mc_enabled (view os) \<and> mc_services (view os') = mc_services (view os)
     \<and> (\<forall>s. mc_dns (view os') s = mc_dns (view os) s \<or> (s \<in> set names \<and> mc_dns (view os') s = [x]))
     \<and> (errors = [] \<longrightarrow> (\<forall>s \<in> set names. mc_dns (view os') s = [x]))"
  using assms(1)
proof (induction names arbitrary: os r os')
  case (Cons n names)
  obtain q os1 where q: "set_dns_servers d n [x] os = (q, os1)" by fastforce
  have "set_argument [x] = [x]" using assms(2) by (simp add: set_argument_def)
  note V = set_dns_servers_view [OF q, unfolded this]
  obtain q2 os2 where q2: "reassert_services d x names os1 = (q2, os2)" by fastforce
  from Cons.IH [OF q2] obtain errors where IH: "q2 = Inr errors"
    "mc_files (view os2) = mc_files (view os1)" "mc_enabled (view os2) = mc_enabled (view os1)"
    "mc_services (view os2) = mc_services (view os1)"
    "\<forall>s. mc_dns (view os2) s = mc_dns (view os1) s \<or> (s \<in> set names \<and> mc_dns (view os2) s = [x])"
    "errors = [] \<longrightarrow> (\<forall>s \<in> set names. mc_dns (view os2) s = [x])" by auto
  have out: "r = Inr ((case q of Inl e \<Rightarrow> [e] | Inr _ \<Rightarrow> []) @ errors) \<and> os' = os2"
    using Cons.prems q q2 IH(1) by (auto simp: io_bind_def io_try_def io_return_def)
  show ?case
  proof (cases q)
    case (Inr u)
    have "mc_dns (view os2) n = [x]" using IH(5) V Inr by (metis fun_upd_same machine.select_convs(3)
        machine.surjective machine.update_convs(3) sum.disc(2))
    moreover have "mc_dns (view os2) s = mc_dns (view os) s \<or> (s \<in> set (n # names) \<and> mc_dns (view os2) s = [x])" for s
      using IH(5) V Inr calculation by (cases "s = n") (auto split: if_splits)
    ultimately show ?thesis using out IH V Inr by auto
  next
    case (Inl e)
    with out IH V show ?thesis by auto
  qed
qed (simp add: io_return_def)

lemma io_each_get:
  "io_each (\<lambda>n. io_bind (get_dns_servers d (name n)) (\<lambda>servers. io_return (name n, servers))) ns os = (r, os') \<Longrightarrow>
     view os' = view os \<and> (\<forall>out. r = Inr out \<longrightarrow> out = map (\<lambda>n. (name n, mc_dns (view os) (name n))) ns)"
proof (induction ns arbitrary: os r os')
  case (Cons n ns)
  obtain q os1 where q: "get_dns_servers d (name n) os = (q, os1)" by fastforce
  have v: "view os1 = view os" using quietD [OF quiet_get q] .
  show ?case
  proof (cases q)
    case (Inr servers)
    then have s: "servers = mc_dns (view os) (name n)" using get_dns_servers_dns q by blast
    obtain q2 os2 where q2: "io_each (\<lambda>n. io_bind (get_dns_servers d (name n))
        (\<lambda>servers. io_return (name n, servers))) ns os1 = (q2, os2)" by fastforce
    from Cons.IH [OF q2] v s Inr q q2 Cons.prems show ?thesis
      by (cases q2) (auto simp: io_bind_def io_return_def)
  qed (use Cons.prems q v in \<open>auto simp: io_bind_def\<close>)
qed (auto simp: io_return_def)

lemma find_service_None: "find_service b n = None \<longleftrightarrow> n \<notin> sd_name ` set (bk_services b)"
  by (auto simp: find_service_def find_None_iff)

definition as_services :: "(string \<times> string list) list \<Rightarrow> service_dns list" where
  "as_services snaps = map (\<lambda>(n, servers). \<lparr>sd_name = n, sd_servers = servers\<rparr>) snaps"

lemma as_services_simps [simp]:
  "as_services [] = []" "as_services ((n, servers) # snaps) = \<lparr>sd_name = n, sd_servers = servers\<rparr> # as_services snaps"
  by (simp_all add: as_services_def)

lemma as_services_names [simp]: "sd_name ` set (as_services snaps) = fst ` set snaps"
  by (force simp: as_services_def image_iff)

lemma in_as_services: "x \<in> set (as_services snaps) \<Longrightarrow> (sd_name x, sd_servers x) \<in> set snaps"
  by (auto simp: as_services_def)

lemma add_new_services_spec:
  "add_new_service_snapshots ifindex x snaps b added = Inr (added', b') \<Longrightarrow>
     \<exists>new. bk_services b' = bk_services b @ as_services new
       \<and> set new \<subseteq> set snaps \<and> fst ` set new \<inter> sd_name ` set (bk_services b) = {}
       \<and> fst ` set snaps \<subseteq> sd_name ` set (bk_services b')"
proof (induction ifindex x snaps b added rule: add_new_service_snapshots.induct)
  case (2 ifindex x n servers rest b added)
  show ?case
  proof (cases "n \<in> sd_name ` set (bk_services b)")
    case False
    let ?b = "b\<lparr>bk_services := bk_services b @ [\<lparr>sd_name = n, sd_servers = servers\<rparr>]\<rparr>"
    have none: "find_service b n = None" using False find_service_None by blast
    from 2(2) [OF _ _] 2(3) none obtain new where
      "bk_services b' = bk_services ?b @ as_services new"
      "set new \<subseteq> set rest" "fst ` set new \<inter> sd_name ` set (bk_services ?b) = {}"
      "fst ` set rest \<subseteq> sd_name ` set (bk_services b')" by (auto split: if_splits)
    then show ?thesis using False by (intro exI [of _ "(n, servers) # new"]) (simp; blast)
  next
    case True
    then have "find_service b n \<noteq> None" using find_service_None by blast
    with 2(1) 2(3) obtain new where new:
      "bk_services b' = bk_services b @ as_services new"
      "set new \<subseteq> set rest" "fst ` set new \<inter> sd_name ` set (bk_services b) = {}"
      "fst ` set rest \<subseteq> sd_name ` set (bk_services b')" by (auto split: if_splits)
    have "n \<in> sd_name ` set (bk_services b')" using True new(1) by (simp add: image_Un)
    with new show ?thesis by (intro exI [of _ new]) (simp; blast)
  qed
qed auto

lemma add_new_services_unchanged:
  "add_new_service_snapshots ifindex x snaps b added = Inr (added', b') \<Longrightarrow> \<not> added' \<Longrightarrow> b' = b \<and> \<not> added"
  by (induction ifindex x snaps b added rule: add_new_service_snapshots.induct) (auto split: if_splits)

lemma backed_by_read: "backed_by d view b os \<Longrightarrow> read_backup d os = (Inr b', os') \<Longrightarrow> b' = b"
  using read_backup_file by (fastforce simp: backed_by_def)

lemma prepare_spec:
  assumes go: "prepare_watchdog_backup (dh_ifindex d) b snaps server (write_backup d) os = (r, os')"
    and b: "backed_by d view b os" and snaps: "\<forall>(n, servers) \<in> set snaps. servers = mc_dns m n"
  shows "mc_dns (view os') = mc_dns (view os) \<and> mc_services (view os') = mc_services (view os)
     \<and> mc_enabled (view os') = mc_enabled (view os)
     \<and> (\<exists>b'. backed_by d view b' os' \<and> grown b b' m
          \<and> (\<not> isl r \<longrightarrow> fst ` set snaps \<subseteq> sd_name ` set (bk_services b')))"
proof (cases "add_new_service_snapshots (dh_ifindex d) (show_ip server) snaps b False")
  case (Inl e)
  have "grown b b m" by (simp add: grown_def)
  with Inl go b show ?thesis by (auto simp: prepare_watchdog_backup_def io_fail_def)
next
  case (Inr x)
  obtain added b1 where x: "x = (added, b1)" by fastforce
  obtain changed b2 where n: "note_takeover server (added, b1) = (changed, b2)" by fastforce
  from add_new_services_spec [of "dh_ifindex d" "show_ip server" snaps b False added b1] Inr x
  obtain new where new: "bk_services b1 = bk_services b @ as_services new"
    "set new \<subseteq> set snaps" "fst ` set new \<inter> sd_name ` set (bk_services b) = {}"
    "fst ` set snaps \<subseteq> sd_name ` set (bk_services b1)" by blast
  have b2: "bk_services b2 = bk_services b1" using n by (auto simp: note_takeover_def split: option.splits if_splits)
  have "sd_name x \<notin> sd_name ` set (bk_services b) \<and> sd_servers x = mc_dns m (sd_name x)"
    if "x \<in> set (as_services new)" for x
  proof
    have x_new: "(sd_name x, sd_servers x) \<in> set new" by (rule in_as_services [OF that])
    then show "sd_servers x = mc_dns m (sd_name x)" using new(2) snaps by blast
    show "sd_name x \<notin> sd_name ` set (bk_services b)" using imageI [OF x_new, of fst] new(3) by auto
  qed
  then have g: "grown b b2 m" unfolding grown_def b2 new(1) by blast
  have g0: "grown b b m" by (simp add: grown_def)
  show ?thesis
  proof (cases changed)
    case True
    obtain q os1 where q: "write_backup d b2 os = (q, os1)" by fastforce
    have out: "os' = os1" "isl r = isl q" using go Inr x n True q
      by (cases q; auto simp: prepare_watchdog_backup_def io_bind_def io_return_def)+
    from write_backup_view [OF q] show ?thesis
    proof (elim disjE conjE exE)
      assume "view os1 = view os" "isl q"
      with out b g0 show ?thesis by (auto simp: backed_by_def)
    next
      fix t
      assume "dh_decode d t = Inr b2" "view os1 = (view os)\<lparr>mc_files := (mc_files (view os))(BACKUP_PATH \<mapsto> t)\<rparr>"
      then show ?thesis using out g new(4) b2 by (auto simp: backed_by_def)
    qed
  next
    case False
    with go Inr x n have "os' = os" by (auto simp: prepare_watchdog_backup_def io_bind_def io_return_def)
    moreover have "b2 = b1 \<and> \<not> added"
      using n False by (auto simp: note_takeover_def split: option.splits if_splits)
    moreover from this have "b1 = b"
      using Inr x add_new_services_unchanged by blast
    ultimately show ?thesis using b g0 new(4) by auto
  qed
qed

lemma set_needing: "set (services_needing_reassert current x) = fst ` {p \<in> set current. snd p \<noteq> [x]}"
  by (auto simp: services_needing_reassert_def case_prod_beta)

lemma tick_reassert_spec:
  assumes go: "tick_reassert d server os = (r, os')" and b: "backed_by d view b os"
    and addr: "show_ip server \<noteq> ''Empty''"
  shows "mc_files (view os') = mc_files (view os)
     \<and> (\<forall>s. mc_dns (view os') s = mc_dns (view os) s
          \<or> (s \<in> sd_name ` set (bk_services b) \<and> mc_dns (view os') s = [show_ip server]))
     \<and> (\<not> isl r \<longrightarrow> (\<forall>s \<in> sd_name ` set (bk_services b) \<inter> set (mc_services (view os)).
          mc_dns (view os') s = [show_ip server]))"
  using go [unfolded tick_reassert_def]
proof (cases rule: io_bindE)
  case (error e)
  have "quiet (service_dns_snapshot d)"
    unfolding service_dns_snapshot_def by (intro quiet_bind quiet_each) simp_all
  from quietD [OF this error(1)] error(2) show ?thesis by simp
next
  case (step current os1)
  from step(1) obtain os2 where os2: "read_backup d os = (Inr b, os2)" "view os2 = view os"
    using backed_by_read [OF b] quietD [OF quiet_read_backup] by (auto simp: service_dns_snapshot_def io_bind_Inr)
  have cur: "view os1 = view os" "set current =
      (\<lambda>n. (n, mc_dns (view os) n)) ` (sd_name ` set (bk_services b) \<inter> set (mc_services (view os)))"
  proof -
    from step(1) os2 obtain all os3 where os3: "list_all_services d os2 = (Inr all, os3)"
      "io_each (\<lambda>service. io_bind (get_dns_servers d (sd_name service)) (\<lambda>servers. io_return (sd_name service, servers)))
         (filter (\<lambda>service. sd_name service \<in> set all) (bk_services b)) os3 = (Inr current, os1)"
      by (auto simp: service_dns_snapshot_def io_bind_Inr)
    from quietD [OF quiet_lists(2) os3(1)] list_all_services_all [OF os3(1)] io_each_get [OF os3(2)] os2(2)
    show "view os1 = view os" "set current =
      (\<lambda>n. (n, mc_dns (view os) n)) ` (sd_name ` set (bk_services b) \<inter> set (mc_services (view os)))" by auto
  qed
  let ?drifted = "services_needing_reassert current (show_ip server)"
  have drift: "set ?drifted = {s \<in> sd_name ` set (bk_services b) \<inter> set (mc_services (view os)).
      mc_dns (view os) s \<noteq> [show_ip server]}"
    unfolding set_needing cur(2) by (auto simp: image_iff)
  obtain c os4 where c: "io_try (capture_runtime_fallback d server) os1 = (Inr c, os4)" "view os4 = view os"
    using cur(1) quietD [OF quiet_effective(2)]
    by (cases "capture_runtime_fallback d server os1") (auto simp: io_try_def)
  show ?thesis
  proof (cases "?drifted = []")
    case True
    then have "view os' = view os" using step(2) c by (auto simp: Let_def io_bind_def io_return_def)
    moreover have "mc_dns (view os) s = [show_ip server]"
      if "s \<in> sd_name ` set (bk_services b) \<inter> set (mc_services (view os))" for s
      using drift True that by auto
    ultimately show ?thesis by simp
  next
    case False
    obtain q os5 where q: "reassert_services d (show_ip server) ?drifted os4 = (q, os5)" by fastforce
    from reassert_services_spec [OF q addr] c(2) obtain errors where R: "q = Inr errors"
      "mc_files (view os5) = mc_files (view os)"
      "\<forall>s. mc_dns (view os5) s = mc_dns (view os) s \<or> (s \<in> set ?drifted \<and> mc_dns (view os5) s = [show_ip server])"
      "errors = [] \<longrightarrow> (\<forall>s \<in> set ?drifted. mc_dns (view os5) s = [show_ip server])" by auto
    obtain f os6 where f: "flush_caches d os5 = (f, os6)" by fastforce
    then have "\<not> isl f"
      by (auto simp: flush_caches_def io_bind_def io_try_def io_return_def split: prod.splits)
    with f quietD [OF quiet_flush f] step(2) c(1) q R(1) False
    have out: "view os' = view os5 \<and> (errors \<noteq> [] \<longrightarrow> isl r)"
      by (cases f) (auto simp: Let_def io_bind_def io_fail_def io_return_def split: if_splits sum.splits)
    have all: "mc_dns (view os5) s = [show_ip server]"
      if "errors = []" "s \<in> sd_name ` set (bk_services b) \<inter> set (mc_services (view os))" for s
      using that R(3,4) drift by (cases "s \<in> set ?drifted") (blast, metis (mono_tags, lifting) mem_Collect_eq)
    have sub: "set ?drifted \<subseteq> sd_name ` set (bk_services b)" using drift by auto
    have none: "errors = []" if "\<not> isl r" using out that by blast
    show ?thesis
    proof (intro conjI allI impI ballI)
      show "mc_files (view os') = mc_files (view os)" using out R(2) by simp
      show "mc_dns (view os') s = mc_dns (view os) s
          \<or> s \<in> sd_name ` set (bk_services b) \<and> mc_dns (view os') s = [show_ip server]" for s
        using out R(3) sub by (metis subsetD)
      show "mc_dns (view os') s = [show_ip server]"
        if "\<not> isl r" "s \<in> sd_name ` set (bk_services b) \<inter> set (mc_services (view os))" for s
        using out all [OF none [OF that(1)] that(2)] by simp
    qed
  qed
qed

end

end
