(* ===== verification/Dns_Watch.thy ===== *)
theory Dns_Watch
  imports Dns_Machine
begin

text \<open>
  The watchdog tick and the check that a takeover is intact, on a machine that meets the
  contract of theory Dns_Machine.
\<close>

context dns_machine begin

lemma tick_new_services_spec:
  assumes "tick_new_services d b os = (r, os')"
  shows "view os' = view os \<and> (\<forall>snaps. r = Inr snaps \<longrightarrow>
     (\<forall>(n, servers) \<in> set snaps. servers = mc_dns (view os) n)
     \<and> fst ` set snaps = set (mc_enabled (view os)) - sd_name ` set (bk_services b))"
  using assms [unfolded tick_new_services_def]
proof (cases rule: io_bindE)
  case (error e)
  then show ?thesis using quietD [OF quiet_lists(1) error(1)] by simp
next
  case (step names os1)
  have v: "view os1 = view os" "names = mc_enabled (view os)"
    using quietD [OF quiet_lists(1) step(1)] list_services_enabled [OF step(1)] by simp_all
  let ?new = "filter (\<lambda>name. name \<notin> sd_name ` set (bk_services b)) names"
  from io_each_get [of "\<lambda>n. n", OF step(2)] v(1)
  have E: "view os' = view os" "\<And>out. r = Inr out \<Longrightarrow> out = map (\<lambda>n. (n, mc_dns (view os) n)) ?new"
    by simp_all
  show ?thesis
  proof (intro conjI allI impI)
    fix snaps assume "r = Inr snaps"
    then have s: "snaps = map (\<lambda>n. (n, mc_dns (view os) n)) ?new" by (rule E(2))
    show "\<forall>(n, servers) \<in> set snaps. servers = mc_dns (view os) n" unfolding s by auto
    show "fst ` set snaps = set (mc_enabled (view os)) - sd_name ` set (bk_services b)"
      unfolding s v(2) by (auto simp: image_iff)
  qed (rule E(1))
qed

definition watched :: "backup \<Rightarrow> machine \<Rightarrow> string \<Rightarrow> os_error + tick_outcome \<Rightarrow> 'o \<Rightarrow> bool" where
  "watched b m x r os' \<longleftrightarrow> (\<exists>b'. backed_by d view b' os' \<and> grown b b' m
     \<and> (\<forall>s. mc_dns (view os') s = mc_dns m s \<or> (s \<in> sd_name ` set (bk_services b') \<and> mc_dns (view os') s = [x]))
     \<and> (\<forall>out. r = Inr out \<longrightarrow> out \<noteq> NotActive \<longrightarrow>
          (\<forall>s \<in> set (mc_services m) \<inter> (sd_name ` set (bk_services b) \<union> set (mc_enabled m)). mc_dns (view os') s = [x])))"

lemma watched_same:
  assumes "backed_by d view b os'" "mc_dns (view os') = mc_dns m" "isl r \<or> r = Inr NotActive"
  shows "watched b m x r os'"
  unfolding watched_def
  using assms by (intro exI [of _ b]) (auto simp: grown_def)

lemma watchdog_tick_spec:
  assumes go: "watchdog_tick d server os = (r, os')" and b: "backed_by d view b os"
  shows "watched b (view os) (show_ip server) r os'"
  using go [unfolded watchdog_tick_def]
proof (cases rule: io_bindE)
  case (error e)
  with lock_view [OF error(1)] b show ?thesis by (intro watched_same) (auto simp: backed_by_def)
next
  case (step u os1)
  note L = lock_view [OF step(1)]
  have b1: "backed_by d view b os2" if "view os2 = view os1" for os2
    using L b that by (simp add: backed_by_def)
  from step(2) obtain active where act: "active = (backup_exists d os1 \<and> marker_exists d os1)"
    "(if \<not> active then io_return NotActive else
       io_bind (read_backup d) (\<lambda>b. io_bind (tick_new_services d b) (\<lambda>new_services.
       io_bind (prepare_watchdog_backup (dh_ifindex d) b new_services server (write_backup d)) (\<lambda>_.
         tick_reassert d server)))) os1 = (r, os')"
    by (auto simp: io_bind_def io_check_def)
  show ?thesis
  proof (cases active)
    case False
    with act(2) L b1 [of os1] show ?thesis by (intro watched_same) (auto simp: io_return_def)
  next
    case True
    with act(2) have "io_bind (read_backup d) (\<lambda>b. io_bind (tick_new_services d b) (\<lambda>new_services.
       io_bind (prepare_watchdog_backup (dh_ifindex d) b new_services server (write_backup d)) (\<lambda>_.
         tick_reassert d server))) os1 = (r, os')" by simp
    then show ?thesis
    proof (cases rule: io_bindE)
      case (error e)
      with quietD [OF quiet_read_backup error(1)] L b1 show ?thesis by (intro watched_same) auto
    next
      case (step b0 os2)
      have v2: "view os2 = view os1" using quietD [OF quiet_read_backup step(1)] .
      have "b0 = b" using backed_by_read [OF b1 [OF refl] step(1)] .
      with step(2) have "io_bind (tick_new_services d b) (\<lambda>new_services.
       io_bind (prepare_watchdog_backup (dh_ifindex d) b new_services server (write_backup d)) (\<lambda>_.
         tick_reassert d server)) os2 = (r, os')" by simp
      then show ?thesis
      proof (cases rule: io_bindE)
        case (error e)
        with tick_new_services_spec [OF error(1)] v2 L b1 show ?thesis by (intro watched_same) auto
      next
        case (step snaps os3)
        from tick_new_services_spec [OF step(1)] v2 L have S: "view os3 = view os1"
          "\<forall>(n, servers) \<in> set snaps. servers = mc_dns (view os) n"
          "fst ` set snaps = set (mc_enabled (view os)) - sd_name ` set (bk_services b)" by simp_all
        obtain q os4 where q: "prepare_watchdog_backup (dh_ifindex d) b snaps server (write_backup d) os3 = (q, os4)"
          by fastforce
        from prepare_spec [OF q b1 [OF S(1)] S(2)] S(1) L obtain b' where P:
          "mc_dns (view os4) = mc_dns (view os)" "mc_services (view os4) = mc_services (view os)"
          "backed_by d view b' os4" "grown b b' (view os)"
          "\<not> isl q \<Longrightarrow> fst ` set snaps \<subseteq> sd_name ` set (bk_services b')" by auto
        have sub: "sd_name ` set (bk_services b) \<subseteq> sd_name ` set (bk_services b')"
          using P(4) by (auto simp: grown_def)
        show ?thesis
        proof (cases q)
          case (Inl e)
          then have "isl r \<and> os' = os4" using step(2) q by (auto simp: io_bind_def)
          with P(1,3,4) show ?thesis unfolding watched_def by (intro exI [of _ b']) auto
        next
          case (Inr b0)
          then have go: "tick_reassert d server os4 = (r, os')" using step(2) q by (simp add: io_bind_def)
          have all: "sd_name ` set (bk_services b) \<union> set (mc_enabled (view os)) \<subseteq> sd_name ` set (bk_services b')"
            using P(5) Inr S(3) sub by (simp add: Diff_subset_conv sup_absorb2)
          note T = tick_reassert_spec [OF go P(3) show_ip_not_Empty]
          show ?thesis
            unfolding watched_def
          proof (intro exI [of _ b'] conjI allI impI ballI)
            show "backed_by d view b' os'" using T P(3) by (simp add: backed_by_def)
            show "grown b b' (view os)" by (rule P(4))
            show "mc_dns (view os') s = mc_dns (view os) s
                \<or> s \<in> sd_name ` set (bk_services b') \<and> mc_dns (view os') s = [show_ip server]" for s
              using T P(1) by metis
            show "mc_dns (view os') s = [show_ip server]"
              if "r = Inr out" "s \<in> set (mc_services (view os)) \<inter>
                 (sd_name ` set (bk_services b) \<union> set (mc_enabled (view os)))" for out s
              using T that all P(2) by auto
          qed
        qed
      qed
    qed
  qed
qed

section \<open>Verifying a takeover\<close>

definition owned :: "backup \<Rightarrow> string \<Rightarrow> machine \<Rightarrow> bool" where
  "owned b s m \<longleftrightarrow> s \<in> sd_name ` set (bk_services b) \<or> s \<in> set (mc_enabled m)
     \<or> dns_may_depend_on_takeover (dh_ifindex d) b s (mc_dns m s)"

lemma takeover_intact_loop_spec:
  assumes "takeover_intact_loop (dh_ifindex d) b x (mc_enabled (view os)) (get_dns_servers d) names checked os = (r, os')"
  shows "view os' = view os \<and> (\<forall>ok. r = Inr ok \<longrightarrow>
     ok = ((checked \<or> (\<exists>s \<in> set names. owned b s (view os)))
       \<and> (\<forall>s \<in> set names. owned b s (view os) \<longrightarrow> mc_dns (view os) s = [x])))"
  using assms
proof (induction names arbitrary: checked os)
  case (Cons n names)
  obtain q os1 where q: "get_dns_servers d n os = (q, os1)" by fastforce
  have v: "view os1 = view os" using quietD [OF quiet_get q] .
  show ?case
  proof (cases q)
    case (Inl e)
    with Cons.prems q v show ?thesis by (auto simp: io_bind_def)
  next
    case (Inr servers)
    then have s: "servers = mc_dns (view os) n" using get_dns_servers_dns q by blast
    have o: "owned b n (view os) \<longleftrightarrow> find_service b n \<noteq> None \<or> n \<in> set (mc_enabled (view os))
        \<or> dns_may_depend_on_takeover (dh_ifindex d) b n servers"
      using find_service_None [of b n] by (auto simp: owned_def s)
    let ?rest = "\<lambda>c. takeover_intact_loop (dh_ifindex d) b x (mc_enabled (view os)) (get_dns_servers d) names c os1"
    have go: "(if owned b n (view os) then (if servers \<noteq> [x] then io_return False os1 else ?rest True)
        else ?rest checked) = (r, os')"
      using Cons.prems q Inr unfolding o by (cases "find_service b n \<noteq> None \<or> n \<in> set (mc_enabled (view os))
        \<or> dns_may_depend_on_takeover (dh_ifindex d) b n servers") (auto simp: io_bind_def split: if_splits)
    show ?thesis
    proof (cases "owned b n (view os) \<and> servers \<noteq> [x]")
      case True
      with go v s show ?thesis by (auto simp: io_return_def)
    next
      case False
      then have "?rest (checked \<or> owned b n (view os)) = (r, os')" using go by (auto split: if_splits)
      from Cons.IH [of os1 "checked \<or> owned b n (view os)"] this v
      have "view os' = view os \<and> (\<forall>ok. r = Inr ok \<longrightarrow>
         ok = ((checked \<or> owned b n (view os) \<or> (\<exists>s \<in> set names. owned b s (view os)))
           \<and> (\<forall>s \<in> set names. owned b s (view os) \<longrightarrow> mc_dns (view os) s = [x])))" by simp
      with False s show ?thesis by auto
    qed
  qed
qed (auto simp: io_return_def)

lemma takeover_intact_spec:
  assumes "takeover_intact d server os = (r, os')" and b: "backed_by d view b os"
  shows "view os' = view os \<and> (\<forall>ok. r = Inr ok \<longrightarrow>
     ok = ((\<exists>s \<in> set (mc_services (view os)). owned b s (view os))
       \<and> (\<forall>s \<in> set (mc_services (view os)). owned b s (view os) \<longrightarrow> mc_dns (view os) s = [show_ip server])))"
  using assms(1) [unfolded takeover_intact_def takeover_intact_with_def]
proof (cases rule: io_bindE)
  case (error e)
  with quietD [OF quiet_read_backup error(1)] show ?thesis by simp
next
  case (step b0 os1)
  have v1: "view os1 = view os" using quietD [OF quiet_read_backup step(1)] .
  have "b0 = b" using backed_by_read [OF b step(1)] .
  with step(2) have "io_bind (list_services d) (\<lambda>enabled. io_bind (list_all_services d) (\<lambda>names.
      takeover_intact_loop (dh_ifindex d) b (show_ip server) enabled (get_dns_servers d) names False)) os1 = (r, os')"
    by simp
  then show ?thesis
  proof (cases rule: io_bindE)
    case (error e)
    with quietD [OF quiet_lists(1) error(1)] v1 show ?thesis by simp
  next
    case (step enabled os2)
    have v2: "view os2 = view os" "enabled = mc_enabled (view os)"
      using quietD [OF quiet_lists(1) step(1)] list_services_enabled [OF step(1)] v1 by simp_all
    from step(2) show ?thesis
    proof (cases rule: io_bindE)
      case (error e)
      with quietD [OF quiet_lists(2) error(1)] v2 show ?thesis by simp
    next
      case (step names os3)
      have v3: "view os3 = view os" "names = mc_services (view os)"
        using quietD [OF quiet_lists(2) step(1)] list_all_services_all [OF step(1)] v2 by simp_all
      from takeover_intact_loop_spec [of b "show_ip server" os3 names False r os'] step(2) v2(2) v3
      show ?thesis by simp
    qed
  qed
qed

end

end
