(* ===== verification/Dns_Reference.thy ===== *)
theory Dns_Reference
  imports Dns_Watch
begin

text \<open>
  A reference machine that meets the contract of theory Dns_Machine, and the properties of the
  takeover.  The machine runs for a given number of calls that change something; after that every
  such call fails, as after a crash.  It prints listings the way networksetup does.
\<close>

section \<open>A reference machine\<close>

record lab =
  lb_enabled :: "string list"
  lb_services :: "string list"
  lb_dns :: "(string \<times> string list) list"
  lb_files :: "(string \<times> string) list"
  lb_fuel :: nat
  lb_loaded :: bool
  lb_clock :: nat

text \<open>A service set to the word Empty has no servers, and so has one never set.\<close>

definition dns_of :: "lab \<Rightarrow> string \<Rightarrow> string list" where
  "dns_of m s = (case map_of (lb_dns m) s of Some servers \<Rightarrow> set_argument servers | None \<Rightarrow> [])"

definition lab_view :: "lab \<Rightarrow> machine" where
  "lab_view m = \<lparr>mc_enabled = lb_enabled m, mc_services = lb_services m, mc_dns = dns_of m,
     mc_files = map_of (lb_files m)\<rparr>"

definition spend :: "lab \<Rightarrow> lab \<Rightarrow> string option \<times> lab" where
  "spend m m' = (if lb_fuel m = 0 then (Some ''crashed'', m) else (None, m'\<lparr>lb_fuel := lb_fuel m - 1\<rparr>))"

definition put_file :: "string \<Rightarrow> string \<Rightarrow> lab \<Rightarrow> lab" where
  "put_file p t m = m\<lparr>lb_files := put p t (lb_files m)\<rparr>"

definition drop_file :: "string \<Rightarrow> lab \<Rightarrow> lab" where
  "drop_file p m = m\<lparr>lb_files := drop_key p (lb_files m)\<rparr>"

definition put_dns :: "string \<Rightarrow> string list \<Rightarrow> lab \<Rightarrow> lab" where
  "put_dns s servers m = m\<lparr>lb_dns := put s servers (lb_dns m)\<rparr>"

definition lab_output :: "bool \<Rightarrow> string \<Rightarrow> cmd_output" where
  "lab_output ok text = \<lparr>out_success = ok, out_stdout = text, out_utf8 = True, out_stderr = []\<rparr>"

definition newline :: string where "newline = [CHR 0x0A]"

definition listing_text :: "lab \<Rightarrow> string" where
  "listing_text m = join_with newline (''(*): disabled'' #
     map (\<lambda>s. if s \<in> set (lb_enabled m) then s else ''*'' @ s) (lb_services m))"

definition servers_text :: "string list \<Rightarrow> string" where
  "servers_text servers =
     (if servers = [] then ''There aren't any DNS Servers set on it.'' else join_with newline servers)"

text \<open>A listing that would not read back is not printed.\<close>

definition lab_get :: "string \<Rightarrow> lab \<Rightarrow> (string + cmd_output) \<times> lab" where
  "lab_get s m =
     (let servers = dns_of m s; text = servers_text servers in
      (Inr (lab_output (parse_dns_servers (\<lambda>_. None) text = Some servers) text), m))"

definition lab_set :: "string \<Rightarrow> string list \<Rightarrow> lab \<Rightarrow> (string + cmd_output) \<times> lab" where
  "lab_set s servers m = (case spend m (put_dns s servers m) of
     (None, m) \<Rightarrow> (Inr (lab_output True []), m) | (Some e, m) \<Rightarrow> (Inl e, m))"

text \<open>The launchd job of the service, which only launchctl touches.\<close>

definition lab_launchctl :: "string list \<Rightarrow> lab \<Rightarrow> (string + cmd_output) \<times> lab" where
  "lab_launchctl args m =
     (if take 1 args = [''print''] then (Inr (lab_output (lb_loaded m) []), m)
      else case spend m (m\<lparr>lb_loaded := (if take 1 args = [''bootstrap''] then True
                else if take 1 args = [''bootout''] then False else lb_loaded m)\<rparr>) of
        (None, m) \<Rightarrow> (Inr (lab_output True []), m) | (Some e, m) \<Rightarrow> (Inl e, m))"

definition lab_run :: "string \<Rightarrow> string list \<Rightarrow> lab \<Rightarrow> (string + cmd_output) \<times> lab" where
  "lab_run program args m =
     (if program = ''/bin/launchctl'' then lab_launchctl args m
      else if program \<noteq> NETWORKSETUP then (Inr (lab_output True []), m)
      else if args = [''-listallnetworkservices''] then
        (Inr (lab_output (parse_services (listing_text m) = lb_enabled m
               \<and> parse_all_services (listing_text m) = lb_services m) (listing_text m)), m)
      else case args of
        command # s # servers \<Rightarrow>
          if command = ''-getdnsservers'' then lab_get s m else lab_set s servers m
      | _ \<Rightarrow> (Inl ''usage'', m))"

definition lab_host :: "lab host" where
  "lab_host = \<lparr>
     h_is_file = (\<lambda>p m. map_of (lb_files m) p \<noteq> None),
     h_read = (\<lambda>p m. case map_of (lb_files m) p of Some t \<Rightarrow> Inr t | None \<Rightarrow> Inl ''not found''),
     h_install = (\<lambda>p t m. spend m (put_file p t m)),
     h_remove = (\<lambda>p m. if map_of (lb_files m) p = None then (Some NotFound, m)
        else case spend m (drop_file p m) of (e, m) \<Rightarrow> (map_option RemoveFailed e, m)),
     h_touch = (\<lambda>p m. spend m (put_file p [] m)),
     h_lock = (\<lambda>p m. spend m (put_file p [] m)),
     h_run = lab_run\<rparr>"

text \<open>The backup, a line for each field and service.\<close>

definition words_line :: "string list \<Rightarrow> string" where
  "words_line ws = join_with '','' ws"

definition line_words :: "string \<Rightarrow> string list" where
  "line_words s = filter (\<lambda>w. w \<noteq> []) (split_char (CHR '','') s)"

definition raw_encode :: "backup \<Rightarrow> string" where
  "raw_encode b = join_with newline (show_nat (unat (bk_version b)) # words_line (bk_fallback b)
     # (case bk_takeovers b of None \<Rightarrow> ''?'' | Some ips \<Rightarrow> words_line (map show_ip ips))
     # map (\<lambda>x. sd_name x @ ''='' @ words_line (sd_servers x)) (bk_services b))"

fun lab_decode_lines :: "string list \<Rightarrow> backup option" where
  "lab_decode_lines (version # fallback # takeovers # services) =
     Some \<lparr>bk_version = word_of_nat (the (parse_unsigned 255 version)),
       bk_services = map (\<lambda>line. case split_once ''='' line of
           Some (name, servers) \<Rightarrow> \<lparr>sd_name = name, sd_servers = line_words servers\<rparr>
         | None \<Rightarrow> \<lparr>sd_name = line, sd_servers = []\<rparr>) services,
       bk_fallback = line_words fallback,
       bk_takeovers = (if takeovers = ''?'' then None else Some (List.map_filter parse_ip (line_words takeovers)))\<rparr>"
| "lab_decode_lines _ = None"

definition lab_decode :: "string \<Rightarrow> string + backup" where
  "lab_decode t = (case lab_decode_lines (split_char (CHR 0x0A) t) of Some b \<Rightarrow> Inr b | None \<Rightarrow> Inl ''backup'')"

definition lab_encode :: "backup \<Rightarrow> string + string" where
  "lab_encode b = (if lab_decode (raw_encode b) = Inr b then Inr (raw_encode b) else Inl ''not representable'')"

definition lab_dns :: "lab dns_host" where
  "lab_dns = \<lparr>dh_host = lab_host, dh_encode = lab_encode, dh_decode = lab_decode, dh_ifindex = \<lambda>_. None\<rparr>"

lemma lab_view_simps [simp]:
  "mc_files (lab_view m) = map_of (lb_files m)" "mc_enabled (lab_view m) = lb_enabled m"
  "mc_services (lab_view m) = lb_services m" "mc_dns (lab_view m) = dns_of m"
  by (simp_all add: lab_view_def)

lemma dns_of_upd [simp]: "dns_of (m\<lparr>lb_files := fs\<rparr>) = dns_of m" "dns_of (m\<lparr>lb_fuel := n\<rparr>) = dns_of m"
  "dns_of (m\<lparr>lb_loaded := b\<rparr>) = dns_of m" "dns_of (m\<lparr>lb_clock := k\<rparr>) = dns_of m"
  by (simp_all add: dns_of_def fun_eq_iff)

lemma lab_view_upd [simp]:
  "lab_view (m\<lparr>lb_fuel := n\<rparr>) = lab_view m" "lab_view (m\<lparr>lb_loaded := b\<rparr>) = lab_view m"
  "lab_view (m\<lparr>lb_clock := k\<rparr>) = lab_view m"
  "lab_view (put_file p t m) = (lab_view m)\<lparr>mc_files := (mc_files (lab_view m))(p \<mapsto> t)\<rparr>"
  "lab_view (drop_file p m) = (lab_view m)\<lparr>mc_files := (mc_files (lab_view m))(p := None)\<rparr>"
  "lab_view (put_dns s servers m) = (lab_view m)\<lparr>mc_dns := (mc_dns (lab_view m))(s := set_argument servers)\<rparr>"
  by (simp_all add: lab_view_def put_file_def drop_file_def put_dns_def dns_of_def fun_eq_iff)

lemma spend_view:
  "spend m m' = (e, m'') \<Longrightarrow> lab_view m'' = (if e = None then lab_view m' else lab_view m)"
  by (auto simp: spend_def split: if_splits)

lemma lab_set_view:
  assumes "lab_set s args m = (r, m')"
  shows "lab_view m' = (if \<exists>out. r = Inr out \<and> out_success out
     then (lab_view m)\<lparr>mc_dns := (mc_dns (lab_view m))(s := set_argument args)\<rparr> else lab_view m)"
proof -
  obtain e m1 where e: "spend m (put_dns s args m) = (e, m1)" by fastforce
  have v: "lab_view m1 = (if e = None
      then (lab_view m)\<lparr>mc_dns := (mc_dns (lab_view m))(s := set_argument args)\<rparr> else lab_view m)"
    using spend_view [OF e] lab_view_upd(6) by presburger
  show ?thesis
  proof (cases e)
    case None
    then have "r = Inr (lab_output True [])" "m' = m1" using assms e by (simp_all add: lab_set_def)
    moreover have "\<exists>out. r = Inr out \<and> out_success out"
      using calculation(1) by (intro exI [of _ "lab_output True []"]) (simp add: lab_output_def)
    ultimately show ?thesis using v None by presburger
  next
    case (Some x)
    then have "r = Inl x" "m' = m1" using assms e by (simp_all add: lab_set_def)
    then show ?thesis using v Some by simp
  qed
qed

lemma lab_launchctl_view: "lab_launchctl args m = (r, m') \<Longrightarrow> lab_view m' = lab_view m"
  by (auto simp: lab_launchctl_def dest!: spend_view split: if_splits prod.splits option.splits)

lemma lab_run_args:
  "lab_run NETWORKSETUP ([''-setdnsservers'', s] @ args) m = lab_set s args m"
  "lab_run NETWORKSETUP [''-getdnsservers'', s] m = lab_get s m"
  by (simp_all add: lab_run_def NETWORKSETUP_def)

interpretation lab: dns_machine lab_dns lab_view
proof
  fix p t s :: string and os os' :: lab and e re and r :: "string + cmd_output"
  fix program :: string and args :: "string list" and b
  show "h_is_file (dh_host lab_dns) p os \<longleftrightarrow> mc_files (lab_view os) p \<noteq> None"
    by (simp add: lab_dns_def lab_host_def)
  show "mc_files (lab_view os) p = Some t" if "h_read (dh_host lab_dns) p os = Inr t"
    using that by (auto simp: lab_dns_def lab_host_def split: option.splits)
  show "lab_view os' = (lab_view os)\<lparr>mc_files := (mc_files (lab_view os))(p \<mapsto> t)\<rparr> \<or> (e \<noteq> None \<and> lab_view os' = lab_view os)"
    if "h_install (dh_host lab_dns) p t os = (e, os')"
    using that spend_view by (auto simp: lab_dns_def lab_host_def)
  show "lab_view os' = (if re = None then (lab_view os)\<lparr>mc_files := (mc_files (lab_view os))(p := None)\<rparr> else lab_view os)"
    if "h_remove (dh_host lab_dns) p os = (re, os')"
    using that by (auto simp: lab_dns_def lab_host_def dest!: spend_view split: if_splits prod.splits)
  show "mc_files (lab_view os) p = None" if "h_remove (dh_host lab_dns) p os = (Some NotFound, os')"
    using that by (auto simp: lab_dns_def lab_host_def split: if_splits prod.splits)
  show "lab_view os' = (lab_view os)\<lparr>mc_files := (mc_files (lab_view os))(p \<mapsto> [])\<rparr> \<or> (e \<noteq> None \<and> lab_view os' = lab_view os)"
    if "h_touch (dh_host lab_dns) p os = (e, os')"
    using that spend_view by (auto simp: lab_dns_def lab_host_def)
  show "lab_view os' = lab_view os \<or> lab_view os' = (lab_view os)\<lparr>mc_files := (mc_files (lab_view os))(p \<mapsto> [])\<rparr>"
    if "h_lock (dh_host lab_dns) p os = (e, os')"
    using that spend_view [of os "put_file p [] os" e os'] by (auto simp: lab_dns_def lab_host_def split: if_splits)
  show "lab_view os' = lab_view os \<and> (\<forall>text. answered r text \<longrightarrow>
      parse_services text = mc_enabled (lab_view os) \<and> parse_all_services text = mc_services (lab_view os))"
    if "h_run (dh_host lab_dns) NETWORKSETUP [''-listallnetworkservices''] os = (r, os')"
    using that by (auto simp: lab_dns_def lab_host_def lab_run_def NETWORKSETUP_def answered_def lab_output_def)
  show "lab_view os' = lab_view os \<and> (\<forall>text servers. answered r text \<longrightarrow>
      parse_dns_servers (dh_ifindex lab_dns) text = Some servers \<longrightarrow> servers = mc_dns (lab_view os) s)"
    if "h_run (dh_host lab_dns) NETWORKSETUP [''-getdnsservers'', s] os = (r, os')"
    using that unfolding lab_dns_def lab_host_def
    by (auto simp: lab_run_args lab_get_def answered_def lab_output_def Let_def)
  show "lab_view os' = (if \<exists>out. r = Inr out \<and> out_success out
      then (lab_view os)\<lparr>mc_dns := (mc_dns (lab_view os))(s := set_argument args)\<rparr> else lab_view os)"
    if "h_run (dh_host lab_dns) NETWORKSETUP ([''-setdnsservers'', s] @ args) os = (r, os')"
    using that lab_set_view unfolding lab_dns_def lab_host_def host.simps dns_host.simps lab_run_args by blast
  show "lab_view os' = lab_view os"
    if "program \<noteq> NETWORKSETUP" "h_run (dh_host lab_dns) program args os = (r, os')"
    using that lab_launchctl_view by (auto simp: lab_dns_def lab_host_def lab_run_def split: if_splits)
  show "dh_decode lab_dns t = Inr b" if "dh_encode lab_dns b = Inr t"
    using that by (auto simp: lab_dns_def lab_encode_def split: if_splits)
  show "mc_dns (lab_view os) s \<noteq> [''Empty'']"
    by (simp add: dns_of_def set_argument_def split: option.split)
qed

text \<open>Two enabled services and a disabled one.\<close>

definition lab_start :: "nat \<Rightarrow> lab" where
  "lab_start fuel = \<lparr>lb_enabled = [''Wi-Fi'', ''LAN''], lb_services = [''Wi-Fi'', ''VPN'', ''LAN''],
     lb_dns = [(''Wi-Fi'', [''9.9.9.9''])], lb_files = [], lb_fuel = fuel,
     lb_loaded = False, lb_clock = 0\<rparr>"

definition lab_address :: ip_addr where "lab_address = V4 (IP4 127 0 0 1)"

definition lab_after :: "(lab, 'a) io \<Rightarrow> nat \<Rightarrow> lab" where
  "lab_after m fuel = snd (m (lab_start fuel))"

text \<open>The machine after a takeover with that many calls left.\<close>

definition lab_backup :: backup where
  "lab_backup = \<lparr>bk_version = 2,
     bk_services = [\<lparr>sd_name = ''Wi-Fi'', sd_servers = [''9.9.9.9'']\<rparr>, \<lparr>sd_name = ''LAN'', sd_servers = []\<rparr>],
     bk_fallback = [''9.9.9.9''], bk_takeovers = Some [lab_address]\<rparr>"

definition lab_over :: "nat \<Rightarrow> lab" where
  "lab_over fuel = \<lparr>lb_enabled = [''Wi-Fi'', ''LAN''], lb_services = [''Wi-Fi'', ''VPN'', ''LAN''],
     lb_dns = [(''LAN'', [''127.0.0.1'']), (''Wi-Fi'', [''127.0.0.1''])],
     lb_files = [(MARKER_PATH, []), (BACKUP_PATH, raw_encode lab_backup), (LOCK_PATH, [])], lb_fuel = fuel,
     lb_loaded = False, lb_clock = 0\<rparr>"

lemma lab_take_over: "take_over lab_dns lab_address (lab_start 20) = (Inr (), lab_over 15)"
  by code_simp

lemma lab_backed: "lab_decode (raw_encode lab_backup) = Inr lab_backup"
  by code_simp

lemma lab_backed_by: "lb_files m = lb_files (lab_over 0) \<Longrightarrow> backed_by lab_dns lab_view lab_backup m"
  using lab_backed by (auto simp: backed_by_def lab_dns_def lab_over_def MARKER_PATH_def BACKUP_PATH_def)

section \<open>Properties of the takeover\<close>

text \<open>C3: Whatever fails while DNS is being taken over, and wherever the program stops, the settings
  found on the machine are unchanged or recorded in the backup on disk with only the takeover
  address set anywhere; a takeover that reports success has switched exactly the enabled services,
  recorded their settings and left the marker.\<close>

theorem take_over_recoverable:
  assumes "dns_machine d view" and "take_over d server os = (r, os')"
  shows "recoverable d view (view os) server os' \<and> (\<not> isl r \<longrightarrow> taken_over d view (view os) server os')"
  by (rule dns_machine.take_over_spec [OF assms show_ip_not_Empty])

lemma take_over_recoverable_witness:
  "isl (fst (take_over lab_dns lab_address (lab_start 3)))
     \<and> dns_of (lab_after (take_over lab_dns lab_address) 3) ''Wi-Fi'' = [''127.0.0.1'']
     \<and> recoverable lab_dns lab_view (lab_view (lab_start 3)) lab_address (lab_after (take_over lab_dns lab_address) 3)
     \<and> taken_over lab_dns lab_view (lab_view (lab_start 5)) lab_address (lab_after (take_over lab_dns lab_address) 5)"
proof -
  note T = take_over_recoverable [OF lab.dns_machine_axioms surjective_pairing, of _ lab_address]
  have f: "isl (fst (take_over lab_dns lab_address (lab_start 3)))"
    "\<not> isl (fst (take_over lab_dns lab_address (lab_start 5)))"
    "dns_of (lab_after (take_over lab_dns lab_address) 3) ''Wi-Fi'' = [''127.0.0.1'']" by code_simp+
  show ?thesis using T [of "lab_start 3"] T [of "lab_start 5"] f by (simp add: lab_after_def)
qed

text \<open>C4: Releasing a takeover puts back the settings of before it and removes the backup; when that
  fails anywhere, the backup stays and the machine is still recoverable.  (The services switched by
  the takeover have to be listed still.)\<close>

theorem release_restores:
  assumes "dns_machine d view" and "take_over d server os = (Inr u, os1)" and "release d os1 = (r, os2)"
    and "set (mc_enabled (view os)) \<subseteq> set (mc_services (view os1))"
  shows "if isl r then recoverable d view (view os) server os2
            \<and> mc_files (view os2) BACKUP_PATH = mc_files (view os1) BACKUP_PATH
     else r = Inr True \<and> mc_dns (view os2) = mc_dns (view os) \<and> mc_files (view os2) BACKUP_PATH = None"
proof -
  from dns_machine.take_over_spec [OF assms(1,2) show_ip_not_Empty] have "taken_over d view (view os) server os1"
    by simp
  moreover have "\<forall>s. mc_dns (view os) s \<noteq> [''Empty'']" using dns_machine.dns_not_Empty [OF assms(1)] by blast
  ultimately show ?thesis by (rule dns_machine.release_spec [OF assms(1,3) _ assms(4)])
qed

lemma release_restores_witness:
  "mc_dns (lab_view (snd (release lab_dns (lab_over 15)))) = mc_dns (lab_view (lab_start 20))"
proof -
  have f: "\<not> isl (fst (release lab_dns (lab_over 15)))" by code_simp
  show ?thesis
    using release_restores [OF lab.dns_machine_axioms lab_take_over surjective_pairing] f
    by (simp add: lab_start_def lab_over_def)
qed

text \<open>C5: A tick of the watchdog writes ahead: it points a service at the takeover address only once
  the backup on disk names that service, it never drops what the backup held, and the settings it
  adds are the ones the machine had.  A tick that reports success has every service it knows and
  every enabled one pointing at the takeover address.\<close>

theorem watchdog_writes_ahead:
  assumes "dns_machine d view" and "backed_by d view b os" and "watchdog_tick d server os = (r, os')"
  shows "\<exists>b'. backed_by d view b' os' \<and> grown b b' (view os)
     \<and> (\<forall>s. mc_dns (view os') s = mc_dns (view os) s
          \<or> (s \<in> sd_name ` set (bk_services b') \<and> mc_dns (view os') s = [show_ip server]))
     \<and> (\<forall>out. r = Inr out \<longrightarrow> out \<noteq> NotActive \<longrightarrow>
          (\<forall>s \<in> set (mc_services (view os)) \<inter> (sd_name ` set (bk_services b) \<union> set (mc_enabled (view os))).
             mc_dns (view os') s = [show_ip server]))"
  using dns_machine.watchdog_tick_spec [OF assms(1,3,2)]
  unfolding dns_machine.watched_def [OF assms(1)] .

text \<open>After a takeover the user set the enabled service LAN back and enabled VPN.\<close>

definition lab_drifted :: lab where
  "lab_drifted = (put_dns ''LAN'' [''8.8.8.8''] (lab_over 9))\<lparr>lb_enabled := [''Wi-Fi'', ''VPN'', ''LAN'']\<rparr>"

definition lab_tick :: lab where
  "lab_tick = snd (watchdog_tick lab_dns lab_address lab_drifted)"

lemma lab_drifted_backed: "backed_by lab_dns lab_view lab_backup lab_drifted"
  by (rule lab_backed_by) (simp add: lab_drifted_def put_dns_def lab_over_def)

lemma watchdog_writes_ahead_witness:
  "mc_dns (lab_view lab_tick) ''LAN'' = [''127.0.0.1''] \<and> mc_dns (lab_view lab_tick) ''VPN'' = [''127.0.0.1'']"
proof -
  let ?out = "Inr (Reasserted [''LAN'', ''VPN''] [] (Some (Refused ''no non-loopback global DNS server'')))"
  have f: "fst (watchdog_tick lab_dns lab_address lab_drifted) = ?out" "show_ip lab_address = ''127.0.0.1''"
    by code_simp+
  have g: "lb_services lab_drifted = [''Wi-Fi'', ''VPN'', ''LAN'']" "lb_enabled lab_drifted = [''Wi-Fi'', ''VPN'', ''LAN'']"
    by (simp_all add: lab_drifted_def lab_over_def put_dns_def)
  have "watchdog_tick lab_dns lab_address lab_drifted = (?out, lab_tick)"
    using f(1) by (simp add: lab_tick_def prod_eq_iff)
  then have "\<forall>s \<in> set (mc_services (lab_view lab_drifted)) \<inter>
      (sd_name ` set (bk_services lab_backup) \<union> set (mc_enabled (lab_view lab_drifted))).
      mc_dns (lab_view lab_tick) s = [show_ip lab_address]"
    using watchdog_writes_ahead [OF lab.dns_machine_axioms lab_drifted_backed] by blast
  then show ?thesis using f(2) by (simp add: g)
qed

text \<open>C26: The check before the daemon reports its takeover intact reads only, and says yes exactly
  if some service is the takeover's concern and each of those (named in the backup, enabled, or
  resolving through a takeover address) has the takeover address as its only server.\<close>

theorem intact_is_exact:
  assumes "dns_machine d view" and "backed_by d view b os" and "takeover_intact d server os = (Inr ok, os')"
  defines "mine s \<equiv> s \<in> sd_name ` set (bk_services b) \<or> s \<in> set (mc_enabled (view os))
     \<or> dns_may_depend_on_takeover (dh_ifindex d) b s (mc_dns (view os) s)"
  shows "view os' = view os \<and> ok = ((\<exists>s \<in> set (mc_services (view os)). mine s)
     \<and> (\<forall>s \<in> set (mc_services (view os)). mine s \<longrightarrow> mc_dns (view os) s = [show_ip server]))"
  using dns_machine.takeover_intact_spec [OF assms(1,3,2)]
  unfolding mine_def dns_machine.owned_def [OF assms(1)] by simp

lemma intact_is_exact_witness:
  "fst (takeover_intact lab_dns lab_address lab_drifted) = Inr False
     \<and> lab_view (snd (takeover_intact lab_dns lab_address lab_drifted)) = lab_view lab_drifted"
proof -
  have f: "fst (takeover_intact lab_dns lab_address lab_drifted) = Inr False" by code_simp
  then have go: "takeover_intact lab_dns lab_address lab_drifted
      = (Inr False, snd (takeover_intact lab_dns lab_address lab_drifted))"
    by (simp add: prod_eq_iff)
  show ?thesis using intact_is_exact [OF lab.dns_machine_axioms lab_drifted_backed go] f by simp
qed

definition usable_server :: "ip_addr list \<Rightarrow> socket_addr \<Rightarrow> bool" where
  "usable_server denied a \<longleftrightarrow> \<not> is_loopback (sock_ip a) \<and> \<not> is_unspecified (sock_ip a)
     \<and> \<not> is_multicast (sock_ip a) \<and> sock_ip a \<notin> set denied"

lemma retain_servers_Cons:
  "retain_servers denied seen (a # rest) =
     (if usable_server denied a \<and> a \<notin> set seen then a # retain_servers denied (a # seen) rest
      else retain_servers denied seen rest)"
  by (simp add: Let_def usable_server_def)

lemma retain_servers_usable:
  "a \<in> set (retain_servers denied seen xs) \<Longrightarrow> usable_server denied a \<and> a \<notin> set seen"
proof (induction xs arbitrary: seen)
  case (Cons x xs)
  from Cons.prems consider "a = x" "usable_server denied a" "x \<notin> set seen"
    | "a \<in> set (retain_servers denied (x # seen) xs)" | "a \<in> set (retain_servers denied seen xs)"
    by (auto simp: retain_servers_Cons simp del: retain_servers.simps(2) split: if_splits)
  then show ?case using Cons.IH [of "x # seen"] Cons.IH [of seen] by cases auto
qed simp

lemma retain_servers_distinct: "distinct (retain_servers denied seen xs)"
  by (induction xs arbitrary: seen)
     (auto simp: retain_servers_Cons simp del: retain_servers.simps(2) dest: retain_servers_usable)

text \<open>The servers the daemon falls back to are distinct, never loopback, unspecified or multicast,
  and never at an address the daemon itself listens on, so a fallback query cannot come back.\<close>

lemma fallback_servers_ok:
  assumes "fallback_servers d listeners os = (Inr servers, os')"
  shows "distinct servers \<and> (\<forall>a \<in> set servers. \<not> is_loopback (sock_ip a) \<and> \<not> is_unspecified (sock_ip a)
     \<and> \<not> is_multicast (sock_ip a) \<and> sock_ip a \<notin> sock_ip ` set listeners)"
proof -
  from assms obtain xs where "servers = filter_fallback_servers xs (map sock_ip listeners)"
    by (auto simp: fallback_servers_def io_bind_Inr io_check_def io_return_def)
  then show ?thesis
    using retain_servers_distinct retain_servers_usable
    by (fastforce simp: filter_fallback_servers_def usable_server_def)
qed

end
