(* ===== verification/Net_Roundtrip.thy ===== *)
theory Net_Roundtrip
  imports Net_Text
begin

text \<open>
  Reading the printed text of an IPv6 address gives the address back: hexadecimal groups, the
  compressed run of zero groups and embedded IPv4 addresses.
\<close>

declare read_groups.simps [simp del]

section \<open>Groups of digits\<close>

lemma read_given_char_Some: "read_given_char c s = Some r \<longleftrightarrow> s = c # r"
  by (cases s) (auto simp: read_given_char_def)

lemma read_digits_suffix: "read_digits radix limit m acc n s = Some (v, k, r) \<Longrightarrow> set r \<subseteq> set s"
  by (induction radix limit m acc n s rule: read_digits.induct) (auto split: option.splits if_splits)

lemma read_number_suffix: "read_number radix limit m z s = Some (v, r) \<Longrightarrow> set r \<subseteq> set s"
  using read_digits_suffix by (fastforce simp: read_number_def split: option.splits if_splits)

lemma read_ipv4_dot: "CHR ''.'' \<notin> set s \<Longrightarrow> read_ipv4 s = None"
proof (rule ccontr)
  assume dot: "CHR ''.'' \<notin> set s" and "read_ipv4 s \<noteq> None"
  then obtain a r b r2 where o: "read_octet 0 s = Some (a, r)" "read_octet 1 r = Some (b, r2)"
    by (auto simp: read_ipv4_def bind_eq_Some_conv)
  from o(1) have "set r \<subseteq> set s" by (auto simp: read_octet_def read_separated_def dest: read_number_suffix)
  moreover from o(2) obtain r1 where "r = CHR ''.'' # r1"
    by (auto simp: read_octet_def read_separated_def bind_eq_Some_conv read_given_char_Some)
  ultimately show False using dot by auto
qed

lemma to_digit_hex_char: "d < 16 \<Longrightarrow> to_digit 16 (hex_char d) = Some d"
  by (auto simp: to_digit_def hex_char_def hex_value_def code_char_of)

lemma show_hex_chars: "c \<in> set (show_hex n) \<Longrightarrow> to_digit 16 c \<noteq> None"
proof (induction n rule: show_hex.induct)
  case (1 n)
  then show ?case using to_digit_hex_char [of n] to_digit_hex_char [of "n mod 16"]
    by (subst (asm) show_hex.simps) (auto split: if_splits)
qed

lemma show_hex_length: "n < 16 ^ Suc j \<Longrightarrow> length (show_hex n) \<le> Suc j \<and> show_hex n \<noteq> []"
proof (induction n arbitrary: j rule: show_hex.induct)
  case (1 n)
  show ?case
  proof (cases "n < 16")
    case False
    with 1(2) obtain k where j: "j = Suc k" by (cases j) auto
    with 1(2) have "n div 16 < 16 ^ Suc k" by (simp add: less_mult_imp_div_less)
    from 1(1) [OF False this] j show ?thesis using False by (simp add: show_hex.simps [of n])
  qed (simp add: show_hex.simps [of n])
qed

lemma read_digits_hex:
  "k \<le> 65535 \<Longrightarrow> read_digits 16 65535 (Some 4) 0 0 (show_hex k @ rest)
     = read_digits 16 65535 (Some 4) k (length (show_hex k)) rest"
proof (induction k arbitrary: rest rule: show_hex.induct)
  case (1 k)
  show ?case
  proof (cases "k < 16")
    case True
    then show ?thesis using to_digit_hex_char [of k] by (simp add: show_hex.simps [of k])
  next
    case False
    have len: "length (show_hex (k div 16)) \<le> 3"
      using show_hex_length [of "k div 16" 2] 1(2) by (simp add: less_mult_imp_div_less)
    have "k div 16 \<le> 65535" using 1(2) by (meson div_le_dividend order_trans)
    from 1(1) [OF False this, of "hex_char (k mod 16) # rest"] False len 1(2) to_digit_hex_char [of "k mod 16"]
    show ?thesis by (simp add: show_hex.simps [of k])
  qed
qed

definition stops :: "string \<Rightarrow> bool" where
  "stops s \<longleftrightarrow> s = [] \<or> to_digit 16 (hd s) = None"

lemma read_number_hex:
  assumes "stops rest"
  shows "read_number 16 65535 (Some 4) True (show_hex (unat (g :: u16)) @ rest) = Some (unat g, rest)"
proof -
  have g: "unat g \<le> 65535" using unat_u16_lt [of g] by simp
  have "read_digits 16 65535 (Some 4) 0 0 (show_hex (unat g) @ rest) = Some (unat g, length (show_hex (unat g)), rest)"
    using read_digits_hex [OF g, of rest] assms by (cases rest) (simp_all add: stops_def)
  moreover have "show_hex (unat g) \<noteq> []" using show_hex_length [of "unat g" 3] g by simp
  ultimately show ?thesis by (simp add: read_number_def)
qed

lemma read_number_stops: "stops s \<Longrightarrow> read_number 16 65535 (Some 4) True s = None"
  by (cases s) (auto simp: read_number_def stops_def)

lemma not_hex_digit [simp]: "to_digit 16 (CHR '':'') = None" "to_digit 16 (CHR ''.'') = None" "to_digit 16 (CHR ''%'') = None"
  by code_simp+

section \<open>Lists of groups\<close>

definition group_text :: "nat \<Rightarrow> u16 list \<Rightarrow> string" where
  "group_text i gs = (if i > 0 \<and> gs \<noteq> [] then '':'' else []) @ show_groups gs"

lemma group_text_simps:
  "group_text i [] = []"
  "group_text i (g # gs) = (if i > 0 then '':'' else []) @ show_hex (unat g) @ group_text (Suc i) gs"
  by (cases gs; simp add: group_text_def show_groups_def)+

lemma group_text_no_dot: "CHR ''.'' \<notin> set (group_text i gs)"
proof (induction gs arbitrary: i)
  case (Cons g gs)
  have "CHR ''.'' \<notin> set (show_hex (unat g))" using show_hex_chars by fastforce
  with Cons show ?case by (simp add: group_text_simps)
qed (simp add: group_text_simps)

text \<open>Where a list of groups ends.\<close>

definition group_end :: "string \<Rightarrow> bool" where
  "group_end s \<longleftrightarrow> CHR ''.'' \<notin> set s \<and> (s = [] \<or> (\<exists>r. s = ''::'' @ r))"

lemma group_end_stops: "group_end s \<Longrightarrow> stops s"
  by (auto simp: group_end_def stops_def)

lemma read_groups_end:
  assumes "group_end s"
  shows "read_groups limit i s = ([], False, s)"
proof -
  have "read_separated (CHR '':'') i (read_number 16 65535 (Some 4) True) s = None"
    using assms read_number_stops by (auto simp: read_separated_def group_end_def read_given_char_def stops_def)
  moreover have "read_separated (CHR '':'') i read_ipv4 s = None"
    using assms read_ipv4_dot by (auto simp: read_separated_def group_end_def read_given_char_def)
  ultimately show ?thesis by (subst read_groups.simps) simp
qed

lemma read_groups_show:
  "group_end rest \<Longrightarrow> i + length gs \<le> limit \<Longrightarrow> read_groups limit i (group_text i gs @ rest) = (gs, False, rest)"
proof (induction gs arbitrary: i)
  case Nil
  then show ?case by (simp add: group_text_simps read_groups_end)
next
  case (Cons g gs)
  let ?tail = "group_text (Suc i) gs @ rest" and ?text = "group_text i (g # gs) @ rest"
  have "stops ?tail" using group_end_stops [OF Cons.prems(1)]
    by (cases gs) (auto simp: group_text_simps stops_def)
  then have "read_number 16 65535 (Some 4) True (show_hex (unat g) @ ?tail) = Some (unat g, ?tail)"
    by (rule read_number_hex)
  then have number: "read_separated (CHR '':'') i (read_number 16 65535 (Some 4) True) ?text = Some (unat g, ?tail)"
    by (cases i) (simp_all add: read_separated_def group_text_simps read_given_char_def)
  have "CHR ''.'' \<notin> set ?text" using group_text_no_dot [of i "g # gs"] Cons.prems(1) by (simp add: group_end_def)
  then have v4: "read_separated (CHR '':'') i read_ipv4 ?text = None"
    using read_ipv4_dot by (cases ?text) (auto simp: read_separated_def read_given_char_def)
  have "read_groups limit (Suc i) ?tail = (gs, False, rest)" using Cons by simp
  then show ?case using Cons.prems(2) number v4 by (subst read_groups.simps) (simp add: word_of_nat_eq_iff Let_def)
qed

section \<open>The compressed run\<close>

definition run_ok :: "u16 list \<Rightarrow> nat \<times> nat \<Rightarrow> bool" where
  "run_ok gs r \<longleftrightarrow> fst r + snd r \<le> length gs \<and> (\<forall>j < snd r. gs ! (fst r + j) = 0)"

lemma zero_run_ok: "zero_run gs \<le> length gs \<and> (\<forall>j < zero_run gs. gs ! j = 0)"
  by (induction gs) (auto simp: nth_Cons split: nat.splits)

lemma longest_run_ok: "i \<le> length fs \<Longrightarrow> gs = drop i fs \<Longrightarrow> run_ok fs best \<Longrightarrow> run_ok fs (longest_run i gs best)"
proof (induction i gs best rule: longest_run.induct)
  case (2 i g gs best)
  have i: "i < length fs" "gs = drop (Suc i) fs" using 2(3) by (metis drop_all leI list.distinct(1), metis drop_Suc drop_tl list.sel(3))
  have "run_ok fs (i, zero_run (g # gs))"
    using zero_run_ok [of "g # gs"] i(1) unfolding run_ok_def 2(3) by (auto simp: nth_drop)
  with 2(4) have "run_ok fs (if zero_run (g # gs) > snd best then (i, zero_run (g # gs)) else best)" by simp
  then show ?case using 2(1) i by (subst longest_run.simps) simp
qed simp

lemma run_ok_split:
  assumes "run_ok gs (s, n)"
  shows "take s gs @ replicate n 0 @ drop (s + n) gs = gs"
proof (rule nth_equalityI)
  show "length (take s gs @ replicate n 0 @ drop (s + n) gs) = length gs"
    using assms by (simp add: run_ok_def)
  show "(take s gs @ replicate n 0 @ drop (s + n) gs) ! i = gs ! i"
    if "i < length (take s gs @ replicate n 0 @ drop (s + n) gs)" for i
    using that assms spec [of _ "i - s"] by (auto simp: run_ok_def nth_append min_def)
qed

section \<open>Whole addresses\<close>

lemma ip6_of_groups_of [simp]: "ip6_of_groups (groups_of ip) = ip" "length (groups_of ip) = 8"
  by (simp_all add: ip6_of_groups_def groups_of_def split: ip6.split)

lemma read_ipv6_plain: "read_ipv6 (show_groups (groups_of ip)) = Some (ip, [])"
  using read_groups_show [of "[]" 0 "groups_of ip" 8]
  by (simp add: read_ipv6_def group_text_def group_end_def)

lemma read_ipv6_compressed:
  assumes "run_ok (groups_of ip) (s, n)" "n > 1"
  shows "read_ipv6 (show_groups (take s (groups_of ip)) @ ''::'' @ show_groups (drop (s + n) (groups_of ip))) = Some (ip, [])"
proof -
  let ?gs = "groups_of ip"
  let ?head = "take s ?gs" and ?tail = "drop (s + n) ?gs"
  have len: "s + n \<le> 8" using assms(1) by (simp add: run_ok_def)
  then have h: "length ?head = s" "length ?tail = 8 - (s + n)" by simp_all
  have dot: "CHR ''.'' \<notin> set (show_groups ?tail)" using group_text_no_dot [of 0 ?tail] by (simp add: group_text_def)
  have "read_groups 8 0 (show_groups ?head @ ''::'' @ show_groups ?tail) = (?head, False, ''::'' @ show_groups ?tail)"
    using read_groups_show [of "''::'' @ show_groups ?tail" 0 ?head 8] dot by (simp add: group_text_def group_end_def)
  moreover have "read_groups (8 - (s + 1)) 0 (show_groups ?tail) = (?tail, False, [])"
    using read_groups_show [of "[]" 0 ?tail "8 - (s + 1)"] assms(2) len by (simp add: group_text_def group_end_def)
  moreover have "8 - s - (8 - (s + n)) = n" using len by simp
  ultimately show ?thesis
    using h len assms(2) run_ok_split [OF assms(1)] by (simp add: read_ipv6_def read_given_char_def)
qed

lemma read_ipv6_mapped:
  assumes "to_canonical (V6 ip) = V4 v4"
  shows "read_ipv6 (''::ffff:'' @ show_ip4 v4) = Some (ip, [])"
proof -
  obtain a b c d e f g h where ip: "ip = IP6 a b c d e f g h" by (cases ip)
  with assms have z: "a = 0" "b = 0" "c = 0" "d = 0" "e = 0" "f = 0xFFFF"
    and v4: "v4 = IP4 (hi_byte g) (lo_byte g) (hi_byte h) (lo_byte h)" by (auto split: if_splits)
  have pair: "pair16 (hi_byte w) (lo_byte w) = w" for w
    using be16_roundtrip [of w] by (simp add: pair16_def hi_byte_def lo_byte_def)
  have v4_none: "read_ipv4 (CHR '':'' # t) = None" "read_ipv4 (CHR ''f'' # t) = None" for t
    by (simp_all add: read_ipv4_def read_octet_def read_separated_def read_number_def to_digit_def hex_value_def code_def)
  have f: "to_digit 16 (CHR ''f'') = Some 15" by code_simp
  have head: "read_groups 8 0 (''::ffff:'' @ show_ip4 v4) = ([], False, ''::ffff:'' @ show_ip4 v4)"
    by (subst read_groups.simps) (simp add: v4_none read_separated_def read_number_def)
  have tail: "read_groups 7 0 (''ffff:'' @ show_ip4 v4) = ([0xFFFF, g, h], True, [])"
  proof -
    have "read_groups 7 1 (CHR '':'' # show_ip4 v4) = ([g, h], True, [])"
      using read_ipv4_show [of "[]" v4] v4 pair
      by (subst read_groups.simps) (simp add: read_separated_def read_given_char_def)
    then show ?thesis
      by (subst read_groups.simps) (simp add: v4_none f read_separated_def read_number_def)
  qed
  show ?thesis using head tail z ip
    by (simp add: read_ipv6_def read_given_char_def ip6_of_groups_def numeral_eq_Suc)
qed

lemma read_ipv6_show: "read_ipv6 (show_ip6 ip) = Some (ip, [])"
proof (cases "to_canonical (V6 ip)")
  case (V4 v4)
  then show ?thesis using read_ipv6_mapped by (simp add: show_ip6_def)
next
  case (V6 x)
  obtain s n where r: "longest_run 0 (groups_of ip) (0, 0) = (s, n)" by fastforce
  have "run_ok (groups_of ip) (s, n)"
    using longest_run_ok [of 0 "groups_of ip" "groups_of ip" "(0, 0)"] r by (simp add: run_ok_def)
  with V6 r show ?thesis
    using read_ipv6_compressed [of ip s n] read_ipv6_plain [of ip] by (simp add: show_ip6_def)
qed

lemma read_ipv4_show_ip6: "read_ipv4 (show_ip6 ip) = None"
proof (cases "to_canonical (V6 ip)")
  case (V4 v4)
  then show ?thesis
    by (simp add: show_ip6_def read_ipv4_def read_octet_def read_separated_def read_number_def)
next
  case (V6 x)
  have "CHR ''.'' \<notin> set (show_groups gs)" for gs
    using group_text_no_dot [of 0 gs] by (simp add: group_text_def)
  with V6 have "CHR ''.'' \<notin> set (show_ip6 ip)" by (auto simp: show_ip6_def split: prod.splits)
  then show ?thesis by (rule read_ipv4_dot)
qed

text \<open>Every address is read back from its text.\<close>

lemma parse_ipv6_show: "parse_ipv6 (show_ip6 ip) = Some ip"
  by (simp add: parse_ipv6_def parse_whole_def read_ipv6_show)

lemma parse_ip_show: "parse_ip (show_ip ip) = Some ip"
  by (cases ip) (simp add: parse_ip_show4, simp add: parse_ip_def parse_whole_def read_ip_def read_ipv4_show_ip6 read_ipv6_show)

section \<open>A scope stops every parser\<close>

definition consumes :: "string \<Rightarrow> string \<Rightarrow> bool" where
  "consumes s r \<longleftrightarrow> (\<exists>p. s = p @ r \<and> CHR ''%'' \<notin> set p)"

lemma consumes_refl [simp]: "consumes s s"
  by (simp add: consumes_def)

lemma consumes_trans: "consumes s t \<Longrightarrow> consumes t r \<Longrightarrow> consumes s r"
  by (fastforce simp: consumes_def)

lemma consumes_Cons: "c \<noteq> CHR ''%'' \<Longrightarrow> consumes s r \<Longrightarrow> consumes (c # s) r"
  unfolding consumes_def by (metis append_Cons set_ConsD)

lemma to_digit_percent: "to_digit radix (CHR ''%'') = None"
  by (simp add: to_digit_def hex_value_def code_def)

lemma read_digits_consumes: "read_digits radix limit m acc n s = Some (v, k, r) \<Longrightarrow> consumes s r"
proof (induction radix limit m acc n s rule: read_digits.induct)
  case (2 radix limit m acc n c s)
  show ?case
  proof (cases "to_digit radix c")
    case (Some d)
    with to_digit_percent have "c \<noteq> CHR ''%''" by auto
    with 2 Some show ?thesis by (auto intro: consumes_Cons split: if_splits)
  qed (use 2 in auto)
qed simp

lemma read_number_consumes: "read_number radix limit m z s = Some (v, r) \<Longrightarrow> consumes s r"
  using read_digits_consumes by (fastforce simp: read_number_def split: option.splits if_splits)

lemma read_separated_consumes:
  "read_separated sep i inner s = Some (v, r) \<Longrightarrow> sep \<noteq> CHR ''%'' \<Longrightarrow>
     (\<And>s v r. inner s = Some (v, r) \<Longrightarrow> consumes s r) \<Longrightarrow> consumes s r"
  by (auto simp: read_separated_def bind_eq_Some_conv read_given_char_Some intro: consumes_Cons split: if_splits)

lemma read_octet_consumes: "read_octet i s = Some (v, r) \<Longrightarrow> consumes s r"
  unfolding read_octet_def using read_separated_consumes read_number_consumes by fastforce

lemma read_ipv4_consumes: "read_ipv4 s = Some (v, r) \<Longrightarrow> consumes s r"
  by (auto simp: read_ipv4_def bind_eq_Some_conv dest!: read_octet_consumes intro: consumes_trans)

lemma read_groups_consumes: "read_groups limit i s = (gs, v4, r) \<Longrightarrow> consumes s r"
proof (induction limit i s arbitrary: gs v4 r rule: read_groups.induct)
  case (1 limit i s)
  show ?case
  proof (cases "i \<ge> limit")
    case True
    with 1(2) show ?thesis by (simp add: read_groups.simps)
  next
    case False
    let ?number = "read_separated (CHR '':'') i (read_number 16 65535 (Some 4) True) s"
    let ?v4 = "if i + 1 < limit then read_separated (CHR '':'') i read_ipv4 s else None"
    consider a rest where "?v4 = Some (a, rest)" "r = rest"
      | "?number = None" "r = s"
      | g rest gs' v' where "?number = Some (g, rest)" "read_groups limit (i + 1) rest = (gs', v', r)"
      using 1(2) False
      by (subst (asm) read_groups.simps) (auto simp: Let_def split: option.splits prod.splits if_splits ip4.splits)
    then show ?thesis
    proof cases
      case 1
      then have "read_separated (CHR '':'') i read_ipv4 s = Some (a, r)" by (simp split: if_splits)
      then show ?thesis by (rule read_separated_consumes) (simp_all add: read_ipv4_consumes)
    next
      case (3 g rest gs' v')
      then have "consumes s rest"
        by (elim read_separated_consumes) (simp_all add: read_number_consumes)
      moreover have "consumes rest r" by (rule 1(1) [OF False 3(1) refl 3(2)])
      ultimately show ?thesis by (rule consumes_trans)
    qed simp
  qed
qed

lemma read_ipv6_consumes: "read_ipv6 s = Some (v, r) \<Longrightarrow> consumes s r"
proof -
  assume go: "read_ipv6 s = Some (v, r)"
  obtain head v4 rest where g: "read_groups 8 0 s = (head, v4, rest)" by (metis prod_cases3)
  note c = read_groups_consumes [OF g]
  show ?thesis
  proof (cases "length head = 8")
    case False
    with go g obtain t where t: "rest = ''::'' @ t"
      by (auto simp: read_ipv6_def bind_eq_Some_conv read_given_char_Some split: if_splits)
    obtain tail v4' r' where g2: "read_groups (8 - (length head + 1)) 0 t = (tail, v4', r')" by (metis prod_cases3)
    have "r' = r" using go g t g2 False by (simp add: read_ipv6_def read_given_char_def split: if_splits)
    then have "consumes t r" using read_groups_consumes [OF g2] by simp
    then have "consumes rest r" using t(1) by (simp add: consumes_Cons)
    with c show ?thesis by (rule consumes_trans)
  qed (use go g c in \<open>simp add: read_ipv6_def\<close>)
qed

lemma parse_ip_percent: "CHR ''%'' \<in> set s \<Longrightarrow> parse_ip s = None"
proof (rule ccontr)
  assume p: "CHR ''%'' \<in> set s" and "parse_ip s \<noteq> None"
  then obtain ip where "read_ip s = Some (ip, [])"
    by (auto simp: parse_ip_def parse_whole_def split: option.splits prod.splits list.splits)
  then have "consumes s []"
    using read_ipv4_consumes read_ipv6_consumes by (fastforce simp: read_ip_def split: option.splits)
  with p show False by (simp add: consumes_def)
qed

section \<open>No white space\<close>

lemma to_digit_space: "to_digit 16 c \<noteq> None \<Longrightarrow> \<not> ascii_space c"
  by (auto simp: to_digit_def hex_value_def ascii_space_def split: if_splits)

lemma show_nat_space: "c \<in> set (show_nat n) \<Longrightarrow> \<not> ascii_space c"
  using show_nat_digits [of n] by (auto simp: ascii_digit_def ascii_space_def)

lemma show_ip4_space: "c \<in> set (show_ip4 a) \<Longrightarrow> \<not> ascii_space c"
  by (auto simp: show_ip4_def ascii_space_code dest: show_nat_space [unfolded ascii_space_code] split: ip4.splits)

lemma show_groups_space: "c \<in> set (show_groups gs) \<Longrightarrow> \<not> ascii_space c"
  using set_join_with [of "'':''" "map (\<lambda>g. show_hex (unat g)) gs"] show_hex_chars to_digit_space
  by (fastforce simp: show_groups_def ascii_space_code)

lemma show_ip6_space: "c \<in> set (show_ip6 a) \<Longrightarrow> \<not> ascii_space c"
  by (auto simp: show_ip6_def ascii_space_code dest: show_ip4_space [unfolded ascii_space_code]
      show_groups_space [unfolded ascii_space_code] split: ip_addr.splits prod.splits if_splits)

end
