(* ===== verification/Osdns_Text.thy ===== *)
theory Osdns_Text
  imports Osdns Net_Roundtrip
begin

text \<open>
  Reading the text of DNS servers: the addresses the backup stores, and the resolvers of
  \<open>scutil --dns\<close> that apply to every query.
\<close>

section \<open>Addresses in the backup\<close>

fun on_port_53 :: "socket_addr \<Rightarrow> socket_addr" where
  "on_port_53 (SocketV4 ip port) = SocketV4 ip 53"
| "on_port_53 (SocketV6 ip port scope) = SocketV6 ip 53 scope"

lemma serialize_no_space: "\<forall>c \<in> set (serialize_dns_socket a). \<not> ascii_space c"
  by (cases a) (auto dest: show_ip4_space show_ip6_space show_nat_space simp: ascii_space_code
      dest: show_ip4_space [unfolded ascii_space_code] show_ip6_space [unfolded ascii_space_code]
        show_nat_space [unfolded ascii_space_code])

lemma dns_socket_roundtrip_line:
  "parse_dns_socket ifindex (serialize_dns_socket a) = Inr (on_port_53 a)"
proof -
  note t = trim_id [OF serialize_no_space [of a]]
  show ?thesis
  proof (cases a)
    case (SocketV4 ip port)
    with t show ?thesis by (simp add: parse_dns_socket_def parse_ip_show4)
  next
    case (SocketV6 ip port scope)
    show ?thesis
    proof (cases "scope = 0")
      case True
      with t SocketV6 show ?thesis using parse_ip_show [of "V6 ip"] by (simp add: parse_dns_socket_def)
    next
      case False
      have "\<forall>c \<in> set (show_nat (unat scope)). c \<noteq> CHR ''%''"
        using show_nat_digits [of "unat scope"] by (auto simp: ascii_digit_def code_def)
      then have "rsplit_once ''%'' (show_ip6 ip @ CHR ''%'' # show_nat (unat scope)) = Some (show_ip6 ip, show_nat (unat scope))"
        by (rule rsplit_once_last)
      moreover have "parse_ip (show_ip6 ip @ CHR ''%'' # show_nat (unat scope)) = None"
        by (rule parse_ip_percent) simp
      moreover have "parse_unsigned 4294967295 (show_nat (unat scope)) = Some (unat scope)"
        using unat_u32_lt [of scope] by (simp add: parse_unsigned_show)
      ultimately show ?thesis using t SocketV6 False by (simp add: parse_dns_socket_def parse_ipv6_show)
    qed
  qed
qed

section \<open>The resolvers scutil prints\<close>

text \<open>A resolver, with a domain it is limited to or not.\<close>

definition nameserver_line :: "socket_addr \<Rightarrow> string" where
  "nameserver_line a = ''  nameserver[0] : '' @ serialize_dns_socket a"

fun resolver_lines :: "bool \<times> socket_addr list \<Rightarrow> string list" where
  "resolver_lines (scoped, servers) =
     ''resolver #1'' # (if scoped then [''  domain   : local''] else [])
     @ map nameserver_line servers @ [''  flags    : Request A records'', []]"

definition scutil_lines :: "(bool \<times> socket_addr list) list \<Rightarrow> (bool \<times> socket_addr list) list \<Rightarrow> string list" where
  "scutil_lines unlimited interface =
     ''DNS configuration'' # [] # concat (map resolver_lines unlimited)
     @ ''DNS configuration (for scoped queries)'' # [] # concat (map resolver_lines interface)"

definition unlines :: "string list \<Rightarrow> string" where
  "unlines ls = concat (map (\<lambda>l. l @ [char_of (10 :: nat)]) ls)"

definition plain_line :: "string \<Rightarrow> bool" where
  "plain_line l \<longleftrightarrow> char_of (10 :: nat) \<notin> set l \<and> char_of (13 :: nat) \<notin> set l"

lemma split_char_line: "sep \<notin> set l \<Longrightarrow> split_char sep (l @ sep # t) = l # split_char sep t"
  by (induction l) auto

lemma split_unlines:
  "list_all plain_line ls \<Longrightarrow> split_char (char_of (10 :: nat)) (unlines ls) = ls @ [[]]"
  by (induction ls) (simp_all add: unlines_def plain_line_def split_char_line)

lemma text_lines_unlines: "list_all plain_line ls \<Longrightarrow> text_lines (unlines ls) = ls"
proof -
  assume p: "list_all plain_line ls"
  then have "map strip_cr ls = ls"
    by (auto simp: list_all_iff plain_line_def strip_cr_def intro!: map_idI) (metis last_in_set)
  with split_unlines [OF p] show ?thesis by (simp add: text_lines_def Let_def butlast_append)
qed

lemma no_space_plain: "\<forall>c \<in> set l. \<not> ascii_space c \<Longrightarrow> plain_line l"
  by (auto simp: plain_line_def ascii_space_def code_char_of)

lemma plain_line_append: "plain_line (a @ b) \<longleftrightarrow> plain_line a \<and> plain_line b"
  by (auto simp: plain_line_def)

lemma plain_literals: "plain_line ''DNS configuration''" "plain_line ''DNS configuration (for scoped queries)''"
  "plain_line ''resolver #1''" "plain_line ''  domain   : local''" "plain_line ''  flags    : Request A records''"
  "plain_line ''  nameserver[0] : ''" "plain_line []"
  by (simp_all add: plain_line_def char_of_def bit_Suc_0_iff)

lemma plain_nameserver: "plain_line (nameserver_line a)"
  using no_space_plain [OF serialize_no_space [of a]] plain_literals(6)
  unfolding nameserver_line_def plain_line_append by blast

lemma plain_scutil: "list_all plain_line (scutil_lines unlimited interface)"
proof -
  have "list_all plain_line (resolver_lines r)" for r
    using plain_nameserver plain_literals by (cases r) (auto simp: list_all_iff)
  then show ?thesis using plain_literals by (auto simp: scutil_lines_def list_all_iff)
qed

section \<open>Scanning\<close>

lemma show_not_Nil: "show_ip4 a4 \<noteq> []" "show_ip6 a6 \<noteq> []"
proof -
  show "show_ip4 a4 \<noteq> []" using parse_ip_show4 [of a4] by (auto simp: parse_ip_def parse_whole_def read_ip_def read_ipv4_def
      read_octet_def read_separated_def read_number_def read_ipv6_def read_groups.simps read_given_char_def)
  show "show_ip6 a6 \<noteq> []" using parse_ipv6_show [of a6] by (auto simp: parse_ipv6_def parse_whole_def
      read_separated_def read_number_def read_ipv6_def read_groups.simps read_ipv4_def read_octet_def read_given_char_def)
qed

lemma serialize_not_Nil: "serialize_dns_socket a \<noteq> []"
  by (cases a) (simp_all add: show_not_Nil)

lemma trim_inner:
  assumes "x \<noteq> []" "\<not> ascii_space (hd x)" "\<not> ascii_space (last x)" "\<forall>c \<in> set a. ascii_space c"
  shows "trim (a @ x) = x"
proof -
  have "dropWhile ascii_space (a @ x) = x"
    using assms(1,2,4) by (induction a) (auto simp: dropWhile_append neq_Nil_conv)
  moreover have "dropWhile ascii_space (rev x) = rev x"
    using assms(1,3) by (cases "rev x") (auto simp: last_rev hd_rev)
  ultimately show ?thesis by (simp add: trim_def)
qed

lemma trim_lines:
  "trim ''DNS configuration'' = ''DNS configuration''"
  "trim ''DNS configuration (for scoped queries)'' = ''DNS configuration (for scoped queries)''"
  "trim ''resolver #1'' = ''resolver #1''" "trim ''  domain   : local'' = ''domain   : local''"
  "trim ''  flags    : Request A records'' = ''flags    : Request A records''" "trim [] = []"
  by code_simp+

lemma trim_nameserver: "trim (nameserver_line a) = ''nameserver[0] : '' @ serialize_dns_socket a"
proof -
  have "\<not> ascii_space (last (''nameserver[0] : '' @ serialize_dns_socket a))"
    using serialize_no_space [of a] serialize_not_Nil [of a] last_in_set [of "serialize_dns_socket a"] by simp
  moreover have "\<forall>c \<in> set ''  ''. ascii_space c" by (simp add: ascii_space_code)
  moreover have "\<not> ascii_space (CHR ''n'')" by (simp add: ascii_space_code)
  ultimately show ?thesis
    using trim_inner [of "''nameserver[0] : '' @ serialize_dns_socket a" "''  ''"]
    by (simp add: nameserver_line_def)
qed

definition block :: "bool \<times> socket_addr list \<Rightarrow> scutil_scan \<Rightarrow> scutil_scan" where
  "block r s = (commit s)\<lparr>su_domain_scoped := fst r, su_pending := map on_port_53 (snd r)\<rparr>"

lemma commit_simps [simp]:
  "su_in_global (commit s) = su_in_global s" "su_pending (commit s) = []" "\<not> su_domain_scoped (commit s)"
  "su_servers (commit s) = (if su_domain_scoped s then su_servers s else su_servers s @ su_pending s)"
  by (simp_all add: commit_def)

lemma scan_nameserver:
  "scan_line ifindex (''nameserver[0] : '' @ serialize_dns_socket a) s =
     Inr (if su_in_global s then s\<lparr>su_pending := su_pending s @ [on_port_53 a]\<rparr> else s)"
proof -
  have "trim ('' '' @ serialize_dns_socket a) = serialize_dns_socket a"
    using serialize_no_space [of a] serialize_not_Nil [of a]
    by (intro trim_inner) (auto simp: ascii_space_code)
  then show ?thesis by (simp add: scan_line_def dns_socket_roundtrip_line)
qed

lemma scan_nameservers:
  "scan_lines ifindex (map nameserver_line ss @ rest) s =
     scan_lines ifindex rest (if su_in_global s then s\<lparr>su_pending := su_pending s @ map on_port_53 ss\<rparr> else s)"
proof (induction ss arbitrary: s)
  case (Cons a ss)
  show ?case using Cons [of "if su_in_global s then s\<lparr>su_pending := su_pending s @ [on_port_53 a]\<rparr> else s"]
    by (simp add: trim_nameserver scan_nameserver [simplified])
qed simp

lemma scan_resolver:
  "scan_lines ifindex (resolver_lines r @ rest) s = scan_lines ifindex rest (if su_in_global s then block r s else s)"
proof (cases r)
  case (Pair scoped ss)
  have tail: "scan_lines ifindex (map nameserver_line ss @ ''  flags    : Request A records'' # [] # rest) s
      = scan_lines ifindex rest (if su_in_global s then s\<lparr>su_pending := su_pending s @ map on_port_53 ss\<rparr> else s)" for s
    by (simp add: scan_nameservers trim_lines scan_line_def)
  show ?thesis using Pair
    by (cases scoped; cases "su_in_global s") (simp_all add: tail trim_lines scan_line_def block_def commit_def)
qed

lemma scan_resolvers:
  "scan_lines ifindex (concat (map resolver_lines rs) @ rest) s =
     scan_lines ifindex rest (if su_in_global s then fold block rs s else s)"
proof (induction rs arbitrary: s)
  case (Cons r rs)
  have "su_in_global (block r s) = su_in_global s" by (simp add: block_def)
  with Cons show ?case by (simp add: scan_resolver)
qed simp

lemma fold_block:
  "su_in_global (fold block rs s) = su_in_global s"
  "su_servers (commit (fold block rs s)) =
     su_servers (commit s) @ map on_port_53 (concat (map snd (filter (\<lambda>r. \<not> fst r) rs)))"
  by (induction rs arbitrary: s) (simp_all add: block_def)

section \<open>Properties\<close>

text \<open>An address written to the backup is read back: the IPv4 or IPv6 address with its scope, on
  port 53, whatever the interfaces of the machine are called.\<close>

lemma dns_socket_roundtrip:
  "parse_dns_socket ifindex (serialize_dns_socket a) = Inr (on_port_53 a)"
  by (rule dns_socket_roundtrip_line)


end
