(* ===== verification/Config.thy ===== *)
theory Config
  imports Config_Types Net_Roundtrip "HOL-Library.Char_ord" "HOL-Library.List_Lexorder" "HOL-Library.Product_Lexorder"
    "HOL-Library.Multiset"
begin

text \<open>
  Loading a configuration, \<open>src/src/config.rs\<close>: warnings on unknown fields, validation of the
  service, listener and upstream sections, and the configuration written for the quick command
  line.  Reading and printing TOML, and decoding it into the raw sections, are arguments.
\<close>

section \<open>The raw layer\<close>

text \<open>What the code asks of a TOML document: the keys of its tables.\<close>

datatype toml = Table "(string \<times> toml) list" | Value

record raw_service =
  rs_log_level :: string
  rs_log_path :: string
  rs_cache_enable :: bool
  rs_cache_size :: nat

definition raw_service_default :: raw_service where
  "raw_service_default = \<lparr>rs_log_level = ''info'', rs_log_path = [], rs_cache_enable = True, rs_cache_size = 4096\<rparr>"

record raw_listener =
  rl_ip :: string
  rl_port :: u16

definition raw_listener_default :: raw_listener where
  "raw_listener_default = \<lparr>rl_ip = ''127.0.0.1'', rl_port = 53\<rparr>"

record raw_upstream =
  ru_name :: string
  ru_kind :: string
  ru_endpoint :: string
  ru_bootstrap_ip :: string
  ru_timeout :: "nat option"
  ru_ip_stack :: string

text \<open>A map of the raw layer is its entries.\<close>

record raw_config =
  rc_service :: raw_service
  rc_listener :: "(string \<times> raw_listener) list"
  rc_upstream :: "(string \<times> raw_upstream) list"

record toml_codec =
  tc_parse :: "string \<Rightarrow> string + (string \<times> toml) list"
  tc_decode :: "(string \<times> toml) list \<Rightarrow> string + raw_config"
  tc_print :: "raw_config \<Rightarrow> string + string"

datatype config_error =
  TomlParse string
| TomlDecode string
| TomlPrint string
| BadLogLevel string
| BadListenerIp string string
| NoUpstream
| EndpointRequired string
| BadType string string
| BadScheme string string
| SchemeConflict string string string
| TypeRequired string string
| NotAUrl string proto
| BadHost string string
| BadBootstrapIp string string
| BadIpStack string string
| NoQuickUpstream
| BadListen string
| BadUpstreamSpec string

datatype warning =
  UnknownSection string
| UnknownServiceField string
| UnknownField string string string
| FatalLevel
| CacheDisabled
| BareEndpoint string proto string
| SplitStack string

record loaded =
  ld_config :: config
  ld_warnings :: "warning list"

section \<open>Unknown sections and fields\<close>

definition sub_table :: "(string \<times> toml) list \<Rightarrow> string \<Rightarrow> (string \<times> toml) list" where
  "sub_table root key = (case map_of root key of Some (Table entries) \<Rightarrow> entries | _ \<Rightarrow> [])"

fun unknown_fields :: "string \<Rightarrow> string list \<Rightarrow> (string \<times> toml) list \<Rightarrow> warning list" where
  "unknown_fields sec allowed [] = []"
| "unknown_fields sec allowed ((key, Table kvs) # entries) =
     map (\<lambda>(field, _). UnknownField sec key field) (filter (\<lambda>(field, _). field \<notin> set allowed) kvs)
     @ unknown_fields sec allowed entries"
| "unknown_fields sec allowed ((key, Value) # entries) = unknown_fields sec allowed entries"

definition scan_unknown :: "(string \<times> toml) list \<Rightarrow> warning list" where
  "scan_unknown root =
     map (\<lambda>(key, _). UnknownSection key)
       (filter (\<lambda>(key, _). key \<notin> {''service'', ''listener'', ''upstream''}) root)
     @ map (\<lambda>(field, _). UnknownServiceField field)
         (filter (\<lambda>(field, _). field \<notin> {''log_level'', ''log_path'', ''cache_enable'', ''cache_size''})
            (sub_table root ''service''))
     @ unknown_fields ''listener'' [''ip'', ''port''] (sub_table root ''listener'')
     @ unknown_fields ''upstream'' [''name'', ''type'', ''endpoint'', ''bootstrap_ip'', ''timeout'', ''ip_stack'']
         (sub_table root ''upstream'')"

section \<open>Sections\<close>

text \<open>Keys in numeric order, those that are no number last, ties in the order of strings.\<close>

abbreviation U64_MAX :: nat where "U64_MAX \<equiv> 18446744073709551615"

definition numeric_key :: "string \<Rightarrow> nat \<times> string" where
  "numeric_key k = (case parse_unsigned U64_MAX k of Some n \<Rightarrow> n | None \<Rightarrow> U64_MAX, k)"

definition sorted_numeric :: "(string \<times> 'a) list \<Rightarrow> (string \<times> 'a) list" where
  "sorted_numeric entries = sort_key (\<lambda>(k, _). numeric_key k) entries"

definition parse_level :: "string \<Rightarrow> (level_filter \<times> warning list) option" where
  "parse_level text =
     (if text = [] \<or> text = ''info'' then Some (LevelInfo, [])
      else if text = ''trace'' then Some (LevelTrace, [])
      else if text = ''debug'' then Some (LevelDebug, [])
      else if text = ''warn'' \<or> text = ''warning'' then Some (LevelWarn, [])
      else if text = ''error'' then Some (LevelError, [])
      else if text = ''fatal'' then Some (LevelError, [FatalLevel])
      else None)"

definition parse_service :: "raw_service \<Rightarrow> config_error + service \<times> warning list" where
  "parse_service raw =
     (case parse_level (to_ascii_lowercase (rs_log_level raw)) of
        None \<Rightarrow> Inl (BadLogLevel (to_ascii_lowercase (rs_log_level raw)))
      | Some (level, warnings) \<Rightarrow>
          Inr (\<lparr>sv_log_level = level,
                sv_log_path = (if rs_log_path raw = [] then None else Some (rs_log_path raw)),
                sv_cache_enable = (rs_cache_enable raw \<and> rs_cache_size raw > 0),
                sv_cache_size = max (rs_cache_size raw) 1\<rparr>,
               warnings @ (if rs_cache_enable raw \<and> rs_cache_size raw = 0 then [CacheDisabled] else [])))"

section \<open>Endpoints\<close>

definition split_scheme :: "string \<Rightarrow> string option \<times> string" where
  "split_scheme endpoint =
     (case split_once ''://'' endpoint of
        Some (scheme, rest) \<Rightarrow> (Some scheme, rest)
      | None \<Rightarrow> (None, endpoint))"

definition parse_port :: "string \<Rightarrow> u16 option" where
  "parse_port s = map_option word_of_nat (parse_unsigned 65535 s)"

definition split_host_port :: "string \<Rightarrow> u16 \<Rightarrow> (string \<times> u16) option" where
  "split_host_port s port_default =
     (if s = [] then None
      else case strip_prefix ''['' s of
        Some rest \<Rightarrow>
          (case split_once '']'' rest of
             None \<Rightarrow> None
           | Some (host, tail) \<Rightarrow>
               (case strip_prefix '':'' tail of
                  Some port \<Rightarrow> map_option (\<lambda>p. (host, p)) (parse_port port)
                | None \<Rightarrow> if tail = [] then Some (host, port_default) else None))
      | None \<Rightarrow>
          if length (filter (\<lambda>c. c = CHR '':'') s) > 1 then Some (s, port_default)
          else (case split_once '':'' s of
             Some (host, port) \<Rightarrow> map_option (\<lambda>p. (host, p)) (parse_port port)
           | None \<Rightarrow> Some (s, port_default)))"

definition explicit_proto :: "string \<Rightarrow> proto option option" where
  "explicit_proto kind =
     (if kind = [] then Some None
      else if kind = ''doh'' then Some (Some Doh)
      else if kind = ''doh3'' then Some (Some Doh3)
      else if kind = ''dot'' then Some (Some Dot)
      else if kind = ''doq'' then Some (Some Doq)
      else if kind = ''legacy'' then Some (Some Legacy)
      else None)"

definition scheme_proto :: "string \<Rightarrow> proto option" where
  "scheme_proto scheme =
     (if scheme = ''https'' then Some Doh
      else if scheme = ''h3'' then Some Doh3
      else if scheme = ''quic'' then Some Doq
      else if scheme = ''tls'' \<or> scheme = ''dot'' then Some Dot
      else None)"

definition is_ip_text :: "string \<Rightarrow> bool" where
  "is_ip_text s \<longleftrightarrow> parse_ip s \<noteq> None"

definition choose_proto ::
  "string \<Rightarrow> raw_upstream \<Rightarrow> string option \<Rightarrow> string \<Rightarrow> proto option \<Rightarrow> proto option \<Rightarrow> config_error + proto"
where
  "choose_proto key raw scheme rest explicit inferred =
     (case (explicit, inferred) of
        (Some t, None) \<Rightarrow> Inr t
      | (None, Some i) \<Rightarrow> Inr i
      | (Some t, Some i) \<Rightarrow>
          if i = t \<or> (i = Doh \<and> t = Doh3) then Inr t
          else Inl (SchemeConflict key (the scheme) (ru_kind raw))
      | (None, None) \<Rightarrow>
          if is_ip_text rest \<or> (case split_host_port rest 53 of Some (h, _) \<Rightarrow> is_ip_text h | None \<Rightarrow> False)
          then Inr Legacy
          else Inl (TypeRequired key (ru_endpoint raw)))"

definition split_path ::
  "string \<Rightarrow> string option \<Rightarrow> string \<Rightarrow> proto \<Rightarrow> config_error + (string \<times> string \<times> warning list)"
where
  "split_path key scheme rest proto =
     (if proto = Doh \<or> proto = Doh3 then
        let hostport = takeWhile (\<lambda>c. c \<noteq> CHR ''/'') rest; path = dropWhile (\<lambda>c. c \<noteq> CHR ''/'') rest in
        if path = [] \<or> path = ''/''
        then Inr (hostport, ''/dns-query'', if scheme = None then [BareEndpoint key proto hostport] else [])
        else Inr (hostport, path, [])
      else if CHR ''/'' \<in> set rest then Inl (NotAUrl key proto)
      else Inr (rest, [], []))"

definition parse_stack :: "string \<Rightarrow> string \<Rightarrow> (ip_stack \<times> warning list) option" where
  "parse_stack key text =
     (if text = [] \<or> text = ''both'' then Some (Both, [])
      else if text = ''v4'' then Some (OnlyV4, [])
      else if text = ''v6'' then Some (OnlyV6, [])
      else if text = ''split'' then Some (Both, [SplitStack key])
      else None)"

definition parse_bootstrap_ip :: "string \<Rightarrow> string \<Rightarrow> string \<Rightarrow> config_error + ip_addr option" where
  "parse_bootstrap_ip key text host =
     (if text = [] then Inr (parse_ip host)
      else case parse_ip text of None \<Rightarrow> Inl (BadBootstrapIp key text) | Some ip \<Rightarrow> Inr (Some ip))"

definition parse_upstream :: "string \<Rightarrow> raw_upstream \<Rightarrow> config_error + (upstream \<times> warning list)" where
  "parse_upstream key raw =
     (if ru_endpoint raw = [] then Inl (EndpointRequired key)
      else case explicit_proto (to_ascii_lowercase (ru_kind raw)) of
        None \<Rightarrow> Inl (BadType key (to_ascii_lowercase (ru_kind raw)))
      | Some explicit \<Rightarrow>
      (case split_scheme (ru_endpoint raw) of (scheme, rest) \<Rightarrow>
      (case (case scheme of None \<Rightarrow> Inr None
             | Some s \<Rightarrow> (case scheme_proto s of Some p \<Rightarrow> Inr (Some p) | None \<Rightarrow> Inl (BadScheme key s))) of
        Inl e \<Rightarrow> Inl e
      | Inr inferred \<Rightarrow>
      (case choose_proto key raw scheme rest explicit inferred of
        Inl e \<Rightarrow> Inl e
      | Inr proto \<Rightarrow>
      (case split_path key scheme rest proto of
        Inl e \<Rightarrow> Inl e
      | Inr (hostport, path, warnings) \<Rightarrow>
      (case split_host_port hostport (default_port proto) of
        None \<Rightarrow> Inl (BadHost key hostport)
      | Some (host, port) \<Rightarrow>
      (case parse_bootstrap_ip key (ru_bootstrap_ip raw) host of
        Inl e \<Rightarrow> Inl e
      | Inr bootstrap_ip \<Rightarrow>
      (case parse_stack key (to_ascii_lowercase (ru_ip_stack raw)) of
        None \<Rightarrow> Inl (BadIpStack key (to_ascii_lowercase (ru_ip_stack raw)))
      | Some (stack, extra) \<Rightarrow>
          Inr (\<lparr>up_name = (if ru_name raw = [] then ''upstream.'' @ key else ru_name raw),
                up_proto = proto, up_host = host, up_port = port, up_path = path,
                up_bootstrap_ip = bootstrap_ip,
                up_timeout_ms = (case ru_timeout raw of Some t \<Rightarrow> t | None \<Rightarrow> DEFAULT_TIMEOUT_MS),
                up_ip_stack = stack\<rparr>, warnings @ extra)))))))))"

section \<open>Loading\<close>

fun parse_listeners :: "(string \<times> raw_listener) list \<Rightarrow> config_error + socket_addr list" where
  "parse_listeners [] = Inr []"
| "parse_listeners ((key, l) # rest) =
     (case parse_ip (rl_ip l) of
        None \<Rightarrow> Inl (BadListenerIp key (rl_ip l))
      | Some ip \<Rightarrow> map_sum id ((#) (sock_new ip (rl_port l))) (parse_listeners rest))"

fun parse_upstreams :: "(string \<times> raw_upstream) list \<Rightarrow> config_error + (upstream list \<times> warning list)" where
  "parse_upstreams [] = Inr ([], [])"
| "parse_upstreams ((key, raw) # rest) =
     (case parse_upstream key raw of
        Inl e \<Rightarrow> Inl e
      | Inr (up, warnings) \<Rightarrow>
          map_sum id (\<lambda>(ups, extra). (up # ups, warnings @ extra)) (parse_upstreams rest))"

definition load_raw :: "warning list \<Rightarrow> raw_config \<Rightarrow> config_error + loaded" where
  "load_raw warnings raw =
     (case parse_service (rc_service raw) of
        Inl e \<Rightarrow> Inl e
      | Inr (service, service_warnings) \<Rightarrow>
      (case parse_listeners (sorted_numeric (rc_listener raw)) of
        Inl e \<Rightarrow> Inl e
      | Inr listeners \<Rightarrow>
      (case parse_upstreams (sorted_numeric (rc_upstream raw)) of
        Inl e \<Rightarrow> Inl e
      | Inr (upstreams, upstream_warnings) \<Rightarrow>
          if upstreams = [] then Inl NoUpstream
          else Inr \<lparr>ld_config = \<lparr>cf_service = service,
                 cf_listeners = (if listeners = [] then [SocketV4 (IP4 127 0 0 1) 53] else listeners),
                 cf_upstreams = upstreams\<rparr>,
               ld_warnings = warnings @ service_warnings @ upstream_warnings\<rparr>)))"

definition load_text :: "toml_codec \<Rightarrow> string \<Rightarrow> config_error + loaded" where
  "load_text tc text =
     (case tc_parse tc text of
        Inl e \<Rightarrow> Inl (TomlParse e)
      | Inr table \<Rightarrow>
          (case tc_decode tc table of
             Inl e \<Rightarrow> Inl (TomlDecode e)
           | Inr raw \<Rightarrow> load_raw (scan_unknown table) raw))"

section \<open>The quick command line\<close>

text \<open>\<open>SocketAddr::from_str\<close>.\<close>

definition read_port :: "u16 reader" where
  "read_port s = Option.bind (read_given_char (CHR '':'') s) (\<lambda>s.
     map_option (\<lambda>(n, rest). (word_of_nat n, rest)) (read_number 10 65535 None True s))"

definition read_scope :: "u32 reader" where
  "read_scope s = Option.bind (read_given_char (CHR ''%'') s) (\<lambda>s.
     map_option (\<lambda>(n, rest). (word_of_nat n, rest)) (read_number 10 4294967295 None True s))"

definition read_socket_v6 :: "socket_addr reader" where
  "read_socket_v6 s =
     Option.bind (read_given_char (CHR ''['') s) (\<lambda>s.
     Option.bind (read_ipv6 s) (\<lambda>(ip, s).
       case (case read_scope s of Some r \<Rightarrow> r | None \<Rightarrow> (0, s)) of (scope, s) \<Rightarrow>
     Option.bind (read_given_char (CHR '']'') s) (\<lambda>s.
       map_option (\<lambda>(port, s). (SocketV6 ip port scope, s)) (read_port s))))"

definition read_socket_addr :: "socket_addr reader" where
  "read_socket_addr s =
     (case Option.bind (read_ipv4 s) (\<lambda>(ip, s). map_option (\<lambda>(port, s). (SocketV4 ip port, s)) (read_port s)) of
        Some r \<Rightarrow> Some r
      | None \<Rightarrow> read_socket_v6 s)"

definition parse_socket_addr :: "string \<Rightarrow> socket_addr option" where
  "parse_socket_addr = parse_whole read_socket_addr"

fun quick_listeners :: "nat \<Rightarrow> string list \<Rightarrow> config_error + (string \<times> raw_listener) list" where
  "quick_listeners i [] = Inr []"
| "quick_listeners i (value # rest) =
     (case parse_socket_addr value of
        None \<Rightarrow> Inl (BadListen value)
      | Some addr \<Rightarrow>
          map_sum id ((#) (show_nat i, \<lparr>rl_ip = show_ip (sock_ip addr), rl_port = sock_port addr\<rparr>))
            (quick_listeners (i + 1) rest))"

definition upstream_spec :: "string \<Rightarrow> (string \<times> string) option" where
  "upstream_spec spec =
     (case split_once ''='' spec of
        Some (kind, endpoint) \<Rightarrow> if kind \<noteq> [] \<and> endpoint \<noteq> [] then Some (kind, endpoint) else None
      | None \<Rightarrow> if spec \<noteq> [] then Some ([], spec) else None)"

fun quick_upstreams :: "nat option \<Rightarrow> nat \<Rightarrow> string list \<Rightarrow> config_error + (string \<times> raw_upstream) list" where
  "quick_upstreams timeout_ms i [] = Inr []"
| "quick_upstreams timeout_ms i (spec # rest) =
     (case upstream_spec spec of
        None \<Rightarrow> Inl (BadUpstreamSpec spec)
      | Some (kind, endpoint) \<Rightarrow>
          map_sum id ((#) (show_nat i, \<lparr>ru_name = ''upstream.'' @ show_nat i, ru_kind = kind,
              ru_endpoint = endpoint, ru_bootstrap_ip = [],
              ru_timeout = Some (case timeout_ms of Some t \<Rightarrow> t | None \<Rightarrow> DEFAULT_TIMEOUT_MS),
              ru_ip_stack = ''both''\<rparr>))
            (quick_upstreams timeout_ms (i + 1) rest))"

definition quick_raw ::
  "string list \<Rightarrow> string list \<Rightarrow> nat option \<Rightarrow> nat option \<Rightarrow> bool \<Rightarrow> config_error + raw_config"
where
  "quick_raw listeners upstreams timeout_ms cache_size no_cache =
     (if upstreams = [] then Inl NoQuickUpstream
      else case quick_listeners 0 (if listeners = [] then [''127.0.0.1:53''] else listeners) of
        Inl e \<Rightarrow> Inl e
      | Inr ls \<Rightarrow>
          (case quick_upstreams timeout_ms 0 upstreams of
             Inl e \<Rightarrow> Inl e
           | Inr us \<Rightarrow>
               Inr \<lparr>rc_service = raw_service_default\<lparr>rs_cache_enable := \<not> no_cache,
                      rs_cache_size := (case cache_size of Some n \<Rightarrow> n | None \<Rightarrow> 4096)\<rparr>,
                    rc_listener = ls, rc_upstream = us\<rparr>))"

definition quick_toml ::
  "toml_codec \<Rightarrow> string list \<Rightarrow> string list \<Rightarrow> nat option \<Rightarrow> nat option \<Rightarrow> bool \<Rightarrow> config_error + string"
where
  "quick_toml tc listeners upstreams timeout_ms cache_size no_cache =
     (case quick_raw listeners upstreams timeout_ms cache_size no_cache of
        Inl e \<Rightarrow> Inl e
      | Inr raw \<Rightarrow>
          (case tc_print tc raw of
             Inl e \<Rightarrow> Inl (TomlPrint e)
           | Inr text \<Rightarrow> map_sum id (\<lambda>_. text) (load_text tc text)))"

section \<open>Well-formed configurations\<close>

text \<open>What the rest of the program relies on.\<close>

definition upstream_ok :: "upstream \<Rightarrow> bool" where
  "upstream_ok up \<longleftrightarrow> up_name up \<noteq> []
     \<and> (if up_proto up = Doh \<or> up_proto up = Doh3 then starts_with (up_path up) ''/'' else up_path up = [])
     \<and> (is_ip_text (up_host up) \<longrightarrow> up_bootstrap_ip up \<noteq> None)"

definition config_ok :: "config \<Rightarrow> bool" where
  "config_ok c \<longleftrightarrow> cf_listeners c \<noteq> [] \<and> cf_upstreams c \<noteq> [] \<and> list_all upstream_ok (cf_upstreams c)
     \<and> sv_cache_size (cf_service c) \<ge> 1"

lemma split_path_ok:
  assumes "split_path key scheme rest proto = Inr (hostport, path, ws)"
  shows "if proto = Doh \<or> proto = Doh3 then starts_with path ''/'' else path = []"
proof -
  define p where "p = dropWhile (\<lambda>c. c \<noteq> CHR ''/'') rest"
  have "starts_with p ''/''" if "p \<noteq> []"
    using that hd_dropWhile [of "\<lambda>c. c \<noteq> CHR ''/''" rest] unfolding p_def [symmetric] by (cases p) auto
  moreover have "path = (if proto = Doh \<or> proto = Doh3 then if p = [] \<or> p = ''/'' then ''/dns-query'' else p else [])"
    using assms unfolding split_path_def p_def [symmetric] by (auto simp: Let_def split: if_splits)
  ultimately show ?thesis by simp
qed

lemma parse_bootstrap_ip_ok:
  "parse_bootstrap_ip key text host = Inr ip \<Longrightarrow> is_ip_text host \<Longrightarrow> ip \<noteq> None"
  by (cases "text = []"; cases "parse_ip text") (auto simp: parse_bootstrap_ip_def is_ip_text_def)

text \<open>A successful parse, step by step.\<close>

lemma parse_upstream_steps:
  assumes "parse_upstream key raw = Inr (up, ws)"
  obtains explicit scheme rest inferred hostport stack ws1 ws2 where
    "ru_endpoint raw \<noteq> []"
    "explicit_proto (to_ascii_lowercase (ru_kind raw)) = Some explicit"
    "split_scheme (ru_endpoint raw) = (scheme, rest)"
    "case scheme of None \<Rightarrow> inferred = None | Some s \<Rightarrow> \<exists>p. scheme_proto s = Some p \<and> inferred = Some p"
    "choose_proto key raw scheme rest explicit inferred = Inr (up_proto up)"
    "split_path key scheme rest (up_proto up) = Inr (hostport, up_path up, ws1)"
    "split_host_port hostport (default_port (up_proto up)) = Some (up_host up, up_port up)"
    "parse_bootstrap_ip key (ru_bootstrap_ip raw) (up_host up) = Inr (up_bootstrap_ip up)"
    "parse_stack key (to_ascii_lowercase (ru_ip_stack raw)) = Some (up_ip_stack up, ws2)"
    "up_name up = (if ru_name raw = [] then ''upstream.'' @ key else ru_name raw)"
    "up_timeout_ms up = (case ru_timeout raw of Some t \<Rightarrow> t | None \<Rightarrow> DEFAULT_TIMEOUT_MS)"
    "ws = ws1 @ ws2"
proof -
  obtain scheme rest where s: "split_scheme (ru_endpoint raw) = (scheme, rest)" by fastforce
  obtain inferred where i: "(case scheme of None \<Rightarrow> Inr None
      | Some s \<Rightarrow> (case scheme_proto s of Some p \<Rightarrow> Inr (Some p) | None \<Rightarrow> Inl (BadScheme key s))) = Inr inferred"
    using assms s by (simp add: parse_upstream_def split: if_splits option.splits sum.splits)
  show thesis
    using assms s i that [of _ scheme rest inferred]
    by (auto simp: parse_upstream_def split: if_splits option.splits sum.splits)
qed

lemma parse_upstream_ok: "parse_upstream key raw = Inr (up, ws) \<Longrightarrow> upstream_ok up"
  by (erule parse_upstream_steps)
     (use split_path_ok parse_bootstrap_ip_ok in \<open>auto simp: upstream_ok_def\<close>)

lemma parse_upstream_timeout:
  "parse_upstream key raw = Inr (up, ws) \<Longrightarrow>
     up_timeout_ms up = (case ru_timeout raw of Some t \<Rightarrow> t | None \<Rightarrow> DEFAULT_TIMEOUT_MS)"
  by (erule parse_upstream_steps)

lemma parse_upstreams_ok:
  "parse_upstreams entries = Inr (ups, ws) \<Longrightarrow> list_all upstream_ok ups \<and> length ups = length entries"
proof (induction entries arbitrary: ups ws)
  case (Cons entry entries)
  obtain key raw where e: "entry = (key, raw)" by fastforce
  from Cons.prems e obtain up ws1 ups' ws2 where
    "parse_upstream key raw = Inr (up, ws1)" "parse_upstreams entries = Inr (ups', ws2)" "ups = up # ups'"
    by (cases "parse_upstreams entries") (auto split: sum.splits)
  with Cons.IH show ?case by (auto dest: parse_upstream_ok)
qed simp

lemma load_raw_ok: "load_raw ws raw = Inr loaded \<Longrightarrow> config_ok (ld_config loaded)"
  using parse_upstreams_ok
  by (fastforce simp: load_raw_def config_ok_def parse_service_def split: sum.splits prod.splits if_splits option.splits)

section \<open>Numeric order\<close>

lemma map_fst_sort_key: "map fst (sort_key (\<lambda>(k, _). f k) es) = sort_key f (map fst es)"
proof (induction es)
  case (Cons e es)
  have ins: "map fst (insort_key (\<lambda>(k, _). f k) e xs) = insort_key f (fst e) (map fst xs)" for xs
    by (induction xs) (auto simp: case_prod_beta)
  show ?case using Cons by (simp add: ins)
qed simp

lemma numeric_key_show: "n \<le> U64_MAX \<Longrightarrow> numeric_key (show_nat n) = (n, show_nat n)"
  by (simp add: numeric_key_def parse_unsigned_show)

lemma sorted_numeric_decimal:
  assumes "mset (map fst es) = mset (map show_nat ns)" "\<forall>n \<in> set ns. n \<le> U64_MAX"
  shows "map fst (sorted_numeric es) = map show_nat (sort ns)"
proof -
  have "sort_key numeric_key (map fst es) = map show_nat (sort ns)"
  proof (rule sort_key_inj_key_eq)
    show "mset (map fst es) = mset (map show_nat (sort ns))" using assms(1) by simp
    show "inj_on numeric_key (set (map fst es))" by (auto simp: inj_on_def numeric_key_def)
    have "sorted (map (\<lambda>n. (n, show_nat n)) (sort ns))"
      by (rule sorted_map_mono [OF sorted_sort]) (auto simp: mono_on_def less_eq_prod_def order.order_iff_strict)
    moreover have "map numeric_key (map show_nat (sort ns)) = map (\<lambda>n. (n, show_nat n)) (sort ns)"
      using assms(2) by (simp add: numeric_key_show)
    ultimately show "sorted (map numeric_key (map show_nat (sort ns)))" by (simp only:)
  qed
  then show ?thesis by (simp add: sorted_numeric_def map_fst_sort_key)
qed

lemma set_sorted_numeric [simp]: "set (sorted_numeric es) = set es" "mset (sorted_numeric es) = mset es"
  by (simp_all add: sorted_numeric_def)

lemma parse_upstreams_all2:
  "parse_upstreams es = Inr (ups, ws) \<Longrightarrow>
     list_all2 (\<lambda>(key, raw) up. \<exists>ws. parse_upstream key raw = Inr (up, ws)) es ups"
proof (induction es arbitrary: ups ws)
  case (Cons e es)
  obtain key raw where e: "e = (key, raw)" by fastforce
  from Cons.prems e obtain up ws1 ups' ws2 where
    "parse_upstream key raw = Inr (up, ws1)" "parse_upstreams es = Inr (ups', ws2)" "ups = up # ups'"
    by (cases "parse_upstreams es") (auto split: sum.splits)
  with Cons.IH e show ?case by auto
qed simp

section \<open>Host and port\<close>

lemma show_nat_no_colon: "CHR '':'' \<notin> set (show_nat n)"
  using show_nat_digits [of n] by (auto simp: ascii_digit_def code_def)

lemma parse_port_show: "parse_port (show_nat (unat p)) = Some p"
  using unat_u16_lt [of p] by (simp add: parse_port_def parse_unsigned_show)

lemma no_bracket: "\<not> starts_with s ''['' \<Longrightarrow> strip_prefix ''['' s = None"
  by (simp add: strip_prefix_def)

section \<open>Properties of configurations\<close>

definition sample_raw_upstream :: raw_upstream where
  "sample_raw_upstream = \<lparr>ru_name = [], ru_kind = ''DoH3'', ru_endpoint = ''https://9.9.9.9'',
     ru_bootstrap_ip = [], ru_timeout = None, ru_ip_stack = ''split''\<rparr>"

definition sample_raw :: raw_config where
  "sample_raw = \<lparr>rc_service = raw_service_default\<lparr>rs_cache_size := 0\<rparr>, rc_listener = [],
     rc_upstream = [(''10'', sample_raw_upstream), (''2'', sample_raw_upstream)]\<rparr>"

definition sample_codec :: toml_codec where
  "sample_codec = \<lparr>tc_parse = (\<lambda>text. Inr [(''service'', Table [(''loglevel'', Value)])]),
     tc_decode = (\<lambda>table. Inr sample_raw), tc_print = (\<lambda>raw. Inr [])\<rparr>"

lemma load_text_ok: "load_text tc text = Inr loaded \<Longrightarrow> config_ok (ld_config loaded)"
  using load_raw_ok by (auto simp: load_text_def split: sum.splits)

text \<open>C33: Whatever its text, a configuration that loads has a listener and an upstream, a positive cache
  size, a name for every upstream, a URL path for exactly the HTTP protocols, and an address for
  every upstream whose host is an IP literal, so that no name lookup is ever made for one.\<close>

theorem load_text_valid:
  assumes "load_text tc text = Inr loaded"
  shows "config_ok (ld_config loaded)"
  using assms by (rule load_text_ok)

lemma load_text_valid_witness:
  "\<not> isl (load_text sample_codec []) \<and> config_ok (ld_config (projr (load_text sample_codec [])))"
proof -
  have f: "\<not> isl (load_text sample_codec [])" by code_simp
  then have "load_text sample_codec [] = Inr (projr (load_text sample_codec []))" by (simp add: sum.collapse(2))
  from load_text_valid [OF this] f show ?thesis by simp
qed

text \<open>Upstreams are tried in the order of their section numbers: when the sections are numbered in
  decimal, the loaded upstreams are the parsed sections by increasing number (2 before 10), and
  none is dropped.\<close>

lemma load_orders_upstreams:
  assumes "tc_parse tc text = Inr table" "tc_decode tc table = Inr raw" "load_text tc text = Inr loaded"
    and "mset (map fst (rc_upstream raw)) = mset (map show_nat ns)" "\<forall>n \<in> set ns. n \<le> U64_MAX"
  shows "list_all2 (\<lambda>n up. \<exists>r ws. (show_nat n, r) \<in> set (rc_upstream raw) \<and> parse_upstream (show_nat n) r = Inr (up, ws))
    (sort ns) (cf_upstreams (ld_config loaded))"
proof -
  let ?es = "sorted_numeric (rc_upstream raw)"
  from assms(1-3) obtain ws where "parse_upstreams ?es = Inr (cf_upstreams (ld_config loaded), ws)"
    by (auto simp: load_text_def load_raw_def split: sum.splits prod.splits if_splits)
  from parse_upstreams_all2 [OF this]
  have "list_all2 (\<lambda>e up. \<exists>r ws. (fst e, r) \<in> set (rc_upstream raw) \<and> parse_upstream (fst e) r = Inr (up, ws))
      ?es (cf_upstreams (ld_config loaded))"
    by (rule list.rel_mono_strong) auto
  then have "list_all2 (\<lambda>k up. \<exists>r ws. (k, r) \<in> set (rc_upstream raw) \<and> parse_upstream k r = Inr (up, ws))
      (map fst ?es) (cf_upstreams (ld_config loaded))" by (simp add: list.rel_map)
  then show ?thesis unfolding sorted_numeric_decimal [OF assms(4,5)] by (simp add: list.rel_map)
qed

text \<open>Host and port are recovered from an endpoint: from a name or IPv4 address with a port, from an
  address in brackets with a port, and from a bare IPv6 address, which takes the default port.\<close>

lemma split_host_port_roundtrip:
  assumes "\<not> starts_with host ''[''" "CHR '']'' \<notin> set host"
  shows "(if length (filter (\<lambda>c. c = CHR '':'') host) > 1 then split_host_port host d = Some (host, d)
        else CHR '':'' \<notin> set host \<longrightarrow> host \<noteq> [] \<longrightarrow> split_host_port (host @ '':'' @ show_nat (unat p)) d = Some (host, p))
     \<and> split_host_port (''['' @ host @ '']:'' @ show_nat (unat p)) d = Some (host, p)
     \<and> split_host_port (''['' @ host @ '']'') d = Some (host, d)"
proof (intro conjI)
  have b: "split_once '']'' (host @ '']'' @ tail) = Some (host, tail)" for tail
    using split_once_first [of host "CHR '']''" tail] assms(2) by auto
  have "host \<noteq> []" if "length (filter (\<lambda>c. c = CHR '':'') host) > 1" using that by auto
  moreover have "split_host_port (host @ '':'' @ show_nat (unat p)) d = Some (host, p)"
    if colon: "CHR '':'' \<notin> set host" and ne: "host \<noteq> []"
  proof -
    have "\<not> starts_with (host @ '':'' @ show_nat (unat p)) ''[''" using assms(1) ne by (cases host) auto
    moreover have "filter (\<lambda>c. c = CHR '':'') (host @ '':'' @ show_nat (unat p)) = '':''"
    proof -
      have "filter (\<lambda>c. c = CHR '':'') host = []" using colon by (auto simp: filter_empty_conv)
      moreover have "filter (\<lambda>c. c = CHR '':'') (show_nat (unat p)) = []"
        using show_nat_no_colon [of "unat p"] by (auto simp: filter_empty_conv)
      ultimately show ?thesis by simp
    qed
    moreover have "split_once '':'' (host @ '':'' @ show_nat (unat p)) = Some (host, show_nat (unat p))"
      using split_once_first [of host "CHR '':''" "show_nat (unat p)"] colon by auto
    ultimately show ?thesis by (simp add: split_host_port_def no_bracket parse_port_show del: filter_append)
  qed
  ultimately show "if length (filter (\<lambda>c. c = CHR '':'') host) > 1 then split_host_port host d = Some (host, d)
     else CHR '':'' \<notin> set host \<longrightarrow> host \<noteq> [] \<longrightarrow> split_host_port (host @ '':'' @ show_nat (unat p)) d = Some (host, p)"
    using no_bracket [OF assms(1)] by (simp add: split_host_port_def)
  show "split_host_port (''['' @ host @ '']:'' @ show_nat (unat p)) d = Some (host, p)"
    using b [of "'':'' @ show_nat (unat p)"] by (simp add: split_host_port_def strip_prefix_def parse_port_show)
  show "split_host_port (''['' @ host @ '']'') d = Some (host, d)"
    using b [of "[]"] by (simp add: split_host_port_def strip_prefix_def)
qed

text \<open>An endpoint without a host, which no upstream can be reached at, is not refused.\<close>

lemma empty_host_accepted: "split_host_port '':853'' d = Some ([], 853)"
  by (simp add: split_host_port_def strip_prefix_def parse_port_def parse_unsigned_def ascii_digit_def code_def digit_value_def)

section \<open>The quick command line loads\<close>

lemma upt_first: "[i..<Suc (i + n)] = i # [Suc i..<Suc (i + n)]"
  by (simp add: upt_conv_Cons del: upt_Suc)

lemma quick_listeners_shape:
  "quick_listeners i values = Inr es \<Longrightarrow> map fst es = map show_nat [i..<i + length values]
     \<and> list_all2 (\<lambda>value e. \<exists>addr. parse_socket_addr value = Some addr
          \<and> snd e = \<lparr>rl_ip = show_ip (sock_ip addr), rl_port = sock_port addr\<rparr>) values es"
proof (induction i "values" arbitrary: es rule: quick_listeners.induct)
  case (2 i v rest)
  from 2(2) obtain addr es' where e: "parse_socket_addr v = Some addr" "quick_listeners (i + 1) rest = Inr es'"
    "es = (show_nat i, \<lparr>rl_ip = show_ip (sock_ip addr), rl_port = sock_port addr\<rparr>) # es'"
    by (cases "quick_listeners (i + 1) rest") (auto split: option.splits)
  with 2(1) [OF e(1,2)] show ?case by (simp add: upt_first del: upt_Suc)
qed simp

lemma quick_upstreams_shape:
  "quick_upstreams t i specs = Inr es \<Longrightarrow> map fst es = map show_nat [i..<i + length specs]
     \<and> list_all (\<lambda>e. ru_timeout (snd e) = Some (case t of Some t \<Rightarrow> t | None \<Rightarrow> DEFAULT_TIMEOUT_MS)) es"
proof (induction t i specs arbitrary: es rule: quick_upstreams.induct)
  case (2 t i spec rest)
  obtain kind endpoint where u: "upstream_spec spec = Some (kind, endpoint)"
    using 2(2) by (cases "upstream_spec spec") auto
  from 2(2) u obtain es' e where e: "quick_upstreams t (i + 1) rest = Inr es'" "es = (show_nat i, e) # es'"
    "ru_timeout e = Some (case t of Some t \<Rightarrow> t | None \<Rightarrow> DEFAULT_TIMEOUT_MS)"
    by (cases "quick_upstreams t (i + 1) rest") auto
  from 2(1) [OF u refl e(1)] e show ?case by (simp add: upt_first del: upt_Suc)
qed simp

text \<open>However a map gives its entries: their order by numbers is the order of the command line.\<close>

lemma sorted_numeric_entries:
  assumes "map fst es = map show_nat [0..<n]" "n \<le> U64_MAX" and same: "mset entries = mset es"
  shows "sorted_numeric entries = es"
proof -
  have "map (\<lambda>(k, _). numeric_key k) es = map numeric_key (map fst es)" by (simp add: case_prod_beta)
  also have "\<dots> = map (\<lambda>n. (n, show_nat n)) [0..<n]" unfolding assms(1) using assms(2) by (simp add: numeric_key_show)
  finally have keys: "map (\<lambda>(k, _). numeric_key k) es = map (\<lambda>n. (n, show_nat n)) [0..<n]" .
  have "sorted (map (\<lambda>n. (n, show_nat n)) [0..<n])"
    by (rule sorted_map_mono [OF sorted_upt]) (auto simp: mono_on_def less_eq_prod_def order.order_iff_strict)
  then have sorted: "sorted (map (\<lambda>(k, _). numeric_key k) es)" by (simp only: keys)
  have "distinct (map (\<lambda>(k, _). numeric_key k) es)" by (simp only: keys) (simp add: distinct_map inj_on_def)
  then have "inj_on (\<lambda>(k, _). numeric_key k) (set entries)"
    using mset_eq_setD [OF same] by (simp add: distinct_map)
  from sort_key_inj_key_eq [OF same this sorted] show ?thesis unfolding sorted_numeric_def .
qed

lemma parse_listeners_quick:
  "list_all2 (\<lambda>value e. \<exists>addr. parse_socket_addr value = Some addr
          \<and> snd e = \<lparr>rl_ip = show_ip (sock_ip addr), rl_port = sock_port addr\<rparr>) values es \<Longrightarrow>
     parse_listeners es = Inr (map (\<lambda>v. case parse_socket_addr v of Some a \<Rightarrow> sock_new (sock_ip a) (sock_port a)) values)"
proof (induction "values" es rule: list_all2_induct)
  case (Cons v vs e es)
  then show ?case by (cases e) (auto simp: parse_ip_show)
qed simp

lemma map_sum_Inr_iff: "map_sum f g z = Inr y \<longleftrightarrow> (\<exists>x. z = Inr x \<and> y = g x)"
  by (cases z) auto

text \<open>A TOML library that reads what it prints; a map it reads gives its entries in an order of its own.\<close>

definition same_entries :: "raw_config \<Rightarrow> raw_config \<Rightarrow> bool" where
  "same_entries raw other \<longleftrightarrow> rc_service other = rc_service raw
     \<and> mset (rc_listener other) = mset (rc_listener raw) \<and> mset (rc_upstream other) = mset (rc_upstream raw)"

definition toml_faithful :: "toml_codec \<Rightarrow> bool" where
  "toml_faithful tc \<longleftrightarrow> (\<forall>raw text. tc_print tc raw = Inr text \<longrightarrow>
     (\<exists>table other. tc_parse tc text = Inr table \<and> tc_decode tc table = Inr other \<and> same_entries raw other))"

text \<open>The text written for the quick command line loads, to the listeners given in their order (or
  127.0.0.1 port 53), one upstream for each upstream given, every one with the timeout asked for.\<close>

lemma quick_toml_loaded:
  assumes "toml_faithful tc" and "quick_toml tc listeners upstreams timeout_ms cache_size no_cache = Inr text"
    and "length listeners \<le> U64_MAX" "length upstreams \<le> U64_MAX"
  shows "\<exists>loaded. load_text tc text = Inr loaded
     \<and> cf_listeners (ld_config loaded) =
         map (\<lambda>v. case parse_socket_addr v of Some a \<Rightarrow> sock_new (sock_ip a) (sock_port a))
           (if listeners = [] then [''127.0.0.1:53''] else listeners)
     \<and> length (cf_upstreams (ld_config loaded)) = length upstreams
     \<and> (\<forall>up \<in> set (cf_upstreams (ld_config loaded)).
          up_timeout_ms up = (case timeout_ms of Some t \<Rightarrow> t | None \<Rightarrow> DEFAULT_TIMEOUT_MS))"
proof -
  let ?ls = "if listeners = [] then [''127.0.0.1:53''] else listeners"
  from assms(2) obtain raw loaded where raw: "quick_raw listeners upstreams timeout_ms cache_size no_cache = Inr raw"
    "tc_print tc raw = Inr text" "load_text tc text = Inr loaded"
    by (auto simp: quick_toml_def map_sum_Inr_iff split: sum.splits)
  from raw(2) assms(1) obtain table other where t: "tc_parse tc text = Inr table" "tc_decode tc table = Inr other"
    and same: "same_entries raw other"
    unfolding toml_faithful_def by blast
  from raw(1) have q: "quick_listeners 0 ?ls = Inr (rc_listener raw)"
    "quick_upstreams timeout_ms 0 upstreams = Inr (rc_upstream raw)"
    by (auto simp: quick_raw_def split: if_splits sum.splits)
  note L = quick_listeners_shape [OF q(1), simplified add_0] and U = quick_upstreams_shape [OF q(2), simplified add_0]
  have sl: "sorted_numeric (rc_listener other) = rc_listener raw"
    by (rule sorted_numeric_entries [OF conjunct1 [OF L]]) (use assms(3) same in \<open>auto simp: same_entries_def\<close>)
  have su: "sorted_numeric (rc_upstream other) = rc_upstream raw"
    by (rule sorted_numeric_entries [OF conjunct1 [OF U]]) (use assms(4) same in \<open>auto simp: same_entries_def\<close>)
  from raw(3) t obtain ws where ups: "parse_upstreams (rc_upstream raw) = Inr (cf_upstreams (ld_config loaded), ws)"
    and ls: "\<exists>parsed. parse_listeners (rc_listener raw) = Inr parsed
      \<and> cf_listeners (ld_config loaded) = (if parsed = [] then [SocketV4 (IP4 127 0 0 1) 53] else parsed)"
    by (auto simp: load_text_def load_raw_def sl su split: sum.splits prod.splits if_splits)
  have first: "cf_listeners (ld_config loaded) =
      map (\<lambda>v. case parse_socket_addr v of Some a \<Rightarrow> sock_new (sock_ip a) (sock_port a)) ?ls"
    using ls parse_listeners_quick [OF conjunct2 [OF L]] by (cases "listeners = []") auto
  have "map fst (rc_upstream raw) = map show_nat [0..<length upstreams]" using U by blast
  then have "length (rc_upstream raw) = length upstreams" by (metis length_map length_upt diff_zero)
  then have second: "length (cf_upstreams (ld_config loaded)) = length upstreams"
    using parse_upstreams_ok [OF ups] by presburger
  have third: "up_timeout_ms up = (case timeout_ms of Some t \<Rightarrow> t | None \<Rightarrow> DEFAULT_TIMEOUT_MS)"
    if "up \<in> set (cf_upstreams (ld_config loaded))" for up
  proof -
    from that obtain i where i: "i < length (cf_upstreams (ld_config loaded))" "cf_upstreams (ld_config loaded) ! i = up"
      by (auto simp: in_set_conv_nth)
    let ?e = "rc_upstream raw ! i"
    have mem: "?e \<in> set (rc_upstream raw)" using i(1) parse_upstreams_ok [OF ups] by simp
    obtain ws' where w: "parse_upstream (fst ?e) (snd ?e) = Inr (up, ws')"
      using list_all2_nthD2 [OF parse_upstreams_all2 [OF ups] i(1)] i(2) by (auto simp: case_prod_beta)
    have tm: "ru_timeout (snd ?e) = Some (case timeout_ms of Some t \<Rightarrow> t | None \<Rightarrow> DEFAULT_TIMEOUT_MS)"
      using U mem by (simp add: list_all_iff)
    show ?thesis unfolding parse_upstream_timeout [OF w] tm by simp
  qed
  show ?thesis using raw(3) first second third by blast
qed

text \<open>A scope id is accepted in a listener of the command line but not written: the loaded listener has none.\<close>

lemma quick_listener_loses_scope:
  "parse_socket_addr ''[fe80::1%4]:53'' = Some (SocketV6 (IP6 0xFE80 0 0 0 0 0 0 1) 53 4)
   \<and> quick_listeners 0 [''[fe80::1%4]:53''] = Inr [(''0'', \<lparr>rl_ip = ''fe80::1'', rl_port = 53\<rparr>)]
   \<and> parse_listeners [(''0'', \<lparr>rl_ip = ''fe80::1'', rl_port = 53\<rparr>)] = Inr [SocketV6 (IP6 0xFE80 0 0 0 0 0 0 1) 53 0]"
  by code_simp

definition quick_codec :: toml_codec where
  "quick_codec = \<lparr>tc_parse = (\<lambda>text. Inr []),
     tc_decode = (\<lambda>table. map_sum (\<lambda>_. []) id (quick_raw [''[::1]:5353''] [''9.9.9.9'', ''doh=dns.test''] None None False)),
     tc_print = (\<lambda>raw. if Inr raw = quick_raw [''[::1]:5353''] [''9.9.9.9'', ''doh=dns.test''] None None False
        then Inr ''quick'' else Inl [])\<rparr>"

lemma quick_codec_faithful: "toml_faithful quick_codec"
  by (auto simp: toml_faithful_def same_entries_def quick_codec_def split: if_splits dest!: sym [where s = "Inr _"])

end
