(* ===== verification/Watchdog.thy ===== *)
theory Watchdog
  imports Manager Takeover
begin

text \<open>
  The takeover watchdog of the daemon, \<open>watchdog_loop\<close> of \<open>src/src/proxy/mod.rs\<close>: what each tick's
  outcome does to its cadence and to the fallback servers of the manager.  The interval is
  represented by its period; when its ticks fall due is left to the timer.
\<close>

section \<open>The loop\<close>

abbreviation WATCHDOG_INTERVAL :: nat where "WATCHDOG_INTERVAL \<equiv> 120 * second"
abbreviation WATCHDOG_SLOW_INTERVAL :: nat where "WATCHDOG_SLOW_INTERVAL \<equiv> 1800 * second"
abbreviation FLAP_WINDOW_TICKS :: u32 where "FLAP_WINDOW_TICKS \<equiv> 3"
abbreviation FLAP_STRIKES :: u32 where "FLAP_STRIKES \<equiv> 3"

record watchdog =
  wd_interval :: nat
  wd_ticks :: "u32 option"
  wd_strikes :: u32
  wd_slow :: bool

definition watchdog_init :: watchdog where
  "watchdog_init = \<lparr>wd_interval = WATCHDOG_INTERVAL, wd_ticks = None, wd_strikes = 0, wd_slow = False\<rparr>"

text \<open>\<open>None\<close> is a tick whose task failed to run.\<close>

type_synonym tick_result = "(os_error + tick_outcome) option"

definition after_clean :: "watchdog \<Rightarrow> watchdog" where
  "after_clean w =
     (if wd_slow w
      then w\<lparr>wd_slow := False, wd_strikes := 0, wd_ticks := None, wd_interval := WATCHDOG_INTERVAL\<rparr>
      else case wd_ticks w of
        None \<Rightarrow> w
      | Some ticks \<Rightarrow>
          if ticks + 1 \<ge> FLAP_WINDOW_TICKS then w\<lparr>wd_ticks := None, wd_strikes := 0\<rparr>
          else w\<lparr>wd_ticks := Some (ticks + 1)\<rparr>)"

definition after_reassert :: "watchdog \<Rightarrow> watchdog" where
  "after_reassert w =
     (let strikes = (if wd_ticks w \<noteq> None then wd_strikes w + 1 else 1);
          w = w\<lparr>wd_strikes := strikes, wd_ticks := Some 0\<rparr> in
      if strikes \<ge> FLAP_STRIKES \<and> \<not> wd_slow w
      then w\<lparr>wd_slow := True, wd_interval := WATCHDOG_SLOW_INTERVAL\<rparr> else w)"

fun watchdog_step :: "watchdog \<times> manager \<Rightarrow> tick_result \<Rightarrow> watchdog \<times> manager" where
  "watchdog_step (w, m) None = (w, m)"
| "watchdog_step (w, m) (Some (Inl e)) = (w, m)"
| "watchdog_step (w, m) (Some (Inr NotActive)) = (w, m)"
| "watchdog_step (w, m) (Some (Inr (Clean captured capture_error))) =
     (after_clean w, case captured of Some servers \<Rightarrow> set_system_fallback m servers | None \<Rightarrow> m)"
| "watchdog_step (w, m) (Some (Inr (Reasserted corrected captured capture_error))) =
     (after_reassert w, if captured = [] then m else set_system_fallback m captured)"

definition watchdog_loop :: "bool \<Rightarrow> manager \<Rightarrow> tick_result list \<Rightarrow> watchdog \<times> manager" where
  "watchdog_loop root m ticks =
     (if root then foldl watchdog_step (watchdog_init, m) ticks else (watchdog_init, m))"

section \<open>Flapping, as a reading of the history\<close>

text \<open>What a tick tells: DNS was found intact or had to be reasserted.\<close>

fun drift_of :: "tick_result \<Rightarrow> bool option" where
  "drift_of (Some (Inr (Clean captured e))) = Some False"
| "drift_of (Some (Inr (Reasserted corrected captured e))) = Some True"
| "drift_of _ = None"

definition drifts :: "tick_result list \<Rightarrow> bool list" where
  "drifts ticks = List.map_filter drift_of ticks"

text \<open>
  The reasserts of the running episode, newest first: going back in time, the episode ends where
  three intact ticks in a row were seen.  \<open>gap\<close> counts the intact ticks since the last reassert.
\<close>

fun episode :: "nat \<Rightarrow> bool list \<Rightarrow> nat" where
  "episode gap [] = 0"
| "episode gap (True # older) = 1 + episode 0 older"
| "episode gap (False # older) = (if gap + 1 \<ge> 3 then 0 else episode (gap + 1) older)"

fun captured_of :: "tick_result \<Rightarrow> socket_addr list option" where
  "captured_of (Some (Inr (Clean captured e))) = captured"
| "captured_of (Some (Inr (Reasserted corrected captured e))) = (if captured = [] then None else Some captured)"
| "captured_of _ = None"

text \<open>The state of the watchdog after a history that never reached the slow cadence.\<close>

definition intact_since :: "bool list \<Rightarrow> nat" where
  "intact_since newest_first = length (takeWhile Not newest_first)"

definition tracks :: "watchdog \<Rightarrow> bool list \<Rightarrow> bool" where
  "tracks w newest_first \<longleftrightarrow>
     (let n = intact_since newest_first in
      if n \<ge> 3 \<or> True \<notin> set newest_first then wd_ticks w = None \<and> wd_strikes w = 0
      else wd_ticks w = Some (word_of_nat n) \<and> unat (wd_strikes w) = episode 0 newest_first)
     \<and> \<not> wd_slow w \<and> wd_interval w = WATCHDOG_INTERVAL \<and> unat (wd_strikes w) < 3"

lemma episode_idle: "gap + intact_since h \<ge> 3 \<or> True \<notin> set h \<Longrightarrow> gap < 3 \<Longrightarrow> episode gap h = 0"
  by (induction gap h rule: episode.induct) (auto simp: intact_since_def)

lemma episode_gap:
  "gap + intact_since h < 3 \<Longrightarrow> gap' + intact_since h < 3 \<Longrightarrow> True \<in> set h \<Longrightarrow> episode gap h = episode gap' h"
  by (induction gap h arbitrary: gap' rule: episode.induct) (auto simp: intact_since_def)

lemma tracks_episode: "tracks w h \<Longrightarrow> unat (wd_strikes w) = episode 0 h"
  using episode_idle [of 0 h] by (auto simp: tracks_def Let_def split: if_splits)

lemma unat_strikes_Suc: "unat (s :: u32) < 3 \<Longrightarrow> unat (s + 1) = unat s + 1"
  by (simp add: unat_word_ariths)

lemma tracks_clean:
  assumes "tracks w h"
  shows "tracks (after_clean w) (False # h)"
proof (cases "intact_since h \<ge> 3 \<or> True \<notin> set h")
  case True
  with assms have "wd_ticks w = None" by (simp add: tracks_def Let_def)
  with assms True show ?thesis by (auto simp: tracks_def Let_def after_clean_def intact_since_def)
next
  case False
  with assms have w: "wd_ticks w = Some (word_of_nat (intact_since h))" "\<not> wd_slow w"
    "unat (wd_strikes w) = episode 0 h" "unat (wd_strikes w) < 3" "wd_interval w = WATCHDOG_INTERVAL"
    by (simp_all add: tracks_def Let_def)
  consider "intact_since h = 0" | "intact_since h = 1" | "intact_since h = 2" using False by linarith
  then show ?thesis
  proof cases
    case 3
    with w False show ?thesis by (simp add: tracks_def after_clean_def intact_since_def)
  qed (use w False episode_gap [of 0 h 1] in
      \<open>auto simp: tracks_def after_clean_def intact_since_def word_le_nat_alt\<close>)
qed

lemma tracks_reassert:
  assumes "tracks w h"
  shows "episode 0 (True # h) < 3 \<longrightarrow> tracks (after_reassert w) (True # h)"
    and "wd_slow (after_reassert w) \<longleftrightarrow> episode 0 (True # h) \<ge> 3"
proof -
  have e: "unat (wd_strikes w) = episode 0 h" and lt: "unat (wd_strikes w) < 3"
    and w: "\<not> wd_slow w" "wd_interval w = WATCHDOG_INTERVAL"
    using tracks_episode [OF assms] assms by (simp_all add: tracks_def)
  let ?s = "if wd_ticks w \<noteq> None then wd_strikes w + 1 else 1 :: u32"
  have s: "unat ?s = episode 0 (True # h)"
    using e lt unat_strikes_Suc [of "wd_strikes w"] assms
    by (auto simp: tracks_def Let_def split: if_splits)
  have slow: "?s \<ge> FLAP_STRIKES \<longleftrightarrow> episode 0 (True # h) \<ge> 3"
    unfolding s [symmetric] by (simp add: word_le_nat_alt)
  show "wd_slow (after_reassert w) \<longleftrightarrow> episode 0 (True # h) \<ge> 3"
    using slow w(1) by (simp add: after_reassert_def Let_def)
  show "episode 0 (True # h) < 3 \<longrightarrow> tracks (after_reassert w) (True # h)"
  proof
    assume "episode 0 (True # h) < 3"
    with slow have "\<not> ?s \<ge> FLAP_STRIKES" by simp
    then have "after_reassert w = w\<lparr>wd_strikes := ?s, wd_ticks := Some 0\<rparr>" by (simp add: after_reassert_def Let_def)
    with s \<open>episode 0 (True # h) < 3\<close> w show "tracks (after_reassert w) (True # h)"
      by (simp add: tracks_def intact_since_def)
  qed
qed

lemma tracks_init: "tracks watchdog_init []"
  by (simp add: tracks_def watchdog_init_def)

lemma drifts_snoc: "drifts (ticks @ [t]) = drifts ticks @ (case drift_of t of Some b \<Rightarrow> [b] | None \<Rightarrow> [])"
  by (simp add: drifts_def map_filter_def split: option.split)

lemma watchdog_step_drift:
  "fst (watchdog_step (w, m) t) =
     (case drift_of t of None \<Rightarrow> w | Some True \<Rightarrow> after_reassert w | Some False \<Rightarrow> after_clean w)"
  by (cases "((w, m), t)" rule: watchdog_step.cases) simp_all

lemma watchdog_step_fallback:
  "snd (watchdog_step (w, m) t) = (case captured_of t of Some servers \<Rightarrow> set_system_fallback m servers | None \<Rightarrow> m)"
  by (cases "((w, m), t)" rule: watchdog_step.cases) simp_all

lemma watchdog_loop_snoc:
  "watchdog_loop True m (ticks @ [t]) = watchdog_step (watchdog_loop True m ticks) t"
  by (simp add: watchdog_loop_def)

lemma watchdog_tracks:
  assumes "\<forall>n \<le> length ticks. \<not> wd_slow (fst (watchdog_loop True m (take n ticks)))"
  shows "tracks (fst (watchdog_loop True m ticks)) (rev (drifts ticks))"
  using assms
proof (induction ticks rule: rev_induct)
  case Nil
  show ?case by (simp add: watchdog_loop_def drifts_def tracks_init map_filter_def)
next
  case (snoc t ticks)
  obtain w m' where wm: "watchdog_loop True m ticks = (w, m')" by fastforce
  have "\<forall>n \<le> length ticks. \<not> wd_slow (fst (watchdog_loop True m (take n ticks)))"
  proof (intro allI impI)
    fix n assume "n \<le> length ticks"
    then show "\<not> wd_slow (fst (watchdog_loop True m (take n ticks)))"
      using spec [OF snoc.prems, of n] by simp
  qed
  then have w: "tracks w (rev (drifts ticks))" using snoc.IH wm by simp
  have fast: "\<not> wd_slow (fst (watchdog_step (w, m') t))"
    using spec [OF snoc.prems, of "length (ticks @ [t])"] wm by (simp add: watchdog_loop_snoc)
  show ?case
    using w tracks_clean [OF w] tracks_reassert [OF w] fast
    by (cases "drift_of t") (auto simp: watchdog_loop_snoc wm watchdog_step_drift drifts_snoc not_le split: bool.splits)
qed

section \<open>Properties of the watchdog loop\<close>

text \<open>C35: The watchdog slows down exactly when the takeover keeps being undone: up to the first slow
  phase it turns slow when, and only when, three reasserts happened with fewer than three intact
  ticks in a row between them, whatever idle and failed ticks came in between; and the first
  intact tick of a slow phase puts it back to where it started.\<close>

theorem watchdog_slows_when_flapping:
  assumes "\<forall>n < length ticks. \<not> wd_slow (fst (watchdog_loop True m (take n ticks)))"
  shows "(wd_slow (fst (watchdog_loop True m ticks)) \<longleftrightarrow> episode 0 (rev (drifts ticks)) \<ge> 3)
     \<and> (wd_slow (fst (watchdog_loop True m ticks)) \<longrightarrow>
          wd_interval (fst (watchdog_loop True m ticks)) = WATCHDOG_SLOW_INTERVAL
          \<and> fst (watchdog_loop True m (ticks @ [Some (Inr (Clean captured e))])) = watchdog_init)"
proof (cases ticks rule: rev_exhaust)
  case Nil
  then show ?thesis by (simp add: watchdog_loop_def watchdog_init_def drifts_def map_filter_def)
next
  case (snoc older t)
  obtain w m' where wm: "watchdog_loop True m older = (w, m')" by fastforce
  have w: "tracks w (rev (drifts older))"
  proof -
    have "\<not> wd_slow (fst (watchdog_loop True m (take n older)))" if "n \<le> length older" for n
      using spec [OF assms, of n] that snoc by simp
    then show ?thesis using watchdog_tracks [of older m] wm by simp
  qed
  then have fast: "\<not> wd_slow w" "wd_interval w = WATCHDOG_INTERVAL" "\<not> episode 0 (rev (drifts older)) \<ge> 3"
    using tracks_episode [OF w] by (simp_all add: tracks_def)
  have idle: "\<not> episode 0 (False # rev (drifts older)) \<ge> 3"
    using tracks_episode [OF tracks_clean [OF w]] tracks_clean [OF w] by (simp add: tracks_def)
  have iff: "wd_slow (fst (watchdog_step (w, m') t)) \<longleftrightarrow> episode 0 (rev (drifts ticks)) \<ge> 3"
    using fast idle tracks_reassert(2) [OF w] tracks_clean [OF w] snoc
    by (cases "drift_of t") (auto simp: watchdog_step_drift drifts_snoc tracks_def split: bool.splits)
  have slow: "wd_interval (fst (watchdog_step (w, m') t)) = WATCHDOG_SLOW_INTERVAL" if "wd_slow (fst (watchdog_step (w, m') t))"
    using that fast tracks_clean [OF w]
    by (cases "drift_of t") (auto simp: watchdog_step_drift after_reassert_def Let_def tracks_def split: bool.splits if_splits)
  have reset: "after_clean v = watchdog_init" if "wd_slow v" for v
    using that by (simp add: after_clean_def watchdog_init_def)
  obtain v m'' where v: "watchdog_step (w, m') t = (v, m'')" by fastforce
  show ?thesis
    using iff slow reset v unfolding snoc watchdog_loop_snoc wm by (simp add: watchdog_step_drift)
qed

definition flapping :: "tick_result list" where
  "flapping = [Some (Inr (Reasserted [''LAN''] [] None)), Some (Inr (Clean None None)), None,
     Some (Inr (Reasserted [''LAN''] [] None)), Some (Inl (Refused ''LAN'')), Some (Inr NotActive),
     Some (Inr (Clean None None)), Some (Inr (Clean None None)), Some (Inr (Reasserted [''LAN''] [] None))]"

lemma watchdog_slows_when_flapping_witness:
  "wd_slow (fst (watchdog_loop True sample_manager flapping))
     \<and> fst (watchdog_loop True sample_manager (flapping @ [Some (Inr (Clean None None))])) = watchdog_init"
proof -
  have "list_all (\<lambda>n. \<not> wd_slow (fst (watchdog_loop True sample_manager (take n flapping)))) [0..<9]" by code_simp
  then have "\<forall>n < length flapping. \<not> wd_slow (fst (watchdog_loop True sample_manager (take n flapping)))"
    by (simp add: list_all_iff flapping_def)
  moreover have "episode 0 (rev (drifts flapping)) \<ge> 3" by code_simp
  ultimately show ?thesis using watchdog_slows_when_flapping [of flapping sample_manager] by blast
qed

text \<open>The daemon falls back to the servers captured last: after any history of ticks the
  manager's system fallback is the most recently captured list, or the one it started with, and
  nothing else of the manager has changed.\<close>

lemma watchdog_keeps_last_capture:
  "snd (watchdog_loop True m ticks) =
     m\<lparr>mg_system_fallback := last (mg_system_fallback m # List.map_filter captured_of ticks)\<rparr>"
proof (induction ticks rule: rev_induct)
  case (snoc t ticks)
  obtain w m' where wm: "watchdog_loop True m ticks = (w, m')" by fastforce
  with snoc show ?case
    by (auto simp: watchdog_loop_snoc watchdog_step_fallback set_system_fallback_def map_filter_def split: option.split)
qed (simp add: watchdog_loop_def map_filter_def)

end
