(* ===== verification/Atomic_File.thy ===== *)
theory Atomic_File
  imports Host
begin

text \<open>
  Atomic replacement of a file, \<open>src/src/atomic_file.rs\<close>: the contents go to a private temporary
  file beside the destination, which one rename publishes.  The file system calls are an
  argument; a path is its text, without empty components or a trailing separator.
\<close>

section \<open>Paths\<close>

definition path_parent :: "string \<Rightarrow> string option" where
  "path_parent p =
     (if p = [] \<or> p = ''/'' then None
      else case rsplit_once ''/'' p of
        None \<Rightarrow> Some []
      | Some (dir, _) \<Rightarrow> Some (if dir = [] then ''/'' else dir))"

definition path_join :: "string \<Rightarrow> string \<Rightarrow> string" where
  "path_join dir name = (if ends_with dir ''/'' then dir @ name else dir @ ''/'' @ name)"

section \<open>Writing\<close>

datatype create_error = AlreadyExists | CreateFailed string

text \<open>An option is the error of a call, if any.\<close>

record 'o fs =
  fs_pid :: "'o \<Rightarrow> nat"
  fs_nanos :: "'o \<Rightarrow> nat"
  fs_create_new :: "string \<Rightarrow> 'o \<Rightarrow> create_error option \<times> 'o"
  fs_write :: "string \<Rightarrow> string \<Rightarrow> 'o \<Rightarrow> string option \<times> 'o"
  fs_chmod :: "string \<Rightarrow> nat \<Rightarrow> 'o \<Rightarrow> string option \<times> 'o"
  fs_sync :: "string \<Rightarrow> 'o \<Rightarrow> string option \<times> 'o"
  fs_rename :: "string \<Rightarrow> string \<Rightarrow> 'o \<Rightarrow> string option \<times> 'o"
  fs_unlink :: "string \<Rightarrow> 'o \<Rightarrow> string option \<times> 'o"

definition io_step :: "string \<Rightarrow> ('o \<Rightarrow> string option \<times> 'o) \<Rightarrow> ('o, unit) io" where
  "io_step action call = (\<lambda>os. case call os of
     (None, os) \<Rightarrow> (Inr (), os) | (Some e, os) \<Rightarrow> (Inl (IoError action e), os))"

definition temporary_path :: "string \<Rightarrow> nat \<Rightarrow> nat \<Rightarrow> nat \<Rightarrow> string" where
  "temporary_path dir pid nonce attempt =
     path_join dir (''.dnsrivet-'' @ show_nat pid @ ''-'' @ show_nat nonce @ ''-'' @ show_nat attempt @ ''.tmp'')"

fun create_temporary :: "'o fs \<Rightarrow> string \<Rightarrow> nat \<Rightarrow> nat \<Rightarrow> nat list \<Rightarrow> ('o, string) io" where
  "create_temporary fs dir pid nonce [] = io_fail (Refused ''could not create a unique temporary file'')"
| "create_temporary fs dir pid nonce (attempt # attempts) = (\<lambda>os.
     case fs_create_new fs (temporary_path dir pid nonce attempt) os of
       (None, os) \<Rightarrow> (Inr (temporary_path dir pid nonce attempt), os)
     | (Some AlreadyExists, os) \<Rightarrow> create_temporary fs dir pid nonce attempts os
     | (Some (CreateFailed e), os) \<Rightarrow> (Inl (IoError (temporary_path dir pid nonce attempt) e), os))"

definition temporary_new :: "'o fs \<Rightarrow> string \<Rightarrow> ('o, string) io" where
  "temporary_new fs destination =
     (let dir = (case path_parent destination of Some d \<Rightarrow> if d = [] then ''.'' else d | None \<Rightarrow> ''.'') in
      io_bind (io_check (fs_nanos fs)) (\<lambda>nonce. io_bind (io_check (fs_pid fs)) (\<lambda>pid.
        create_temporary fs dir pid nonce [0..<16])))"

text \<open>The temporary file is removed when its guard is dropped, whatever happened before.\<close>

definition drop_temporary :: "'o fs \<Rightarrow> string \<Rightarrow> ('o, 'a) io \<Rightarrow> ('o, 'a) io" where
  "drop_temporary fs temporary body = (\<lambda>os. case body os of (r, os) \<Rightarrow> (r, snd (fs_unlink fs temporary os)))"

text \<open>\<open>contents\<close> fills the temporary file and may refuse it.\<close>

definition atomic_write :: "'o fs \<Rightarrow> string \<Rightarrow> nat \<Rightarrow> (string \<Rightarrow> ('o, unit) io) \<Rightarrow> ('o, unit) io" where
  "atomic_write fs destination mode contents =
     io_bind (temporary_new fs destination) (\<lambda>temporary.
       drop_temporary fs temporary
         (io_bind (contents temporary) (\<lambda>_.
          io_bind (io_step temporary (fs_chmod fs temporary mode)) (\<lambda>_.
          io_bind (io_step temporary (fs_sync fs temporary)) (\<lambda>_.
            io_step destination (fs_rename fs temporary destination))))))"

definition write_text :: "'o fs \<Rightarrow> string \<Rightarrow> string \<Rightarrow> ('o, unit) io" where
  "write_text fs text temporary = io_step temporary (fs_write fs temporary text)"

section \<open>What the file system promises\<close>

text \<open>
  A file is its contents.  A failing call changes nothing, except that a failing write may leave
  anything in its own file; a rename replaces the destination in one step.
\<close>

locale file_system =
  fixes fs :: "'o fs" and files :: "'o \<Rightarrow> string \<Rightarrow> string option"
  assumes create_new: "fs_create_new fs p os = (ce, os') \<Longrightarrow>
        files os' = (if ce = None then (files os)(p \<mapsto> []) else files os) \<and> (ce = None \<longrightarrow> files os p = None)"
    and write_file: "fs_write fs p text os = (e, os') \<Longrightarrow>
        (\<forall>q. q \<noteq> p \<longrightarrow> files os' q = files os q) \<and> (e = None \<longrightarrow> files os' p = Some text)"
    and chmod: "fs_chmod fs p mode os = (e, os') \<Longrightarrow> files os' = files os"
    and sync: "fs_sync fs p os = (e, os') \<Longrightarrow> files os' = files os"
    and rename: "fs_rename fs p q os = (e, os') \<Longrightarrow>
        files os' = (if e = None then (files os)(q := files os p, p := None) else files os)"
    and unlink: "fs_unlink fs p os = (e, os') \<Longrightarrow>
        files os' = (if e = None then (files os)(p := None) else files os)"
begin

text \<open>What a contents callback may do: write the text, or anything when it fails.\<close>

definition writes :: "(string \<Rightarrow> ('o, unit) io) \<Rightarrow> string \<Rightarrow> bool" where
  "writes contents text \<longleftrightarrow> (\<forall>p os r os'. contents p os = (r, os') \<longrightarrow>
     (\<forall>q. q \<noteq> p \<longrightarrow> files os' q = files os q) \<and> (r = Inr () \<longrightarrow> files os' p = Some text))"

lemma create_temporary_new:
  "create_temporary fs dir pid nonce attempts os = (r, os') \<Longrightarrow>
     (case r of Inl e \<Rightarrow> files os' = files os
      | Inr t \<Rightarrow> files os t = None \<and> files os' = (files os)(t \<mapsto> []) \<and> (\<exists>a \<in> set attempts. t = temporary_path dir pid nonce a))"
proof (induction attempts arbitrary: os)
  case (Cons a attempts)
  obtain e os1 where e: "fs_create_new fs (temporary_path dir pid nonce a) os = (e, os1)" by fastforce
  note c = create_new [OF e]
  consider "e = None" | "e = Some AlreadyExists" | f where "e = Some (CreateFailed f)"
    by (metis create_error.exhaust not_None_eq)
  then show ?case
  proof cases
    case 2
    then have "create_temporary fs dir pid nonce attempts os1 = (r, os')" using Cons.prems e by simp
    from Cons.IH [OF this] c 2 show ?thesis by (auto split: sum.splits)
  qed (use Cons.prems e c in auto)
qed (auto simp: io_fail_def)

lemma io_step_cases:
  "io_step action call os = (r, os') \<Longrightarrow> \<exists>e. call os = (e, os') \<and> (r = Inr () \<longleftrightarrow> e = None) \<and> (isl r \<longleftrightarrow> e \<noteq> None)"
  by (auto simp: io_step_def split: prod.splits option.splits)

lemma write_text_writes: "writes (write_text fs text) text"
proof -
  have "(\<forall>q. q \<noteq> p \<longrightarrow> files os' q = files os q) \<and> (r = Inr () \<longrightarrow> files os' p = Some text)"
    if go: "write_text fs text p os = (r, os')" for p os r os'
  proof -
    from io_step_cases [OF go [unfolded write_text_def]]
    obtain e where "fs_write fs p text os = (e, os')" "r = Inr () \<longleftrightarrow> e = None" by auto
    with write_file [OF this(1)] show ?thesis by simp
  qed
  then show ?thesis unfolding writes_def by blast
qed

text \<open>The body under the guard: the destination is replaced in one step or not at all.\<close>

lemma publish:
  assumes w: "writes contents text" and t: "t \<noteq> destination"
    and go: "io_bind (contents t) (\<lambda>_. io_bind (io_step t (fs_chmod fs t mode)) (\<lambda>_.
      io_bind (io_step t (fs_sync fs t)) (\<lambda>_. io_step destination (fs_rename fs t destination)))) os = (r, os')"
  shows "(\<forall>q. q \<noteq> t \<and> q \<noteq> destination \<longrightarrow> files os' q = files os q)
     \<and> files os' destination = (if isl r then files os destination else Some text)
     \<and> (\<not> isl r \<longrightarrow> files os' t = None)"
  using go
proof (cases rule: io_bindE)
  case (error e)
  with w t show ?thesis unfolding writes_def by (metis isl_def)
next
  case (step u os1)
  then have c: "\<forall>q. q \<noteq> t \<longrightarrow> files os1 q = files os q" "files os1 t = Some text"
    using w unfolding writes_def by (metis, metis (full_types) old.unit.exhaust)
  from step(2) show ?thesis
  proof (cases rule: io_bindE)
    case (error e)
    with io_step_cases [OF error(1)] chmod c t show ?thesis by fastforce
  next
    case (step u os2)
    with io_step_cases [OF step(1)] chmod have f2: "files os2 = files os1" by blast
    from step(2) show ?thesis
    proof (cases rule: io_bindE)
      case (error e)
      with io_step_cases [OF error(1)] sync c t f2 show ?thesis by fastforce
    next
      case (step u os3)
      with io_step_cases [OF step(1)] sync have f3: "files os3 = files os1" using f2 by metis
      from io_step_cases [OF step(2)] obtain e where e: "fs_rename fs t destination os3 = (e, os')"
        "isl r \<longleftrightarrow> e \<noteq> None" by blast
      from rename [OF e(1)] e(2) c f3 t show ?thesis by auto
    qed
  qed
qed

lemma atomic_write_spec:
  assumes w: "writes contents text" and d: "files os destination \<noteq> None \<or> (\<forall>dir pid nonce a. temporary_path dir pid nonce a \<noteq> destination)"
    and go: "atomic_write fs destination mode contents os = (r, os')"
  shows "(\<forall>q. files os q \<noteq> None \<longrightarrow> q \<noteq> destination \<longrightarrow> files os' q = files os q)
     \<and> (if isl r then files os' destination = files os destination else files os' = (files os)(destination \<mapsto> text))"
  using go [unfolded atomic_write_def]
proof (cases rule: io_bindE)
  case (error e)
  then have "files os' = files os"
    using create_temporary_new by (fastforce simp: temporary_new_def Let_def io_bind_def io_check_def)
  with error(2) show ?thesis by simp
next
  case (step t os1)
  then have t: "files os t = None" "files os1 = (files os)(t \<mapsto> [])" "\<exists>dir pid nonce a. t = temporary_path dir pid nonce a"
    using create_temporary_new by (fastforce simp: temporary_new_def Let_def io_bind_def io_check_def)+
  then have td: "t \<noteq> destination" using d by metis
  let ?body = "io_bind (contents t) (\<lambda>_. io_bind (io_step t (fs_chmod fs t mode)) (\<lambda>_.
      io_bind (io_step t (fs_sync fs t)) (\<lambda>_. io_step destination (fs_rename fs t destination))))"
  obtain r2 os2 where b: "?body os1 = (r2, os2)" by fastforce
  obtain e os3 where u: "fs_unlink fs t os2 = (e, os3)" by fastforce
  from step(2) b u have out: "r = r2" "os' = os3" by (simp_all add: drop_temporary_def)
  note P = publish [OF w td b] and U = unlink [OF u]
  have other: "files os' q = files os q" if "q \<noteq> t" "q \<noteq> destination" for q
    using that P U t(2) out by (auto split: if_splits)
  have dest: "files os' destination = (if isl r then files os destination else Some text)"
    using P U t(2) out td by (auto split: if_splits)
  have "files os' t = files os t" if "\<not> isl r"
    using that P U t(1) out by (auto split: if_splits)
  then have "files os' = (files os)(destination \<mapsto> text)" if "\<not> isl r"
    using that other dest by (intro ext) (metis fun_upd_apply)
  moreover have "files os' q = files os q" if "files os q \<noteq> None" "q \<noteq> destination" for q
    using that other t(1) by metis
  ultimately show ?thesis using dest by auto
qed

end

section \<open>A disk\<close>

text \<open>A disk serves a number of calls and then fails; a failing write leaves half of the text.\<close>

record disk =
  dk_files :: "(string \<times> string) list"
  dk_calls :: nat

definition disk_call :: "'e \<Rightarrow> (disk \<Rightarrow> disk) \<Rightarrow> (disk \<Rightarrow> disk) \<Rightarrow> disk \<Rightarrow> 'e option \<times> disk" where
  "disk_call err failing working d =
     (if dk_calls d = 0 then (Some err, failing d) else (None, working (d\<lparr>dk_calls := dk_calls d - 1\<rparr>)))"

definition disk_put :: "string \<Rightarrow> string \<Rightarrow> disk \<Rightarrow> disk" where
  "disk_put p text d = d\<lparr>dk_files := put p text (dk_files d)\<rparr>"

definition disk_drop :: "string \<Rightarrow> disk \<Rightarrow> disk" where
  "disk_drop p d = d\<lparr>dk_files := drop_key p (dk_files d)\<rparr>"

definition disk_move :: "string \<Rightarrow> string \<Rightarrow> disk \<Rightarrow> disk" where
  "disk_move p q d = (case map_of (dk_files d) p of
     None \<Rightarrow> disk_drop p (disk_drop q d) | Some text \<Rightarrow> disk_drop p (disk_put q text d))"

definition disk_fs :: "disk fs" where
  "disk_fs = \<lparr>fs_pid = (\<lambda>d. 7), fs_nanos = (\<lambda>d. 0),
     fs_create_new = (\<lambda>p d. if map_of (dk_files d) p \<noteq> None then (Some AlreadyExists, d)
        else disk_call (CreateFailed ''crashed'') id (disk_put p []) d),
     fs_write = (\<lambda>p text. disk_call ''crashed'' (disk_put p (take (length text div 2) text)) (disk_put p text)),
     fs_chmod = (\<lambda>p mode. disk_call ''crashed'' id id), fs_sync = (\<lambda>p. disk_call ''crashed'' id id),
     fs_rename = (\<lambda>p q. disk_call ''crashed'' id (disk_move p q)),
     fs_unlink = (\<lambda>p. disk_call ''crashed'' id (disk_drop p))\<rparr>"

definition disk_files :: "disk \<Rightarrow> string \<Rightarrow> string option" where
  "disk_files d = map_of (dk_files d)"

lemma disk_files_simps [simp]:
  "disk_files (disk_put p text d) = (disk_files d)(p \<mapsto> text)"
  "disk_files (disk_drop p d) = (disk_files d)(p := None)"
  "disk_files (disk_move p q d) = (disk_files d)(q := disk_files d p, p := None)"
  "disk_files (d\<lparr>dk_calls := n\<rparr>) = disk_files d"
  by (simp_all add: disk_files_def disk_put_def disk_drop_def disk_move_def split: option.split)

interpretation disk: file_system disk_fs disk_files
  by unfold_locales
     (auto simp: disk_fs_def disk_call_def split: if_splits simp: disk_files_def [symmetric, THEN fun_cong])

section \<open>Properties of atomic writes\<close>

text \<open>C40: Replacing a file is all or nothing: on success the destination holds the text and no other
  file changed; on failure, wherever it struck, the destination is what it was and so is every
  other file that existed, a temporary file being all that may be left behind.\<close>

theorem atomic_write_all_or_nothing:
  assumes "file_system fs files"
    and "files os destination \<noteq> None \<or> (\<forall>dir pid nonce a. temporary_path dir pid nonce a \<noteq> destination)"
    and "atomic_write fs destination mode (write_text fs text) os = (r, os')"
  shows "(\<forall>q. files os q \<noteq> None \<longrightarrow> q \<noteq> destination \<longrightarrow> files os' q = files os q)
     \<and> (if isl r then files os' destination = files os destination else files os' = (files os)(destination \<mapsto> text))"
  by (rule file_system.atomic_write_spec [OF assms(1) file_system.write_text_writes [OF assms(1)] assms(2,3)])

definition sample_disk :: "nat \<Rightarrow> disk" where
  "sample_disk calls = \<lparr>dk_files = [(''/etc/a'', ''old'')], dk_calls = calls\<rparr>"

lemma atomic_write_all_or_nothing_witness:
  "disk_files (snd (atomic_write disk_fs ''/etc/a'' 384 (write_text disk_fs ''new'') (sample_disk 1))) ''/etc/a'' = Some ''old''
   \<and> disk_files (snd (atomic_write disk_fs ''/etc/a'' 384 (write_text disk_fs ''new'') (sample_disk 9))) ''/etc/a'' = Some ''new''"
proof -
  have d: "disk_files (sample_disk n) ''/etc/a'' = Some ''old''" for n
    by (simp add: disk_files_def sample_disk_def)
  note A = atomic_write_all_or_nothing [OF disk.file_system_axioms _ surjective_pairing]
  have f: "isl (fst (atomic_write disk_fs ''/etc/a'' 384 (write_text disk_fs ''new'') (sample_disk 1)))"
    "\<not> isl (fst (atomic_write disk_fs ''/etc/a'' 384 (write_text disk_fs ''new'') (sample_disk 9)))" by code_simp+
  have "disk_files (snd (atomic_write disk_fs ''/etc/a'' 384 (write_text disk_fs ''new'') (sample_disk 1))) ''/etc/a'' = Some ''old''"
    using A [of "sample_disk 1" "''/etc/a''" 384 "''new''"] d f(1) by simp
  moreover have "disk_files (snd (atomic_write disk_fs ''/etc/a'' 384 (write_text disk_fs ''new'') (sample_disk 9))) ''/etc/a'' = Some ''new''"
    using A [of "sample_disk 9" "''/etc/a''" 384 "''new''"] d f(2) by simp
  ultimately show ?thesis by blast
qed

end
