(* ===== verification/Launchd.thy ===== *)
theory Launchd
  imports Takeover Atomic_File Config
begin

text \<open>
  The launchd job, \<open>src/src/service/launchd.rs\<close>: installing the property list atomically, its text,
  and the launchctl commands.  The record \<open>control\<close> gathers what the command line side of the
  program reaches: the host of theory Host, the file system of theory Atomic_File, the clock,
  sockets and a few calls on paths.
\<close>

section \<open>The environment of the control commands\<close>

datatype path_kind =
  Missing
| Symlink "string + string"
| NotALink
| Uninspectable string

record 'o control =
  ct_dns :: "'o dns_host"
  ct_fs :: "'o fs"
  ct_toml :: toml_codec
  ct_utf8 :: "string \<Rightarrow> bool"
  ct_root :: "'o \<Rightarrow> bool"
  ct_read :: "string \<Rightarrow> 'o \<Rightarrow> string + string"
  ct_mkdir :: "string \<Rightarrow> 'o \<Rightarrow> string option \<times> 'o"
  ct_open :: "string \<Rightarrow> 'o \<Rightarrow> string option"
  ct_copy :: "string \<Rightarrow> string \<Rightarrow> 'o \<Rightarrow> string option \<times> 'o"
  ct_is_dir :: "string \<Rightarrow> 'o \<Rightarrow> bool"
  ct_open_log :: "string \<Rightarrow> 'o \<Rightarrow> string option"
  ct_runtime :: "'o \<Rightarrow> string option"
  ct_current_exe :: "'o \<Rightarrow> string + string"
  ct_canonicalize :: "string \<Rightarrow> 'o \<Rightarrow> string option"
  ct_inspect :: "string \<Rightarrow> 'o \<Rightarrow> path_kind"
  ct_symlink :: "string \<Rightarrow> string \<Rightarrow> 'o \<Rightarrow> string option \<times> 'o"
  ct_bind_udp :: "socket_addr \<Rightarrow> 'o \<Rightarrow> string option \<times> 'o"
  ct_bind_tcp :: "socket_addr \<Rightarrow> 'o \<Rightarrow> string option \<times> 'o"
  ct_unbind :: "'o \<Rightarrow> 'o"
  ct_now :: "'o \<Rightarrow> nat"
  ct_nanos :: "'o \<Rightarrow> nat"
  ct_sleep :: "nat \<Rightarrow> 'o \<Rightarrow> 'o"
  ct_send :: "socket_addr \<Rightarrow> socket_addr \<Rightarrow> nat \<Rightarrow> bytes \<Rightarrow> 'o \<Rightarrow> (string + bytes) \<times> 'o"

abbreviation ct_host :: "'o control \<Rightarrow> 'o host" where
  "ct_host c \<equiv> dh_host (ct_dns c)"

section \<open>The property list\<close>

definition LABEL :: string where "LABEL = ''io.github.wenliangcao.dnsrivet''"
definition PLIST_PATH :: string where
  "PLIST_PATH = ''/Library/LaunchDaemons/io.github.wenliangcao.dnsrivet.plist''"
definition LAUNCHCTL :: string where "LAUNCHCTL = ''/bin/launchctl''"

definition replace_char :: "char \<Rightarrow> string \<Rightarrow> string \<Rightarrow> string" where
  "replace_char c by s = concat (map (\<lambda>d. if d = c then by else [d]) s)"

definition xml_escape :: "string \<Rightarrow> string" where
  "xml_escape s =
     replace_char (CHR 0x27) ''&apos;'' (replace_char (CHR 0x22) ''&quot;''
       (replace_char (CHR ''>'') ''&gt;'' (replace_char (CHR ''<'') ''&lt;'' (replace_char (CHR ''&'') ''&amp;'' s))))"

definition quoted :: "string \<Rightarrow> string" where
  "quoted s = [CHR 0x22] @ s @ [CHR 0x22]"

definition plist_lines :: "string \<Rightarrow> string \<Rightarrow> string list" where
  "plist_lines binary config =
    [''<?xml version='' @ quoted ''1.0'' @ '' encoding='' @ quoted ''UTF-8'' @ ''?>'',
     ''<!DOCTYPE plist PUBLIC '' @ quoted ''-//Apple//DTD PLIST 1.0//EN'' @ '' ''
       @ quoted ''http://www.apple.com/DTDs/PropertyList-1.0.dtd'' @ ''>'',
     ''<plist version='' @ quoted ''1.0'' @ ''>'',
     ''<dict>'',
     ''    <key>Label</key>'',
     ''    <string>'' @ LABEL @ ''</string>'',
     ''    <key>ProgramArguments</key>'',
     ''    <array>'',
     ''        <string>'' @ xml_escape binary @ ''</string>'',
     ''        <string>run</string>'',
     ''        <string>--config</string>'',
     ''        <string>'' @ xml_escape config @ ''</string>'',
     ''    </array>'',
     ''    <key>WorkingDirectory</key>'',
     ''    <string>/Library/Application Support/DNSRivet</string>'',
     ''    <key>RunAtLoad</key>'',
     ''    <true/>'',
     ''    <key>KeepAlive</key>'',
     ''    <true/>'',
     ''    <key>StandardOutPath</key>'',
     ''    <string>/var/log/dnsrivet.log</string>'',
     ''    <key>StandardErrorPath</key>'',
     ''    <string>/var/log/dnsrivet.log</string>'',
     ''</dict>'',
     ''</plist>'']"

definition render_plist :: "string \<Rightarrow> string \<Rightarrow> string" where
  "render_plist binary config = concat (map (\<lambda>l. l @ [CHR 0x0A]) (plist_lines binary config))"

definition is_absolute :: "string \<Rightarrow> bool" where
  "is_absolute p \<longleftrightarrow> starts_with p ''/''"

text \<open>The temporary file is checked by plutil before it is published.\<close>

definition plist_contents :: "'o control \<Rightarrow> string \<Rightarrow> string \<Rightarrow> ('o, unit) io" where
  "plist_contents c plist temporary =
     io_bind (write_text (ct_fs c) plist temporary) (\<lambda>_.
     io_bind (run_program (ct_host c) ''/usr/bin/plutil'' [''-lint'', ''--'', temporary]) (\<lambda>out.
       if \<not> out_success out then io_fail (CommandFailed ''invalid generated launchd plist'' (trim (out_stderr out)))
       else io_return ()))"

definition write_plist :: "'o control \<Rightarrow> string \<Rightarrow> string \<Rightarrow> ('o, unit) io" where
  "write_plist c binary config =
     (if \<not> is_absolute binary \<or> \<not> is_absolute config
      then io_fail (Refused ''launchd binary and config paths must be absolute'')
      else atomic_write (ct_fs c) PLIST_PATH 420 (plist_contents c (render_plist binary config)))"

definition remove_plist :: "'o control \<Rightarrow> ('o, unit) io" where
  "remove_plist c = remove_if_present (ct_host c) PLIST_PATH"

definition is_installed :: "'o control \<Rightarrow> 'o \<Rightarrow> bool" where
  "is_installed c os = h_is_file (ct_host c) PLIST_PATH os"

section \<open>launchctl\<close>

definition checked :: "string \<Rightarrow> string + cmd_output \<Rightarrow> os_error + unit" where
  "checked action output =
     (case output of
        Inl e \<Rightarrow> Inl (RunFailed action e)
      | Inr out \<Rightarrow>
          if out_success out then Inr ()
          else Inl (CommandFailed action (trim (if out_stderr out = [] then out_stdout out else out_stderr out))))"

definition launchctl :: "'o control \<Rightarrow> string \<Rightarrow> string list \<Rightarrow> ('o, unit) io" where
  "launchctl c action args = (\<lambda>os. case h_run (ct_host c) LAUNCHCTL args os of (output, os) \<Rightarrow> (checked action output, os))"

definition service_target :: string where "service_target = ''system/'' @ LABEL"

definition launchd_bootstrap :: "'o control \<Rightarrow> ('o, unit) io" where
  "launchd_bootstrap c = launchctl c ''bootstrap launchd service'' [''bootstrap'', ''system'', PLIST_PATH]"

definition set_enabled :: "'o control \<Rightarrow> bool \<Rightarrow> ('o, unit) io" where
  "set_enabled c enabled =
     launchctl c (if enabled then ''enable launchd service'' else ''disable launchd service'')
       [if enabled then ''enable'' else ''disable'', service_target]"

definition loaded_from_output :: "string + cmd_output \<Rightarrow> os_error + bool" where
  "loaded_from_output output =
     (case output of Inl e \<Rightarrow> Inl (RunFailed ''query launchd service'' e) | Inr out \<Rightarrow> Inr (out_success out))"

definition is_loaded :: "'o control \<Rightarrow> ('o, bool) io" where
  "is_loaded c = (\<lambda>os. case h_run (ct_host c) LAUNCHCTL [''print'', service_target] os of
     (output, os) \<Rightarrow> (loaded_from_output output, os))"

definition bootout :: "'o control \<Rightarrow> ('o, bool) io" where
  "bootout c =
     io_bind (is_loaded c) (\<lambda>loaded.
       if \<not> loaded then io_return False
       else io_bind (launchctl c ''stop launchd service'' [''bootout'', service_target]) (\<lambda>_. io_return True))"

definition launchd_restart :: "'o control \<Rightarrow> ('o, unit) io" where
  "launchd_restart c = launchctl c ''restart launchd service'' [''kickstart'', ''-k'', service_target]"

end
