(* ===== verification/Service.thy ===== *)
theory Service
  imports Launchd
begin

text \<open>
  The commands that manage the system service, \<open>src/src/service/mod.rs\<close>: start, stop, restart,
  status and uninstall over the launchd job and the takeover, with the files they install.  The
  two loops that wait have fuel; the lemmas on the clock show it suffices.
\<close>

definition SUPPORT_DIR :: string where "SUPPORT_DIR = ''/Library/Application Support/DNSRivet''"
definition CONFIG_PATH :: string where "CONFIG_PATH = ''/Library/Application Support/DNSRivet/config.toml''"
definition BINARY_PATH :: string where "BINARY_PATH = ''/Library/Application Support/DNSRivet/dnsrivet''"
definition COMMAND_PATH :: string where "COMMAND_PATH = ''/usr/local/bin/dnsrivet''"
definition LIFECYCLE_LOCK_PATH :: string where
  "LIFECYCLE_LOCK_PATH = ''/Library/Application Support/DNSRivet/.lifecycle.lock''"

text \<open>An error with what was being done.\<close>

definition io_context :: "string \<Rightarrow> ('o, 'a) io \<Rightarrow> ('o, 'a) io" where
  "io_context action m = (\<lambda>os. case m os of (Inl e, os) \<Rightarrow> (Inl (Context action e), os) | (Inr x, os) \<Rightarrow> (Inr x, os))"

definition io_pause :: "'o control \<Rightarrow> nat \<Rightarrow> ('o, unit) io" where
  "io_pause c nanos = (\<lambda>os. (Inr (), ct_sleep c nanos os))"

section \<open>Files of the service\<close>

definition require_root :: "'o control \<Rightarrow> ('o, unit) io" where
  "require_root c = (\<lambda>os. if ct_root c os then (Inr (), os) else (Inl (Refused ''rerun it with sudo''), os))"

definition config_of_text :: "'o control \<Rightarrow> string \<Rightarrow> os_error + loaded" where
  "config_of_text c text = map_sum (\<lambda>e. Refused ''invalid config'') id (load_text (ct_toml c) text)"

definition config_load :: "'o control \<Rightarrow> string \<Rightarrow> ('o, loaded) io" where
  "config_load c path = io_bind (read_file (ct_host c) path) (\<lambda>text. io_of (config_of_text c text))"

definition read_bytes :: "'o control \<Rightarrow> string \<Rightarrow> ('o, string) io" where
  "read_bytes c path = (\<lambda>os. (map_sum (IoError path) id (ct_read c path os), os))"

definition checked_config :: "'o control \<Rightarrow> string \<Rightarrow> ('o, unit) io" where
  "checked_config c text =
     (if \<not> ct_utf8 c text then io_fail (NonUtf8 ''config'')
      else io_bind (io_of (config_of_text c text)) (\<lambda>_. io_return ()))"

definition config_bytes :: "'o control \<Rightarrow> string option \<Rightarrow> string option \<Rightarrow> ('o, string option) io" where
  "config_bytes c explicit generated =
     (case (explicit, generated) of
        (Some _, Some _) \<Rightarrow> io_fail (Refused ''config path and generated config cannot be combined'')
      | (Some path, None) \<Rightarrow>
          io_bind (io_check (h_is_file (ct_host c) path)) (\<lambda>file.
            if \<not> file then io_fail (Refused ''config file not found'')
            else io_bind (read_bytes c path) (\<lambda>text.
                 io_bind (io_context path (checked_config c text)) (\<lambda>_. io_return (Some text))))
      | (None, Some text) \<Rightarrow> io_bind (io_of (config_of_text c text)) (\<lambda>_. io_return (Some text))
      | (None, None) \<Rightarrow> io_return None)"

definition make_dir :: "'o control \<Rightarrow> string \<Rightarrow> ('o, unit) io" where
  "make_dir c dir = io_step dir (ct_mkdir c dir)"

definition write_config :: "'o control \<Rightarrow> string \<Rightarrow> string \<Rightarrow> ('o, unit) io" where
  "write_config c path text =
     io_bind (make_dir c SUPPORT_DIR) (\<lambda>_.
       io_context ''install config'' (atomic_write (ct_fs c) path 384 (write_text (ct_fs c) text)))"

definition install_config :: "'o control \<Rightarrow> string option \<Rightarrow> string option \<Rightarrow> ('o, string) io" where
  "install_config c explicit generated =
     io_bind (config_bytes c explicit generated) (\<lambda>given.
     io_bind (case given of
         Some text \<Rightarrow> write_config c CONFIG_PATH text
       | None \<Rightarrow>
           io_bind (io_check (h_is_file (ct_host c) CONFIG_PATH)) (\<lambda>installed.
             if installed then io_return ()
             else io_bind (io_check (h_is_file (ct_host c) ''dnsrivet.toml'')) (\<lambda>local.
               if local then
                 io_bind (read_bytes c ''dnsrivet.toml'') (\<lambda>text.
                 io_bind (checked_config c text) (\<lambda>_. write_config c CONFIG_PATH text))
               else io_fail (Refused ''no config found'')))) (\<lambda>_.
       io_return CONFIG_PATH))"

definition install_binary_at :: "'o control \<Rightarrow> string \<Rightarrow> string \<Rightarrow> ('o, unit) io" where
  "install_binary_at c src destination =
     io_bind (io_check (ct_open c src)) (\<lambda>failed.
       case failed of
         Some e \<Rightarrow> io_fail (IoError src e)
       | None \<Rightarrow> io_context ''install executable''
           (atomic_write (ct_fs c) destination 493 (\<lambda>temporary. io_step temporary (ct_copy c src temporary))))"

definition install_binary :: "'o control \<Rightarrow> string \<Rightarrow> ('o, string) io" where
  "install_binary c src =
     io_bind (make_dir c SUPPORT_DIR) (\<lambda>_.
     io_bind (install_binary_at c src BINARY_PATH) (\<lambda>_. io_return BINARY_PATH))"

definition current_binary :: "'o control \<Rightarrow> ('o, string) io" where
  "current_binary c = (\<lambda>os. (map_sum (IoError ''resolve current executable'') id (ct_current_exe c os), os))"

definition refresh_installed_binary :: "'o control \<Rightarrow> ('o, unit) io" where
  "refresh_installed_binary c =
     io_bind (current_binary c) (\<lambda>current.
     io_bind (io_check (\<lambda>os. case ct_canonicalize c BINARY_PATH os of Some p \<Rightarrow> p | None \<Rightarrow> BINARY_PATH)) (\<lambda>installed.
       if current \<noteq> installed then io_bind (install_binary c current) (\<lambda>_. io_return ())
       else io_return ()))"

section \<open>The command link\<close>

definition paths_resolve_to_same_file :: "'o control \<Rightarrow> string \<Rightarrow> string \<Rightarrow> 'o \<Rightarrow> bool" where
  "paths_resolve_to_same_file c left right os =
     (case (ct_canonicalize c left os, ct_canonicalize c right os) of
        (Some l, Some r) \<Rightarrow> l = r | _ \<Rightarrow> False)"

text \<open>Whether the link at \<open>command\<close> may be written: \<open>False\<close> is one that belongs to the invoking binary.\<close>

definition command_free :: "'o control \<Rightarrow> string \<Rightarrow> string \<Rightarrow> string \<Rightarrow> ('o, bool) io" where
  "command_free c command binary invoking =
     io_bind (io_check (ct_inspect c command)) (\<lambda>kind.
     io_bind (io_check (paths_resolve_to_same_file c command invoking)) (\<lambda>same.
       case kind of
         Symlink (Inl e) \<Rightarrow> io_fail (IoError ''read command link'' e)
       | Symlink (Inr target) \<Rightarrow>
           if target = binary then io_return True
           else if same then io_return False
           else io_fail (Refused ''refusing to replace command link'')
       | NotALink \<Rightarrow>
           if same then io_return False
           else io_fail (Refused ''refusing to replace existing command path'')
       | Missing \<Rightarrow> io_return True
       | Uninspectable e \<Rightarrow> io_fail (IoError ''inspect command path'' e)))"

definition install_command_at :: "'o control \<Rightarrow> string \<Rightarrow> string \<Rightarrow> string \<Rightarrow> ('o, unit) io" where
  "install_command_at c command binary invoking =
     (case path_parent command of
        None \<Rightarrow> io_fail (Refused ''command path has no parent'')
      | Some dir \<Rightarrow>
          io_bind (make_dir c dir) (\<lambda>_.
          io_bind (command_free c command binary invoking) (\<lambda>free.
            if \<not> free then io_return ()
            else
          io_bind (io_check (fs_pid (ct_fs c))) (\<lambda>pid.
            let temporary = path_join dir (''.dnsrivet-link-'' @ show_nat pid @ ''.tmp'') in
          io_bind (remove_if_present (ct_host c) temporary) (\<lambda>_.
          io_bind (io_step temporary (ct_symlink c binary temporary)) (\<lambda>_.
            io_step command (fs_rename (ct_fs c) temporary command)))))))"

definition install_command :: "'o control \<Rightarrow> string \<Rightarrow> string \<Rightarrow> ('o, unit) io" where
  "install_command c binary invoking = install_command_at c COMMAND_PATH binary invoking"

text \<open>Only a link that still points to the binary is removed.\<close>

definition remove_command_at :: "'o control \<Rightarrow> string \<Rightarrow> string \<Rightarrow> ('o, unit) io" where
  "remove_command_at c command binary =
     io_bind (io_check (ct_inspect c command)) (\<lambda>kind.
       case kind of
         Symlink (Inl e) \<Rightarrow> io_fail (IoError ''read command link'' e)
       | Symlink (Inr target) \<Rightarrow>
           if target = binary then remove_file (ct_host c) command else io_return ()
       | NotALink \<Rightarrow> io_return ()
       | Missing \<Rightarrow> io_return ()
       | Uninspectable e \<Rightarrow> io_fail (IoError ''inspect command path'' e))"

definition remove_command :: "'o control \<Rightarrow> ('o, unit) io" where
  "remove_command c = remove_command_at c COMMAND_PATH BINARY_PATH"

definition remove_installed_binary :: "'o control \<Rightarrow> ('o, unit) io" where
  "remove_installed_binary c = remove_if_present (ct_host c) BINARY_PATH"

section \<open>Probing the listener\<close>

definition takeover_address :: "socket_addr list \<Rightarrow> os_error + ip_addr" where
  "takeover_address listeners =
     (case find (\<lambda>a. sock_port a = 53 \<and> is_loopback (sock_ip a) \<and> is_ipv4 a) listeners of
        Some a \<Rightarrow> Inr (sock_ip a)
      | None \<Rightarrow>
          (case find (\<lambda>a. sock_port a = 53 \<and> is_loopback (sock_ip a)) listeners of
             Some a \<Rightarrow> Inr (sock_ip a)
           | None \<Rightarrow> Inl (Refused ''service mode requires a loopback listener on port 53'')))"

fun bind_listeners :: "'o control \<Rightarrow> socket_addr list \<Rightarrow> ('o, unit) io" where
  "bind_listeners c [] = io_return ()"
| "bind_listeners c (a # rest) =
     io_bind (io_step ''UDP listener is unavailable'' (ct_bind_udp c a)) (\<lambda>_.
     io_bind (io_step ''TCP listener is unavailable'' (ct_bind_tcp c a)) (\<lambda>_. bind_listeners c rest))"

text \<open>The sockets bound by \<open>bind_listeners\<close> are open while \<open>body\<close> runs.\<close>

definition preflight_listeners :: "'o control \<Rightarrow> socket_addr list \<Rightarrow> ('o, 'a) io \<Rightarrow> ('o, 'a) io" where
  "preflight_listeners c listeners body = (\<lambda>os.
     case io_bind (bind_listeners c listeners) (\<lambda>_. body) os of (r, os) \<Rightarrow> (r, ct_unbind c os))"

definition installed_probe_address :: "'o control \<Rightarrow> ('o, socket_addr) io" where
  "installed_probe_address c =
     io_bind (io_context CONFIG_PATH (config_load c CONFIG_PATH)) (\<lambda>loaded.
     io_bind (io_of (takeover_address (cf_listeners (ld_config loaded)))) (\<lambda>ip.
       io_return (sock_new ip 53)))"

definition probe_query :: "u16 \<Rightarrow> bytes" where
  "probe_query ident =
     [ucast (drop_bit 8 ident), ucast ident, 1, 0, 0, 1, 0, 0, 0, 0, 0, 0,
      7, 101, 120, 97, 109, 112, 108, 101, 3, 99, 111, 109, 0, 0, 1, 0, 1]"

definition probe_accepts :: "u16 \<Rightarrow> bytes \<Rightarrow> bool" where
  "probe_accepts ident response \<longleftrightarrow>
     12 \<le> length response \<and> take 2 response = [ucast (drop_bit 8 ident), ucast ident]
     \<and> response ! 2 AND 0x80 \<noteq> 0 \<and> response ! 3 AND 0x0F = 0
     \<and> pair16 (response ! 6) (response ! 7) \<noteq> 0"

definition dns_probe :: "'o control \<Rightarrow> socket_addr \<Rightarrow> nat \<Rightarrow> ('o, unit) io" where
  "dns_probe c a timeout = (\<lambda>os.
     let local = (if is_ipv4 a then SocketV4 (IP4 0 0 0 0) 0 else SocketV6 (IP6 0 0 0 0 0 0 0 0) 0 0);
         ident = word_of_nat (ct_nanos c os mod second) in
     case ct_send c local a timeout (probe_query ident) os of
       (Inl e, os) \<Rightarrow> (Inl (IoError ''DNS probe'' e), os)
     | (Inr response, os) \<Rightarrow>
         (if probe_accepts ident (take 4096 response) then Inr ()
          else Inl (Refused ''invalid DNS probe response''), os))"

text \<open>The waits give up at their deadline; 200 and 500 milliseconds pass between the attempts.\<close>

fun dns_wait :: "nat \<Rightarrow> 'o control \<Rightarrow> socket_addr \<Rightarrow> nat \<Rightarrow> os_error \<Rightarrow> ('o, unit) io" where
  "dns_wait 0 c a deadline last_error = io_fail OutOfFuel"
| "dns_wait (Suc fuel) c a deadline last_error =
     io_bind (io_check (ct_now c)) (\<lambda>now.
       if deadline \<le> now then io_fail last_error
       else io_bind (io_try (dns_probe c a second)) (\<lambda>r.
         case r of
           Inr _ \<Rightarrow> io_return ()
         | Inl e \<Rightarrow> io_bind (io_pause c (second div 5)) (\<lambda>_. dns_wait fuel c a deadline e)))"

definition wait_for_dns :: "'o control \<Rightarrow> socket_addr \<Rightarrow> nat \<Rightarrow> ('o, unit) io" where
  "wait_for_dns c a timeout =
     io_bind (io_check (ct_now c)) (\<lambda>now.
       dns_wait (timeout div (second div 5) + 2) c a (now + timeout) (Refused ''no response''))"

fun reassertion_wait :: "nat \<Rightarrow> 'o control \<Rightarrow> ip_addr \<Rightarrow> nat \<Rightarrow> ('o, bool) io" where
  "reassertion_wait 0 c server deadline = io_fail OutOfFuel"
| "reassertion_wait (Suc fuel) c server deadline =
     io_bind (io_try (takeover_intact (ct_dns c) server)) (\<lambda>r.
       if r = Inr True then io_return True
       else io_bind (io_check (ct_now c)) (\<lambda>now.
         if deadline \<le> now then io_return False
         else io_bind (io_pause c (second div 2)) (\<lambda>_. reassertion_wait fuel c server deadline)))"

definition wait_for_reassertion :: "'o control \<Rightarrow> ip_addr \<Rightarrow> nat \<Rightarrow> ('o, bool) io" where
  "wait_for_reassertion c server timeout =
     io_bind (io_check (ct_now c)) (\<lambda>now.
       reassertion_wait (timeout div (second div 2) + 2) c server (now + timeout))"

section \<open>Starting and stopping\<close>

definition cleanup_failed_start :: "os_error \<Rightarrow> ('o, bool) io \<Rightarrow> ('o, unit) io \<Rightarrow> ('o, os_error) io" where
  "cleanup_failed_start failure stop remove =
     io_bind (io_try stop) (\<lambda>stopped.
       case stopped of
         Inl e \<Rightarrow> io_return (Context ''could not stop service; the launchd plist was retained'' (Several [failure, e]))
       | Inr was_loaded \<Rightarrow>
           let failure = Context (if was_loaded then ''service was stopped'' else ''service was not loaded'') failure in
           io_bind (io_try remove) (\<lambda>removed.
             case removed of
               Inr _ \<Rightarrow> io_return failure
             | Inl e \<Rightarrow> io_return (Context ''could not remove launchd plist'' (Several [failure, e]))))"

definition give_up_start :: "'o control \<Rightarrow> os_error \<Rightarrow> ('o, 'a) io" where
  "give_up_start c failure =
     io_bind (cleanup_failed_start failure (bootout c) (remove_plist c)) io_fail"

text \<open>From the installed configuration to the written property list, under the listening sockets.\<close>

definition install_service :: "'o control \<Rightarrow> string \<Rightarrow> socket_addr list \<Rightarrow> ('o, unit) io" where
  "install_service c installed_config listeners =
     preflight_listeners c listeners
       (io_bind (current_binary c) (\<lambda>current.
        io_bind (install_binary c current) (\<lambda>binary.
        io_bind (install_command c binary current) (\<lambda>_. write_plist c binary installed_config))))"

definition take_dns :: "'o control \<Rightarrow> ip_addr \<Rightarrow> ('o, ip_addr) io" where
  "take_dns c ip =
     io_bind (io_try (take_over (ct_dns c) ip)) (\<lambda>taken.
       case taken of
         Inl e \<Rightarrow>
           io_bind (io_check (backup_exists (ct_dns c))) (\<lambda>backup.
             if backup then io_fail (Context ''DNS takeover failed and rollback was incomplete'' e)
             else give_up_start c (Context ''DNS takeover failed'' e))
       | Inr _ \<Rightarrow> io_return ip)"

definition launch :: "'o control \<Rightarrow> ip_addr \<Rightarrow> ('o, ip_addr) io" where
  "launch c ip =
     io_bind (set_enabled c True) (\<lambda>_.
     io_bind (io_try (launchd_bootstrap c)) (\<lambda>booted.
       case booted of
         Inl e \<Rightarrow> io_bind (io_try (remove_plist c)) (\<lambda>_. io_fail e)
       | Inr _ \<Rightarrow>
     io_bind (io_try (wait_for_dns c (sock_new ip 53) (15 * second))) (\<lambda>probed.
       case probed of
         Inl e \<Rightarrow> give_up_start c (Context ''service started but failed its DNS probe'' e)
       | Inr _ \<Rightarrow>
       take_dns c ip)))"

definition start :: "'o control \<Rightarrow> string option \<Rightarrow> string option \<Rightarrow> ('o, ip_addr) io" where
  "start c config_path generated_config =
     io_bind (require_root c) (\<lambda>_.
     io_bind (acquire_lock (ct_host c) LIFECYCLE_LOCK_PATH) (\<lambda>_.
     io_bind (is_loaded c) (\<lambda>already.
       if already then io_fail (Refused ''service is already loaded'')
       else
     io_bind (io_check (takeover_state (ct_dns c))) (\<lambda>state.
       if state = Corrupted then io_fail (Refused ''state corrupted'')
       else if state \<noteq> NotTakenOver then io_fail (Refused ''a previous DNS backup is still present'')
       else
     io_bind (install_config c config_path generated_config) (\<lambda>installed_config.
     io_bind (io_context installed_config (config_load c installed_config)) (\<lambda>loaded.
     io_bind (io_of (takeover_address (cf_listeners (ld_config loaded)))) (\<lambda>ip.
     io_bind (install_service c installed_config (cf_listeners (ld_config loaded))) (\<lambda>_.
       launch c ip))))))))"

text \<open>Release first: a service that DNS still depends on is never stopped.  The result is whether DNS
  was restored and whether the service was running.\<close>

definition stop :: "'o control \<Rightarrow> ('o, bool \<times> bool) io" where
  "stop c =
     io_bind (require_root c) (\<lambda>_.
     io_bind (acquire_lock (ct_host c) LIFECYCLE_LOCK_PATH) (\<lambda>_.
     io_bind (release (ct_dns c)) (\<lambda>restored.
     io_bind (io_check (is_installed c)) (\<lambda>installed.
     io_bind (if installed then io_return True else is_loaded c) (\<lambda>managed.
     io_bind (if managed then set_enabled c False else io_return ()) (\<lambda>_.
     io_bind (bootout c) (\<lambda>stopped. io_return (restored, stopped))))))))"

definition uninstall :: "'o control \<Rightarrow> ('o, bool \<times> bool) io" where
  "uninstall c =
     io_bind (require_root c) (\<lambda>_.
     io_bind (acquire_lock (ct_host c) LIFECYCLE_LOCK_PATH) (\<lambda>_.
     io_bind (release (ct_dns c)) (\<lambda>restored.
     io_bind (io_check (is_installed c)) (\<lambda>installed.
     io_bind (if installed then io_return True else is_loaded c) (\<lambda>managed.
     io_bind (if managed then set_enabled c False else io_return ()) (\<lambda>_.
     io_bind (bootout c) (\<lambda>stopped.
     io_bind (remove_plist c) (\<lambda>_.
     io_bind (remove_command c) (\<lambda>_.
     io_bind (remove_installed_binary c) (\<lambda>_.
     io_bind (if managed then set_enabled c True else io_return ()) (\<lambda>_.
       io_return (restored, stopped))))))))))))"

section \<open>Restarting\<close>

datatype restart_outcome = Replaced | Verified | NotVerified | Restarted | Inconsistent

definition restart_config_transaction ::
  "string \<Rightarrow> string \<Rightarrow> (string \<Rightarrow> ('o, unit) io) \<Rightarrow> ('o, unit) io \<Rightarrow> ('o, unit) io \<Rightarrow> ('o, unit) io"
where
  "restart_config_transaction previous replacement install reload verify =
     io_bind (install replacement) (\<lambda>_.
     io_bind (io_try (io_bind reload (\<lambda>_. verify))) (\<lambda>result.
       case result of
         Inr _ \<Rightarrow> io_return ()
       | Inl e \<Rightarrow>
           io_bind (install previous) (\<lambda>_.
           io_bind (io_try (io_bind reload (\<lambda>_. verify))) (\<lambda>rollback.
             case rollback of
               Inr _ \<Rightarrow> io_fail (Context ''previous configuration restored and restarted'' e)
             | Inl rollback_error \<Rightarrow>
                 io_fail (Context ''previous configuration was restored but its restart failed''
                   (Several [e, rollback_error]))))))"

definition restart_with_config :: "'o control \<Rightarrow> string \<Rightarrow> ('o, unit) io" where
  "restart_with_config c replacement =
     io_bind (read_bytes c CONFIG_PATH) (\<lambda>previous.
     io_bind (io_check (takeover_state (ct_dns c))) (\<lambda>state.
       if state \<noteq> Active \<and> state \<noteq> NotTakenOver then io_fail (Refused ''takeover state is inconsistent'')
       else restart_config_transaction previous replacement
         (write_config c CONFIG_PATH)
         (io_bind (launchd_restart c) (\<lambda>_.
          io_bind (installed_probe_address c) (\<lambda>a. wait_for_dns c a (15 * second))))
         (if state = Active then
            io_bind (installed_probe_address c) (\<lambda>a.
            io_bind (wait_for_reassertion c (sock_ip a) (15 * second)) (\<lambda>verified.
              if verified then io_return () else io_fail (Refused ''system DNS takeover was not verified'')))
          else io_return ())))"

definition restart :: "'o control \<Rightarrow> string option \<Rightarrow> string option \<Rightarrow> ('o, restart_outcome) io" where
  "restart c config_path generated_config =
     io_bind (require_root c) (\<lambda>_.
     io_bind (acquire_lock (ct_host c) LIFECYCLE_LOCK_PATH) (\<lambda>_.
     io_bind (is_loaded c) (\<lambda>is_loaded.
       if \<not> is_loaded then io_fail (Refused ''service is not loaded'')
       else
     io_bind (refresh_installed_binary c) (\<lambda>_.
       if config_path \<noteq> None \<or> generated_config \<noteq> None then
         io_bind (config_bytes c config_path generated_config) (\<lambda>replacement.
         io_bind (restart_with_config c (the replacement)) (\<lambda>_. io_return Replaced))
       else
     io_bind (launchd_restart c) (\<lambda>_.
     io_bind (installed_probe_address c) (\<lambda>a.
     io_bind (wait_for_dns c a (15 * second)) (\<lambda>_.
     io_bind (io_check (takeover_state (ct_dns c))) (\<lambda>state.
       if state = Active then
         io_bind (wait_for_reassertion c (sock_ip a) (15 * second)) (\<lambda>verified.
           io_return (if verified then Verified else NotVerified))
       else io_return (if state = NotTakenOver then Restarted else Inconsistent)))))))))"

section \<open>Status\<close>

datatype takeover_line =
  TakeoverNotActive | TakeoverIndeterminate | TakeoverCorrupted
| TakeoverActive | TakeoverDrifted | TakeoverUnverified os_error | TakeoverArmed

datatype status_report =
  InstalledButStopped | NotInstalled | ProbeUnavailable os_error
| ProbeHealthy socket_addr | ProbeFailed "(socket_addr \<times> os_error) list"

definition takeover_status_line :: "'o control \<Rightarrow> ('o, takeover_line) io" where
  "takeover_status_line c =
     io_bind (io_check (takeover_state (ct_dns c))) (\<lambda>state.
       case state of
         NotTakenOver \<Rightarrow> io_return TakeoverNotActive
       | Indeterminate \<Rightarrow> io_return TakeoverIndeterminate
       | Corrupted \<Rightarrow> io_return TakeoverCorrupted
       | Active \<Rightarrow>
           io_bind (io_try (installed_probe_address c)) (\<lambda>probe.
             case probe of
               Inl _ \<Rightarrow> io_return TakeoverArmed
             | Inr a \<Rightarrow>
                 io_bind (io_try (takeover_intact (ct_dns c) (sock_ip a))) (\<lambda>intact.
                   case intact of
                     Inr ok \<Rightarrow> io_return (if ok then TakeoverActive else TakeoverDrifted)
                   | Inl e \<Rightarrow> io_return (TakeoverUnverified e))))"

fun probe_each :: "'o control \<Rightarrow> socket_addr list \<Rightarrow> (socket_addr \<times> os_error) list \<Rightarrow> ('o, status_report) io" where
  "probe_each c [] failures = io_return (ProbeFailed failures)"
| "probe_each c (a # rest) failures =
     io_bind (io_try (wait_for_dns c a (2 * second))) (\<lambda>r.
       case r of
         Inr _ \<Rightarrow> io_return (ProbeHealthy a)
       | Inl e \<Rightarrow> probe_each c rest (failures @ [(a, e)]))"

definition status :: "'o control \<Rightarrow> ('o, status_report \<times> takeover_line) io" where
  "status c =
     io_bind (takeover_status_line c) (\<lambda>line.
     io_bind (is_loaded c) (\<lambda>is_loaded.
       if \<not> is_loaded then
         io_bind (io_check (is_installed c)) (\<lambda>installed.
           io_return (if installed then InstalledButStopped else NotInstalled, line))
       else
     io_bind (io_try (installed_probe_address c)) (\<lambda>probe.
     io_bind (case probe of Inr a \<Rightarrow> io_return [a] | Inl _ \<Rightarrow> current_loopback_dns (ct_dns c)) (\<lambda>addresses.
       case (probe, addresses) of
         (Inl config_error, []) \<Rightarrow> io_return (ProbeUnavailable config_error, line)
       | _ \<Rightarrow> io_bind (probe_each c addresses []) (\<lambda>report. io_return (report, line))))))"

end
