(* ===== verification/Takeover_Keeps.thy ===== *)
theory Takeover_Keeps
  imports Takeover
begin

text \<open>
  What every call of the host but a few programs keeps, the takeover's transactions keep.  Later
  theories use it for what runs beside DNS: the clock and the running service.
\<close>

locale host_invariant =
  fixes d :: "'o dns_host" and I :: "'o \<Rightarrow> bool" and foreign :: "string set"
  assumes tools: "NETWORKSETUP \<notin> foreign" "SCUTIL \<notin> foreign" "''/usr/bin/dscacheutil'' \<notin> foreign"
      "''/usr/bin/killall'' \<notin> foreign"
    and run: "program \<notin> foreign \<Longrightarrow> I os \<Longrightarrow> I (snd (h_run (dh_host d) program args os))"
    and install: "I os \<Longrightarrow> I (snd (h_install (dh_host d) p t os))"
    and remove: "I os \<Longrightarrow> I (snd (h_remove (dh_host d) p os))"
    and touch: "I os \<Longrightarrow> I (snd (h_touch (dh_host d) p os))"
    and lock_file: "I os \<Longrightarrow> I (snd (h_lock (dh_host d) p os))"
begin

abbreviation keeps :: "('o, 'a) io \<Rightarrow> bool" where
  "keeps \<equiv> io_keeps I"

lemma keepsI: "(\<And>os. I os \<Longrightarrow> I (snd (m os))) \<Longrightarrow> keeps m"
  unfolding io_keeps_def by (metis snd_conv)

lemma keeps_run: "program \<notin> foreign \<Longrightarrow> keeps (run_program (dh_host d) program args)"
proof (rule keepsI)
  fix os
  assume "program \<notin> foreign" "I os"
  then have "I (snd (h_run (dh_host d) program args os))" by (rule run)
  then show "I (snd (run_program (dh_host d) program args os))"
    by (auto simp: run_program_def split: prod.splits sum.splits)
qed

lemma keeps_read [simp]: "keeps (read_file (dh_host d) p)"
  by (rule keepsI) (simp add: read_file_def)

lemma keeps_remove [simp]: "keeps (remove_file (dh_host d) p)"
  by (rule keepsI, drule remove [of _ p]) (auto simp: remove_file_def split: prod.splits option.splits remove_error.splits)

lemma keeps_remove_if_present [simp]: "keeps (remove_if_present (dh_host d) p)"
  by (rule keepsI, drule remove [of _ p]) (auto simp: remove_if_present_def split: prod.splits option.splits remove_error.splits)

lemma keeps_touch [simp]: "keeps (touch_file (dh_host d) p)"
  by (rule keepsI, drule touch [of _ p]) (auto simp: touch_file_def split: prod.splits option.splits)

lemma keeps_lock [simp]: "keeps (acquire_lock (dh_host d) p)"
  by (rule keepsI, drule lock_file [of _ p]) (auto simp: acquire_lock_def split: prod.splits option.splits)

lemma keeps_install [simp]: "keeps (install_file (dh_host d) p t)"
  by (rule keepsI, drule install [of _ p t]) (auto simp: install_file_def split: prod.splits option.splits)

lemma keeps_tools [simp]:
  "keeps (run_program (dh_host d) NETWORKSETUP args)" "keeps (run_program (dh_host d) SCUTIL args)"
  "keeps (run_program (dh_host d) ''/usr/bin/dscacheutil'' args)" "keeps (run_program (dh_host d) ''/usr/bin/killall'' args)"
  using tools by (simp_all add: keeps_run)

lemma keeps_lists [simp]: "keeps (list_services d)" "keeps (list_all_services d)"
  unfolding list_services_def list_all_services_def by (auto intro!: io_keeps_bind)

lemma keeps_get [simp]: "keeps (get_dns_servers d s)"
  unfolding get_dns_servers_def by (auto intro!: io_keeps_bind split: option.split)

lemma keeps_set [simp]: "keeps (set_dns_servers d s servers)"
  unfolding set_dns_servers_def by (auto intro!: io_keeps_bind)

lemma keeps_flush [simp]: "keeps (flush_caches d)"
  unfolding flush_caches_def by (auto intro!: io_keeps_bind)

lemma keeps_effective [simp]: "keeps (effective_dns_servers d)"
  unfolding effective_dns_servers_def by (auto intro!: io_keeps_bind)

lemma keeps_state [simp]: "keeps (lock d)" "keeps (create_marker d)" "keeps (remove_marker d)" "keeps (read_backup d)"
  "keeps (write_backup d b)"
  unfolding lock_def create_marker_def remove_marker_def read_backup_def write_backup_def
  by (auto intro!: io_keeps_bind)

section \<open>Transactions\<close>

lemma keeps_take_over [simp]: "keeps (take_over d server)"
proof -
  have s: "keeps (snapshot_services d server names fallback services)" for names fallback services
    by (induction names arbitrary: fallback services) (auto intro!: io_keeps_bind simp: Let_def)
  have l: "keeps (rollback_loop d b names ok)" for b names ok
    by (induction names arbitrary: ok) (auto intro!: io_keeps_bind split: option.split)
  then have r: "keeps (rollback d b changed)" for b changed
    unfolding rollback_def by (auto intro!: io_keeps_bind)
  have w: "keeps (switch_services d server b services changed)" for b services changed
    by (induction services arbitrary: changed) (auto intro!: io_keeps_bind r split: sum.splits)
  show ?thesis
    unfolding take_over_def by (auto intro!: io_keeps_bind s w simp: Let_def)
qed

lemma keeps_restore [simp]: "keeps (restore d)"
proof -
  have r: "keeps (restore_services (set_dns_servers d) current services)" for current services
    by (induction services) (auto intro!: io_keeps_bind)
  have v: "keeps (verify_services ifindex (get_dns_servers d) b names)" for ifindex b names
    by (induction names) (auto intro!: io_keeps_bind)
  show ?thesis
    unfolding restore_def restore_at_def by (auto intro!: io_keeps_bind r v split: sum.splits)
qed

lemma keeps_release [simp]: "keeps (release d)"
proof -
  have a: "keeps (any_loopback_service d names)" for names
    by (induction names) (auto intro!: io_keeps_bind)
  show ?thesis
    unfolding release_def system_points_at_loopback_def current_loopback_dns_def
    by (auto intro!: io_keeps_bind a)
qed

lemma keeps_intact [simp]: "keeps (takeover_intact d server)"
proof -
  have "keeps (takeover_intact_loop ifindex b expected enabled (get_dns_servers d) names ok)"
    for ifindex b expected enabled names ok
    by (induction names arbitrary: ok) (auto intro!: io_keeps_bind)
  then show ?thesis
    unfolding takeover_intact_def takeover_intact_with_def by (auto intro!: io_keeps_bind)
qed

end

end
