(* ===== verification/Service_Control.thy ===== *)
theory Service_Control
  imports Service Takeover_Keeps Dns_Watch
begin

text \<open>
  What the service commands do to a machine.  The locale \<open>service_machine\<close> joins the contracts of
  DNS (theory Dns_Machine) and of files (theory Atomic_File) on one view and adds the launchd job.
\<close>

section \<open>The contract\<close>

definition succeeded :: "string + cmd_output \<Rightarrow> bool" where
  "succeeded r \<longleftrightarrow> (case r of Inr out \<Rightarrow> out_success out | Inl _ \<Rightarrow> False)"

text \<open>DNS settings, network services and the job are the same.\<close>

definition undisturbed :: "('o \<Rightarrow> machine) \<Rightarrow> ('o \<Rightarrow> bool) \<Rightarrow> 'o \<Rightarrow> 'o \<Rightarrow> bool" where
  "undisturbed view running os os' \<longleftrightarrow> mc_dns (view os') = mc_dns (view os)
     \<and> mc_enabled (view os') = mc_enabled (view os) \<and> mc_services (view os') = mc_services (view os)
     \<and> running os' = running os"

text \<open>
  The outcome of a start: DNS points at the running service and the settings of before are recorded;
  or an error, and DNS is as before, or the settings are recorded and the service was left running.
\<close>

definition started ::
  "'o dns_host \<Rightarrow> ('o \<Rightarrow> machine) \<Rightarrow> ('o \<Rightarrow> bool) \<Rightarrow> machine \<Rightarrow> os_error + ip_addr \<Rightarrow> 'o \<Rightarrow> bool"
where
  "started d view running before r os' \<longleftrightarrow>
     (case r of
        Inr server \<Rightarrow> taken_over d view before server os' \<and> running os'
      | Inl e \<Rightarrow> mc_dns (view os') = mc_dns before
          \<or> (\<exists>server. recorded d view before server os' \<and> recoverable d view before server os' \<and> running os'))"

locale service_machine =
  net: dns_machine "ct_dns c" view + files: file_system "ct_fs c" "\<lambda>os. mc_files (view os)"
  for c :: "'o control" and view +
  fixes running :: "'o \<Rightarrow> bool"
  assumes calm_fs:
      "undisturbed view running os (snd (fs_create_new (ct_fs c) p os))"
      "undisturbed view running os (snd (fs_write (ct_fs c) p t os))"
      "undisturbed view running os (snd (fs_chmod (ct_fs c) p mode os))"
      "undisturbed view running os (snd (fs_sync (ct_fs c) p os))"
      "undisturbed view running os (snd (fs_rename (ct_fs c) p q os))"
      "undisturbed view running os (snd (fs_unlink (ct_fs c) p os))"
    and calm_paths:
      "undisturbed view running os (snd (ct_mkdir c p os))"
      "undisturbed view running os (snd (ct_copy c p q os))"
      "undisturbed view running os (snd (ct_symlink c p q os))"
    and calm_sockets:
      "undisturbed view running os (snd (ct_bind_udp c a os))"
      "undisturbed view running os (snd (ct_bind_tcp c a os))"
      "undisturbed view running os (ct_unbind c os)"
      "undisturbed view running os (ct_sleep c n os)"
      "undisturbed view running os (snd (ct_send c a b timeout query os))"
    and dirs_no_files: "mc_files (view (snd (ct_mkdir c p os))) = mc_files (view os)"
    and config_stays:
      "mc_files (view (ct_sleep c n os)) CONFIG_PATH = mc_files (view os) CONFIG_PATH"
      "mc_files (view (snd (ct_send c a b timeout query os))) CONFIG_PATH = mc_files (view os) CONFIG_PATH"
    and read_bytes: "ct_read c p os = Inr t \<Longrightarrow> mc_files (view os) p = Some t"
    and job_files:
      "running (snd (h_install (ct_host c) p t os)) = running os"
      "running (snd (h_remove (ct_host c) p os)) = running os"
      "running (snd (h_touch (ct_host c) p os)) = running os"
      "running (snd (h_lock (ct_host c) p os)) = running os"
    and job_other: "program \<noteq> LAUNCHCTL \<Longrightarrow> running (snd (h_run (ct_host c) program args os)) = running os"
    and job_print: "h_run (ct_host c) LAUNCHCTL [''print'', service_target] os = (r, os') \<Longrightarrow>
        running os' = running os \<and> (\<forall>out. r = Inr out \<longrightarrow> out_success out = running os)"
    and job_bootstrap: "h_run (ct_host c) LAUNCHCTL [''bootstrap'', ''system'', PLIST_PATH] os = (r, os') \<Longrightarrow>
        running os' = (running os \<or> succeeded r)"
    and job_bootout: "h_run (ct_host c) LAUNCHCTL [''bootout'', service_target] os = (r, os') \<Longrightarrow>
        running os' = (running os \<and> \<not> succeeded r)"
    and job_steady: "command \<in> {''enable'', ''disable'', ''kickstart''} \<Longrightarrow>
        running (snd (h_run (ct_host c) LAUNCHCTL (command # args) os)) = running os"
begin

section \<open>Code that leaves DNS and the job alone\<close>

definition calm :: "('o, 'a) io \<Rightarrow> bool" where
  "calm m \<longleftrightarrow> (\<forall>os. undisturbed view running os (snd (m os)))"

lemma undisturbed_refl [simp]: "undisturbed view running os os"
  by (simp add: undisturbed_def)

lemma undisturbed_trans: "undisturbed view running a b \<Longrightarrow> undisturbed view running b e \<Longrightarrow> undisturbed view running a e"
  by (simp add: undisturbed_def)

lemma calmD: "calm m \<Longrightarrow> m os = (r, os') \<Longrightarrow> undisturbed view running os os'"
  unfolding calm_def by (metis snd_conv)

lemma calmI: "(\<And>os r os'. m os = (r, os') \<Longrightarrow> undisturbed view running os os') \<Longrightarrow> calm m"
  unfolding calm_def by (metis prod.collapse)

lemma calm_bind: "calm m \<Longrightarrow> (\<And>x. calm (f x)) \<Longrightarrow> calm (io_bind m f)"
proof (rule calmI)
  fix os r os'
  assume m: "calm m" and f: "\<And>x. calm (f x)" and "io_bind m f os = (r, os')"
  from this(3) show "undisturbed view running os os'"
  proof (cases rule: io_bindE)
    case (error e)
    then show ?thesis using calmD [OF m] by blast
  next
    case (step x os1)
    then show ?thesis using calmD [OF m] calmD [OF f] undisturbed_trans by blast
  qed
qed

lemma calm_simps [simp]: "calm (io_return x)" "calm (io_fail e)" "calm (io_check f)" "calm (io_of r)"
  by (simp_all add: calm_def io_defs io_of_def)

lemma calm_try [simp]: "calm m \<Longrightarrow> calm (io_try m)"
  by (rule calmI) (auto simp: io_try_def dest: calmD split: prod.splits)

lemma calm_context [simp]: "calm m \<Longrightarrow> calm (io_context action m)"
  by (rule calmI) (auto simp: io_context_def dest: calmD split: prod.splits sum.splits)

lemma calm_step [simp]: "(\<And>os. undisturbed view running os (snd (call os))) \<Longrightarrow> calm (io_step action call)"
proof (rule calmI)
  fix os r os'
  assume "\<And>os. undisturbed view running os (snd (call os))" and "io_step action call os = (r, os')"
  then show "undisturbed view running os os'"
    by (cases "call os") (auto simp: io_step_def split: option.splits dest: meta_spec [of _ os])
qed

lemma calm_files [simp]: "calm (write_text (ct_fs c) text p)" "calm (make_dir c p)" "calm (temporary_new (ct_fs c) p)"
proof -
  have "calm (create_temporary (ct_fs c) dir pid nonce attempts)" for dir pid nonce attempts
  proof (induction attempts)
    case (Cons a attempts)
    show ?case
    proof (rule calmI)
      fix os r os'
      assume go: "create_temporary (ct_fs c) dir pid nonce (a # attempts) os = (r, os')"
      obtain e os1 where e: "fs_create_new (ct_fs c) (temporary_path dir pid nonce a) os = (e, os1)" by fastforce
      then have u: "undisturbed view running os os1" using calm_fs(1) by (metis snd_conv)
      with go e show "undisturbed view running os os'"
        using calmD [OF Cons.IH, of os1] undisturbed_trans [OF u] by (auto split: option.splits create_error.splits)
    qed
  qed simp
  then show "calm (temporary_new (ct_fs c) p)"
    by (auto simp: temporary_new_def Let_def intro!: calm_bind split: option.split)
qed (simp_all add: write_text_def make_dir_def calm_fs calm_paths)

lemma calm_drop: "calm body \<Longrightarrow> calm (drop_temporary (ct_fs c) p body)"
proof (rule calmI)
  fix os r os'
  assume b: "calm body" and go: "drop_temporary (ct_fs c) p body os = (r, os')"
  obtain q os1 where q: "body os = (q, os1)" by fastforce
  have "os' = snd (fs_unlink (ct_fs c) p os1)" using go q by (simp add: drop_temporary_def)
  then show "undisturbed view running os os'"
    using undisturbed_trans [OF calmD [OF b q] calm_fs(6)] by simp
qed

lemma calm_atomic_write: "(\<And>p. calm (contents p)) \<Longrightarrow> calm (atomic_write (ct_fs c) destination mode contents)"
  unfolding atomic_write_def by (intro calm_bind calm_drop) (simp_all add: calm_fs)

lemma undisturbed_files:
  "view os' = view os \<or> view os' = (view os)\<lparr>mc_files := fs\<rparr> \<Longrightarrow> running os' = running os
     \<Longrightarrow> undisturbed view running os os'"
  by (auto simp: undisturbed_def)

lemma calm_remove [simp]: "calm (remove_if_present (ct_host c) p)" "calm (remove_file (ct_host c) p)"
proof -
  have "undisturbed view running os os'" if "h_remove (ct_host c) p os = (e, os')" for os e os'
    using net.remove [OF that] job_files(2) [of p os] that by (auto simp: undisturbed_def)
  then show "calm (remove_if_present (ct_host c) p)" "calm (remove_file (ct_host c) p)"
    by (auto intro!: calmI simp: remove_if_present_def remove_file_def split: prod.splits option.splits remove_error.splits)
qed

lemma calm_lock [simp]: "calm (acquire_lock (ct_host c) p)"
proof (rule calmI)
  fix os r os'
  assume go: "acquire_lock (ct_host c) p os = (r, os')"
  then obtain e where e: "h_lock (ct_host c) p os = (e, os')"
    by (auto simp: acquire_lock_def split: prod.splits option.splits)
  then show "undisturbed view running os os'"
    using net.lock_file [OF e] job_files(4) [of p os] by (auto simp: undisturbed_def)
qed

lemma calm_read [simp]: "calm (read_file (ct_host c) p)" "calm (read_bytes c p)" "calm (require_root c)" "calm (current_binary c)"
  by (auto simp: calm_def read_file_def read_bytes_def require_root_def current_binary_def)

text \<open>launchctl leaves DNS alone; all but two of its commands leave the job alone too.\<close>

lemma launchctl_view: "h_run (ct_host c) LAUNCHCTL args os = (r, os') \<Longrightarrow> view os' = view os"
  by (rule net.run_other) (simp_all add: LAUNCHCTL_def NETWORKSETUP_def)

lemma launchctl_result: "launchctl c action args os = (r, os') \<Longrightarrow>
    \<exists>out. h_run (ct_host c) LAUNCHCTL args os = (out, os') \<and> (r = Inr () \<longleftrightarrow> succeeded out) \<and> (isl r \<longleftrightarrow> \<not> succeeded out)"
  by (auto simp: launchctl_def checked_def succeeded_def split: prod.splits sum.splits if_splits)

lemma calm_launchctl:
  assumes "command \<in> {''enable'', ''disable'', ''kickstart''}"
  shows "calm (launchctl c action (command # args))"
proof (rule calmI)
  fix os r os'
  assume "launchctl c action (command # args) os = (r, os')"
  then obtain out where "h_run (ct_host c) LAUNCHCTL (command # args) os = (out, os')"
    using launchctl_result by blast
  then show "undisturbed view running os os'"
    using launchctl_view job_steady [OF assms, of args os] by (fastforce simp: undisturbed_def)
qed

lemma calm_job [simp]: "calm (set_enabled c enabled)" "calm (launchd_restart c)"
  by (auto simp: set_enabled_def launchd_restart_def intro: calm_launchctl)

lemma is_loaded_running:
  assumes "is_loaded c os = (r, os')"
  shows "undisturbed view running os os' \<and> (\<forall>ok. r = Inr ok \<longrightarrow> ok = running os)"
proof -
  obtain out where h: "h_run (ct_host c) LAUNCHCTL [''print'', service_target] os = (out, os')" "r = loaded_from_output out"
    using assms by (auto simp: is_loaded_def split: prod.splits)
  then show ?thesis
    using launchctl_view [OF h(1)] job_print [OF h(1)]
    by (auto simp: undisturbed_def loaded_from_output_def split: sum.splits)
qed

lemma calm_is_loaded [simp]: "calm (is_loaded c)"
  using is_loaded_running by (blast intro: calmI)

section \<open>Installing is calm\<close>

lemma calm_plutil [simp]: "calm (run_program (ct_host c) ''/usr/bin/plutil'' args)"
proof (rule calmI)
  fix os r os'
  assume "run_program (ct_host c) ''/usr/bin/plutil'' args os = (r, os')"
  then obtain out where h: "h_run (ct_host c) ''/usr/bin/plutil'' args os = (out, os')"
    by (auto simp: run_program_def split: prod.splits sum.splits)
  have "''/usr/bin/plutil'' \<noteq> NETWORKSETUP" "''/usr/bin/plutil'' \<noteq> LAUNCHCTL"
    by (simp_all add: NETWORKSETUP_def LAUNCHCTL_def)
  then show "undisturbed view running os os'"
    using net.run_other [OF _ h] job_other [of "''/usr/bin/plutil''" args os] h by (simp add: undisturbed_def)
qed

lemma calm_plist [simp]: "calm (write_plist c binary config)" "calm (remove_plist c)"
  by (auto simp: write_plist_def plist_contents_def remove_plist_def intro!: calm_atomic_write calm_bind)

lemma calm_config [simp]: "calm (config_load c p)" "calm (checked_config c text)" "calm (config_bytes c explicit generated)"
  "calm (write_config c p text)"
  by (auto simp: config_load_def checked_config_def config_bytes_def write_config_def
      intro!: calm_bind calm_context calm_atomic_write split: option.split)

lemma calm_install_config [simp]: "calm (install_config c explicit generated)"
  unfolding install_config_def by (auto intro!: calm_bind split: option.split)

lemma calm_binary [simp]: "calm (install_binary c src)" "calm (refresh_installed_binary c)"
  unfolding refresh_installed_binary_def install_binary_def install_binary_at_def
  by (auto intro!: calm_bind calm_context calm_atomic_write calm_step simp: calm_paths split: option.split)

lemma calm_remove_command [simp]: "calm (remove_command c)" "calm (remove_installed_binary c)"
  unfolding remove_command_def remove_command_at_def remove_installed_binary_def
  by (auto intro!: calm_bind split: path_kind.split sum.split)

lemma calm_command_free [simp]: "calm (command_free c command binary invoking)"
  unfolding command_free_def by (auto intro!: calm_bind split: path_kind.split sum.split)

lemma calm_install_command [simp]: "calm (install_command c binary invoking)"
proof -
  have link: "calm (io_bind (remove_if_present (ct_host c) t) (\<lambda>_.
      io_bind (io_step t (ct_symlink c binary t)) (\<lambda>_. io_step command (fs_rename (ct_fs c) t command))))"
    for t command
    by (intro calm_bind calm_remove calm_step calm_paths calm_fs)
  have "calm (install_command_at c command binary invoking)" for command
  proof (cases "path_parent command")
    case (Some dir)
    have rest: "calm (if \<not> free then io_return ()
        else io_bind (io_check (fs_pid (ct_fs c))) (\<lambda>pid. let t = path_join dir (''.dnsrivet-link-'' @ show_nat pid @ ''.tmp'') in
          io_bind (remove_if_present (ct_host c) t) (\<lambda>_.
          io_bind (io_step t (ct_symlink c binary t)) (\<lambda>_. io_step command (fs_rename (ct_fs c) t command)))))" for free
      unfolding Let_def using calm_bind [OF calm_simps(3) link] by (cases free) (simp_all only: if_True if_False calm_simps not_True_eq_False not_False_eq_True)
    show ?thesis
      unfolding install_command_at_def Some option.case
      by (rule calm_bind [OF calm_files(2) calm_bind [OF calm_command_free rest]])
  qed (simp add: install_command_at_def)
  then show ?thesis by (simp only: install_command_def)
qed

lemma calm_bind_listeners [simp]: "calm (bind_listeners c listeners)"
  by (induction listeners) (auto intro!: calm_bind simp: calm_sockets)

lemma calm_preflight: "calm body \<Longrightarrow> calm (preflight_listeners c listeners body)"
proof (rule calmI)
  fix os r os'
  assume b: "calm body" and go: "preflight_listeners c listeners body os = (r, os')"
  obtain q os1 where q: "io_bind (bind_listeners c listeners) (\<lambda>_. body) os = (q, os1)" by fastforce
  then have "undisturbed view running os os1" by (rule calmD [OF calm_bind [OF calm_bind_listeners b]])
  then show "undisturbed view running os os'"
    using go q undisturbed_trans calm_sockets(3) by (auto simp: preflight_listeners_def)
qed

lemma calm_install_service [simp]: "calm (install_service c p listeners)"
  unfolding install_service_def by (auto intro!: calm_bind calm_preflight)

lemma calm_pause [simp]: "calm (io_pause c n)"
  by (simp add: calm_def io_pause_def calm_sockets)

lemma calm_probe [simp]: "calm (dns_probe c a timeout)"
proof (rule calmI)
  fix os r os'
  assume "dns_probe c a timeout os = (r, os')"
  then obtain local query out where "ct_send c local a timeout query os = (out, os')"
    by (auto simp: dns_probe_def Let_def split: prod.splits sum.splits)
  then show "undisturbed view running os os'" using calm_sockets(5) by (metis snd_conv)
qed

lemma calm_wait [simp]: "calm (wait_for_dns c a timeout)"
proof -
  have "calm (dns_wait fuel c a deadline e)" for fuel deadline e
    by (induction fuel arbitrary: e) (auto intro!: calm_bind split: sum.split)
  then show ?thesis unfolding wait_for_dns_def by (intro calm_bind calm_simps) blast
qed

section \<open>Starting\<close>

lemma running_invariant: "host_invariant (ct_dns c) (\<lambda>os. running os = up) {LAUNCHCTL}"
  by unfold_locales (simp_all add: job_files job_other NETWORKSETUP_def SCUTIL_def LAUNCHCTL_def)

lemma take_over_running: "take_over (ct_dns c) server os = (r, os') \<Longrightarrow> running os' = running os"
  using host_invariant.keeps_take_over [OF running_invariant, of "running os" server] unfolding io_keeps_def by blast

lemma release_running: "release (ct_dns c) os = (r, os') \<Longrightarrow> running os' = running os"
  using host_invariant.keeps_release [OF running_invariant, of "running os"] unfolding io_keeps_def by blast

lemma bootout_spec:
  assumes "bootout c os = (r, os')"
  shows "view os' = view os \<and> (if isl r then running os' = running os else \<not> running os' \<and> r = Inr (running os))"
  using assms [unfolded bootout_def]
proof (cases rule: io_bindE)
  case (error e)
  have "view os' = view os"
    using error(1) by (auto simp: is_loaded_def split: prod.splits dest: launchctl_view)
  then show ?thesis using error is_loaded_running [OF error(1)] by (simp add: undisturbed_def)
next
  case (step x os1)
  have v: "view os1 = view os" "running os1 = running os" "x = running os"
    using step(1) is_loaded_running [OF step(1)]
    by (auto simp: is_loaded_def undisturbed_def split: prod.splits dest: launchctl_view)
  show ?thesis
  proof (cases x)
    case True
    with step(2) obtain q where q: "launchctl c ''stop launchd service'' [''bootout'', service_target] os1 = (q, os')"
      "r = map_sum id (\<lambda>_. True) q"
      by (auto simp: io_bind_def io_return_def split: prod.splits sum.splits)
    from launchctl_result [OF q(1)] obtain out where
      "h_run (ct_host c) LAUNCHCTL [''bootout'', service_target] os1 = (out, os')" "isl q \<longleftrightarrow> \<not> succeeded out" by blast
    then show ?thesis
      using launchctl_view job_bootout True v q(2) by (cases q) auto
  qed (use step(2) v in \<open>auto simp: io_return_def\<close>)
qed

lemma give_up_start_spec:
  assumes "give_up_start c failure os = (r, os')"
  shows "isl r \<and> mc_dns (view os') = mc_dns (view os)"
proof -
  obtain b os1 where b: "bootout c os = (b, os1)" by fastforce
  note v = bootout_spec [OF b]
  obtain p os2 where p: "remove_plist c os1 = (p, os2)" by fastforce
  have "mc_dns (view os2) = mc_dns (view os)"
    using calmD [OF calm_plist(2) p] v by (simp add: undisturbed_def)
  moreover have "isl r \<and> (os' = os1 \<or> os' = os2)"
    using assms b p
    by (cases b; cases p) (auto simp: give_up_start_def cleanup_failed_start_def Let_def io_bind_def io_try_def io_return_def io_fail_def)
  ultimately show ?thesis using v by auto
qed

abbreviation started_from :: "'o \<Rightarrow> os_error + ip_addr \<Rightarrow> 'o \<Rightarrow> bool" where
  "started_from os r os' \<equiv> started (ct_dns c) view running (view os) r os'"

definition sound :: "('o, ip_addr) io \<Rightarrow> bool" where
  "sound m \<longleftrightarrow> (\<forall>os r os'. m os = (r, os') \<longrightarrow> started_from os r os')"

lemma started_cong: "undisturbed view running os os1 \<Longrightarrow> started_from os1 r os' \<Longrightarrow> started_from os r os'"
  by (simp add: undisturbed_def started_def taken_over_def recoverable_def recorded_def split: sum.splits)

lemma started_same: "mc_dns (view os') = mc_dns (view os) \<Longrightarrow> started_from os (Inl e) os'"
  by (simp add: started_def)

lemma sound_fail [simp]: "sound (io_fail e)"
  by (simp add: sound_def io_fail_def started_def)

lemma sound_bind: "calm m \<Longrightarrow> (\<And>x. sound (f x)) \<Longrightarrow> sound (io_bind m f)"
proof (unfold sound_def [of "io_bind m f"], intro allI impI)
  fix os r os'
  assume m: "calm m" and f: "\<And>x. sound (f x)" and "io_bind m f os = (r, os')"
  from this(3) show "started_from os r os'"
  proof (cases rule: io_bindE)
    case (error e)
    then show ?thesis using calmD [OF m error(1)] started_same by (simp add: undisturbed_def)
  next
    case (step x os1)
    from f [of x] step(2) have "started_from os1 r os'" unfolding sound_def by blast
    with calmD [OF m step(1)] show ?thesis by (rule started_cong)
  qed
qed

text \<open>Once the job runs and answers.\<close>

lemma take_dns_started:
  assumes "take_dns c ip os = (r, os')" and "running os"
  shows "started_from os r os'"
proof -
  note go = assms(1) [unfolded take_dns_def io_bind_try]
  obtain q os1 where q: "take_over (ct_dns c) ip os = (q, os1)" by fastforce
  from net.take_over_spec [OF q show_ip_not_Empty]
  have t: "recoverable (ct_dns c) view (view os) ip os1" "\<not> isl q \<longrightarrow> taken_over (ct_dns c) view (view os) ip os1"
    by blast+
  have up: "running os1" using take_over_running [OF q] assms(2) by simp
  show ?thesis
  proof (cases q)
    case (Inl e)
    show ?thesis
    proof (cases "backup_exists (ct_dns c) os1")
      case True
      with go q Inl have "isl r" "os' = os1" by (auto simp: io_bind_def io_check_def io_fail_def)
      then show ?thesis using t(1) up unfolding started_def recoverable_def by (cases r) auto
    next
      case False
      then have "\<not> recorded (ct_dns c) view (view os) ip os1"
        using net.is_file by (auto simp: recorded_def backed_by_def backup_exists_def)
      then have "mc_dns (view os1) = mc_dns (view os)" using t(1) by (simp add: recoverable_def)
      moreover have "give_up_start c (Context ''DNS takeover failed'' e) os1 = (r, os')"
        using go q Inl False by (simp add: io_bind_def io_check_def)
      note give_up_start_spec [OF this]
      ultimately show ?thesis using started_same by (cases r) auto
    qed
  next
    case (Inr u)
    with go q have "r = Inr ip" "os' = os1" by (simp_all add: io_return_def)
    then show ?thesis using t(2) up Inr by (simp add: started_def)
  qed
qed

lemma sound_launch: "sound (launch c ip)"
  unfolding launch_def
proof (rule sound_bind [OF calm_job(1)], unfold sound_def, intro allI impI)
  fix os r os'
  assume go: "io_bind (io_try (launchd_bootstrap c)) (\<lambda>booted.
       case booted of
         Inl e \<Rightarrow> io_bind (io_try (remove_plist c)) (\<lambda>_. io_fail e)
       | Inr _ \<Rightarrow>
     io_bind (io_try (wait_for_dns c (sock_new ip 53) (15 * second))) (\<lambda>probed.
       case probed of
         Inl e \<Rightarrow> give_up_start c (Context ''service started but failed its DNS probe'' e)
       | Inr _ \<Rightarrow> take_dns c ip)) os = (r, os')"
  obtain b os1 where b: "launchd_bootstrap c os = (b, os1)" by fastforce
  from launchctl_result [OF b [unfolded launchd_bootstrap_def]] obtain out where
    h: "h_run (ct_host c) LAUNCHCTL [''bootstrap'', ''system'', PLIST_PATH] os = (out, os1)" "isl b \<longleftrightarrow> \<not> succeeded out"
    by blast
  have v: "view os1 = view os" by (rule launchctl_view [OF h(1)])
  show "started_from os r os'"
  proof (cases b)
    case (Inl e)
    obtain p os2 where p: "remove_plist c os1 = (p, os2)" by fastforce
    have "r = Inl e" "os' = os2"
      using go b p Inl by (simp_all add: io_bind_try io_fail_def)
    then show ?thesis using calmD [OF calm_plist(2) p] v started_same by (simp add: undisturbed_def)
  next
    case (Inr u)
    have up: "running os1" using job_bootstrap [OF h(1)] h(2) Inr by simp
    obtain w os2 where w: "wait_for_dns c (sock_new ip 53) (15 * second) os1 = (w, os2)" by fastforce
    have u: "undisturbed view running os1 os2" by (rule calmD [OF calm_wait w])
    have "started_from os2 r os'"
    proof (cases w)
      case (Inl e)
      then have "give_up_start c (Context ''service started but failed its DNS probe'' e) os2 = (r, os')"
        using go b \<open>b = Inr u\<close> w by (simp add: io_bind_try)
      from give_up_start_spec [OF this] show ?thesis using started_same by (cases r) auto
    next
      case (Inr u')
      show ?thesis
      proof (rule take_dns_started)
        show "take_dns c ip os2 = (r, os')" using go b \<open>b = Inr u\<close> w Inr by (simp add: io_bind_try)
        show "running os2" using up u by (simp add: undisturbed_def)
      qed
    qed
    with u have "started_from os1 r os'" by (rule started_cong)
    then show ?thesis using v by (simp only: started_def)
  qed
qed

lemma start_spec: "start c config_path generated os = (r, os') \<Longrightarrow> started_from os r os'"
proof -
  have "sound (start c config_path generated)"
    unfolding start_def
    by (intro sound_bind calm_read calm_lock calm_is_loaded calm_simps)
       (auto intro!: sound_bind sound_launch)
  then show "start c config_path generated os = (r, os') \<Longrightarrow> started_from os r os'" unfolding sound_def by blast
qed

section \<open>Stopping\<close>

definition yields :: "'a \<Rightarrow> ('o, 'a) io \<Rightarrow> bool" where
  "yields v m \<longleftrightarrow> (\<forall>os y os'. m os = (Inr y, os') \<longrightarrow> y = v)"

lemma yields_bind: "(\<And>x. yields v (f x)) \<Longrightarrow> yields v (io_bind m f)"
  unfolding yields_def io_bind_Inr by blast

lemma yields_return [simp]: "yields v (io_return v)"
  by (simp add: yields_def io_return_def)

text \<open>What follows a release: DNS stays, and success means the job is down.\<close>

definition closing :: "bool \<Rightarrow> ('o, bool \<times> bool) io \<Rightarrow> bool" where
  "closing restored m \<longleftrightarrow> (\<forall>os r os'. m os = (r, os') \<longrightarrow> mc_dns (view os') = mc_dns (view os)
     \<and> (\<not> isl r \<longrightarrow> \<not> running os' \<and> r = Inr (restored, running os)))"

lemma closing_bind: "calm m \<Longrightarrow> (\<And>x. closing b (f x)) \<Longrightarrow> closing b (io_bind m f)"
proof (unfold closing_def [of b "io_bind m f"], intro allI impI)
  fix os r os'
  assume m: "calm m" and f: "\<And>x. closing b (f x)" and "io_bind m f os = (r, os')"
  from this(3) show "mc_dns (view os') = mc_dns (view os)
     \<and> (\<not> isl r \<longrightarrow> \<not> running os' \<and> r = Inr (b, running os))"
  proof (cases rule: io_bindE)
    case (step x os1)
    have "mc_dns (view os') = mc_dns (view os1) \<and> (\<not> isl r \<longrightarrow> \<not> running os' \<and> r = Inr (b, running os1))"
      using f [of x] step(2) unfolding closing_def by blast
    then show ?thesis using calmD [OF m step(1)] by (simp add: undisturbed_def)
  qed (use calmD [OF m] in \<open>auto simp: undisturbed_def\<close>)
qed

lemma closing_bootout: "(\<And>x. calm (f x)) \<Longrightarrow> (\<And>x. yields (b, x) (f x)) \<Longrightarrow> closing b (io_bind (bootout c) f)"
proof (unfold closing_def, intro allI impI)
  fix os r os'
  assume f: "\<And>x. calm (f x)" "\<And>x. yields (b, x) (f x)" and "io_bind (bootout c) f os = (r, os')"
  from this(3) show "mc_dns (view os') = mc_dns (view os)
     \<and> (\<not> isl r \<longrightarrow> \<not> running os' \<and> r = Inr (b, running os))"
  proof (cases rule: io_bindE)
    case (step x os1)
    note v = bootout_spec [OF step(1)] and u = calmD [OF f(1) step(2)]
    have "r = Inr (b, x)" if "\<not> isl r"
      using that step(2) f(2) [of x] unfolding yields_def by (cases r) auto
    then show ?thesis using v u by (auto simp: undisturbed_def)
  qed (use bootout_spec in auto)
qed

text \<open>A release under the lifecycle lock, then the shutdown.\<close>

lemma release_then_close:
  assumes go: "io_bind (require_root c) (\<lambda>_. io_bind (acquire_lock (ct_host c) LIFECYCLE_LOCK_PATH) (\<lambda>_.
        io_bind (release (ct_dns c)) f)) os = (r, os')"
    and f: "\<And>b. closing b (f b)" and over: "taken_over (ct_dns c) view before server os"
    and still: "set (mc_enabled before) \<subseteq> set (mc_services (view os))" and orig: "\<forall>s. mc_dns before s \<noteq> [''Empty'']"
  shows "if isl r then mc_dns (view os') = mc_dns before
            \<or> recoverable (ct_dns c) view before server os' \<and> running os' = running os
     else mc_dns (view os') = mc_dns before \<and> \<not> running os' \<and> r = Inr (True, running os)"
proof -
  have rec: "recoverable (ct_dns c) view before server os"
    using over by (simp add: taken_over_def recoverable_def)
  show ?thesis
  proof (cases "ct_root c os")
    case False
    with go have "isl r" "os' = os" by (auto simp: io_bind_def require_root_def)
    then show ?thesis using rec by simp
  next
    case True
    then have rr: "require_root c os = (Inr (), os)" by (simp add: require_root_def)
    have root: "io_bind (acquire_lock (ct_host c) LIFECYCLE_LOCK_PATH) (\<lambda>_. io_bind (release (ct_dns c)) f) os = (r, os')"
      using go by (simp only: io_bind_ok [where m = "require_root c" and os = os, OF rr])
    obtain l os1 where l: "acquire_lock (ct_host c) LIFECYCLE_LOCK_PATH os = (l, os1)" by fastforce
    have files: "\<forall>p. p \<noteq> LIFECYCLE_LOCK_PATH \<longrightarrow> mc_files (view os1) p = mc_files (view os) p"
      using l net.lock_file [of LIFECYCLE_LOCK_PATH os]
      by (cases "h_lock (ct_host c) LIFECYCLE_LOCK_PATH os") (auto simp: acquire_lock_def split: option.splits)
    note u = calmD [OF calm_lock l, unfolded undisturbed_def]
    have "BACKUP_PATH \<noteq> LIFECYCLE_LOCK_PATH" "MARKER_PATH \<noteq> LIFECYCLE_LOCK_PATH"
      by (simp_all add: BACKUP_PATH_def MARKER_PATH_def LIFECYCLE_LOCK_PATH_def)
    then have over1: "taken_over (ct_dns c) view before server os1"
      using over u files by (simp add: taken_over_def recorded_def backed_by_def)
    show ?thesis
    proof (cases l)
      case (Inl e)
      then have "isl r" "os' = os1" using root l by (auto simp: io_bind_def)
      then show ?thesis using over1 u by (simp add: taken_over_def recoverable_def)
    next
      case (Inr x)
      have "io_bind (release (ct_dns c)) f os1 = (r, os')" using root l Inr by (simp add: io_bind_def)
      then show ?thesis
      proof (cases rule: io_bindE)
        case (error e)
        then show ?thesis
          using net.release_spec [OF error(1) over1 _ orig] still u release_running [OF error(1)] by simp
      next
        case (step restored os2)
        from net.release_spec [OF step(1) over1 _ orig] still u
        have "restored = True" "mc_dns (view os2) = mc_dns before" by simp_all
        moreover have "running os2 = running os" using release_running [OF step(1)] u by simp
        ultimately show ?thesis using f [of restored] step(2) unfolding closing_def by (metis (full_types))
      qed
    qed
  qed
qed

lemma closing_stop:
  "closing b (io_bind (io_check (is_installed c)) (\<lambda>installed.
     io_bind (if installed then io_return True else is_loaded c) (\<lambda>managed.
     io_bind (if managed then set_enabled c False else io_return ()) (\<lambda>_.
     io_bind (bootout c) (\<lambda>stopped. io_return (b, stopped))))))"
  by (intro closing_bind closing_bootout) simp_all

lemma closing_uninstall:
  "closing b (io_bind (io_check (is_installed c)) (\<lambda>installed.
     io_bind (if installed then io_return True else is_loaded c) (\<lambda>managed.
     io_bind (if managed then set_enabled c False else io_return ()) (\<lambda>_.
     io_bind (bootout c) (\<lambda>stopped.
     io_bind (remove_plist c) (\<lambda>_.
     io_bind (remove_command c) (\<lambda>_.
     io_bind (remove_installed_binary c) (\<lambda>_.
     io_bind (if managed then set_enabled c True else io_return ()) (\<lambda>_.
       io_return (b, stopped))))))))))"
  by (intro closing_bind closing_bootout) (auto intro!: calm_bind yields_bind)

lemma stop_spec:
  assumes go: "stop c os = (r, os') \<or> uninstall c os = (r, os')"
    and over: "taken_over (ct_dns c) view before server os"
    and still: "set (mc_enabled before) \<subseteq> set (mc_services (view os))" and orig: "\<forall>s. mc_dns before s \<noteq> [''Empty'']"
  shows "if isl r then mc_dns (view os') = mc_dns before
            \<or> recoverable (ct_dns c) view before server os' \<and> running os' = running os
     else mc_dns (view os') = mc_dns before \<and> \<not> running os' \<and> r = Inr (True, running os)"
  using go release_then_close [OF _ closing_stop over still orig] release_then_close [OF _ closing_uninstall over still orig]
  unfolding stop_def uninstall_def by blast

section \<open>Replacing the configuration\<close>

abbreviation installed :: "'o \<Rightarrow> string option" where
  "installed os \<equiv> mc_files (view os) CONFIG_PATH"

definition steady :: "('o, 'a) io \<Rightarrow> bool" where
  "steady m \<longleftrightarrow> (\<forall>t. io_keeps (\<lambda>os. installed os = t) m)"

lemma steadyD: "steady m \<Longrightarrow> m os = (r, os') \<Longrightarrow> installed os' = installed os"
  by (auto simp: steady_def io_keeps_def)

lemma steadyI: "(\<And>os r os'. m os = (r, os') \<Longrightarrow> installed os' = installed os) \<Longrightarrow> steady m"
  by (auto simp: steady_def io_keeps_def)

lemma steady_quiet: "net.quiet m \<Longrightarrow> steady m"
  by (rule steadyI) (auto dest: net.quietD)

lemma steady_bind: "steady m \<Longrightarrow> (\<And>x. steady (f x)) \<Longrightarrow> steady (io_bind m f)"
  by (auto simp: steady_def intro: io_keeps_bind)

lemma steady_intact: "steady (takeover_intact (ct_dns c) server)"
proof (rule steady_quiet)
  have "net.quiet (takeover_intact_loop ifindex b expected enabled (get_dns_servers (ct_dns c)) names ok)"
    for ifindex b expected enabled names ok
    by (induction names arbitrary: ok) (auto intro!: net.quiet_bind)
  then show "net.quiet (takeover_intact (ct_dns c) server)"
    unfolding takeover_intact_def takeover_intact_with_def by (auto intro!: net.quiet_bind)
qed

lemma steady_simps [simp]: "steady (io_return x)" "steady (io_fail e)" "steady (io_check f)" "steady (io_of r)"
  "steady (io_pause c n)" "steady (read_file (ct_host c) p)"
  by (auto intro!: steadyI simp: config_stays io_defs io_of_def io_pause_def read_file_def)

lemma steady_try [simp]: "steady m \<Longrightarrow> steady (io_try m)"
  by (simp add: steady_def)

lemma steady_context [simp]: "steady m \<Longrightarrow> steady (io_context action m)"
  by (rule steadyI) (auto simp: io_context_def dest: steadyD split: prod.splits sum.splits)

lemma steady_wait: "steady (wait_for_dns c a timeout)"
proof -
  have p: "steady (dns_probe c a t)" for t
  proof (rule steadyI)
    fix os r os'
    assume "dns_probe c a t os = (r, os')"
    then obtain local query out where "ct_send c local a t query os = (out, os')"
      by (auto simp: dns_probe_def Let_def split: prod.splits sum.splits)
    then show "installed os' = installed os" using config_stays(2) by (metis snd_conv)
  qed
  have "steady (dns_wait fuel c a deadline e)" for fuel deadline e
  proof (induction fuel arbitrary: e)
    case (Suc fuel)
    have answered: "steady (case r of Inr _ \<Rightarrow> io_return () | Inl e \<Rightarrow> io_bind (io_pause c (second div 5)) (\<lambda>_. dns_wait fuel c a deadline e))"
      for r :: "os_error + unit"
      by (cases r) (simp_all add: steady_bind Suc.IH)
    have "steady (if deadline \<le> now then io_fail e else io_bind (io_try (dns_probe c a second)) (\<lambda>r.
        case r of Inr _ \<Rightarrow> io_return () | Inl e \<Rightarrow> io_bind (io_pause c (second div 5)) (\<lambda>_. dns_wait fuel c a deadline e)))"
      for now
      using steady_bind [OF steady_try [OF p] answered] by (cases "deadline \<le> now") (simp_all only: if_True if_False steady_simps)
    then show ?case
      unfolding dns_wait.simps by (rule steady_bind [OF steady_simps(3)])
  qed simp
  then show ?thesis unfolding wait_for_dns_def by (intro steady_bind steady_simps)
qed

lemma steady_reassertion: "steady (wait_for_reassertion c server timeout)"
proof -
  have "steady (reassertion_wait fuel c server deadline)" for fuel deadline
  proof (induction fuel)
    case (Suc fuel)
    have "steady (if deadline \<le> now then io_return False
        else io_bind (io_pause c (second div 2)) (\<lambda>_. reassertion_wait fuel c server deadline))" for now
      by (simp_all add: steady_bind Suc.IH)
    then show ?case
      unfolding reassertion_wait.simps
      by (intro steady_bind steady_try steady_intact) (auto intro!: steady_bind)
  qed simp
  then show ?thesis unfolding wait_for_reassertion_def by (intro steady_bind steady_simps)
qed

lemma steady_address: "steady (installed_probe_address c)"
  unfolding installed_probe_address_def config_load_def
  by (intro steady_bind steady_context steady_simps)

lemma steady_restart: "steady (launchd_restart c)"
  by (rule steadyI) (auto simp: launchd_restart_def dest!: launchctl_result launchctl_view)

lemma write_config_spec:
  assumes "write_config c CONFIG_PATH text os = (r, os')" "installed os \<noteq> None"
  shows "installed os' = (if isl r then installed os else Some text)"
  using assms(1) [unfolded write_config_def]
proof (cases rule: io_bindE)
  case (error e)
  then have "os' = snd (ct_mkdir c SUPPORT_DIR os)"
    by (auto simp: make_dir_def io_step_def split: prod.splits option.splits)
  then show ?thesis using error dirs_no_files by simp
next
  case (step x os1)
  then have v: "installed os1 = installed os"
    using dirs_no_files [of SUPPORT_DIR os] by (auto simp: make_dir_def io_step_def split: prod.splits option.splits)
  obtain q where q: "atomic_write (ct_fs c) CONFIG_PATH 384 (write_text (ct_fs c) text) os1 = (q, os')" "isl q \<longleftrightarrow> isl r"
    using step(2) by (auto simp: io_context_def split: prod.splits sum.splits)
  have "installed os1 \<noteq> None" using v assms(2) by simp
  with files.atomic_write_spec [OF files.write_text_writes _ q(1)] v q(2) show ?thesis by (auto split: if_splits)
qed

lemma transaction_spec:
  assumes go: "restart_config_transaction previous replacement (write_config c CONFIG_PATH) reload verify os = (r, os')"
    and steady: "steady reload" "steady verify" and prev: "installed os = Some previous"
  shows "if isl r then installed os' = Some previous
            \<or> installed os' = Some replacement \<and> (\<exists>e os1. r = Inl e \<and> write_config c CONFIG_PATH previous os1 = (Inl e, os'))
     else installed os' = Some replacement"
  using go [unfolded restart_config_transaction_def]
proof (cases rule: io_bindE)
  case (error e)
  then show ?thesis using write_config_spec [OF error(1)] prev by simp
next
  case (step x os1)
  have w: "installed os1 = Some replacement" using write_config_spec [OF step(1)] prev by simp
  have s: "steady (io_bind reload (\<lambda>_. verify))" using steady by (rule steady_bind)
  obtain q os2 where q: "io_bind reload (\<lambda>_. verify) os1 = (q, os2)" by fastforce
  have i2: "installed os2 = Some replacement" using steadyD [OF s q] w by simp
  show ?thesis
  proof (cases q)
    case (Inr u)
    then show ?thesis using step(2) q i2 by (auto simp: io_bind_try io_return_def)
  next
    case (Inl e)
    then have "io_bind (write_config c CONFIG_PATH previous) (\<lambda>_.
         io_bind (io_try (io_bind reload (\<lambda>_. verify))) (\<lambda>rollback.
           case rollback of
             Inr _ \<Rightarrow> io_fail (Context ''previous configuration restored and restarted'' e)
           | Inl rollback_error \<Rightarrow>
               io_fail (Context ''previous configuration was restored but its restart failed''
                 (Several [e, rollback_error])))) os2 = (r, os')"
      using step(2) q by (simp add: io_bind_try)
    then show ?thesis
    proof (cases rule: io_bindE)
      case (error e2)
      then show ?thesis using write_config_spec [OF error(1)] i2 by auto
    next
      case (step y os3)
      have "installed os3 = Some previous" using write_config_spec [OF step(1)] i2 by simp
      moreover obtain q4 os4 where q4: "io_bind reload (\<lambda>_. verify) os3 = (q4, os4)" by fastforce
      moreover have "isl r" "os' = os4"
        using step(2) q4 by (auto simp: io_bind_try io_fail_def split: sum.splits)
      ultimately show ?thesis using steadyD [OF s q4] by simp
    qed
  qed
qed

lemma restart_with_config_spec:
  assumes go: "restart_with_config c replacement os = (r, os')"
  shows "if isl r then installed os' = installed os
            \<or> installed os' = Some replacement
              \<and> (\<exists>previous e os1. installed os = Some previous \<and> r = Inl e
                   \<and> write_config c CONFIG_PATH previous os1 = (Inl e, os'))
     else installed os' = Some replacement"
  using go [unfolded restart_with_config_def]
proof (cases rule: io_bindE)
  case (error e)
  then show ?thesis by (auto simp: read_bytes_def)
next
  case (step previous os1)
  have prev: "os1 = os" "installed os = Some previous"
    using step(1) read_bytes [of CONFIG_PATH os previous] by (auto simp: read_bytes_def map_sum_Inr_iff)
  show ?thesis
  proof (cases "takeover_state (ct_dns c) os = Active \<or> takeover_state (ct_dns c) os = NotTakenOver")
    case False
    with step(2) prev(1) have "isl r" "os' = os" by (auto simp: io_bind_def io_check_def io_fail_def)
    then show ?thesis by simp
  next
    case True
    define state where "state = takeover_state (ct_dns c) os"
    define reload where "reload = io_bind (launchd_restart c) (\<lambda>_.
      io_bind (installed_probe_address c) (\<lambda>a. wait_for_dns c a (15 * second)))"
    define verify where "verify = (if state = Active then
        io_bind (installed_probe_address c) (\<lambda>a.
        io_bind (wait_for_reassertion c (sock_ip a) (15 * second)) (\<lambda>verified.
          if verified then io_return () else io_fail (Refused ''system DNS takeover was not verified'')))
      else io_return ())"
    have s: "steady reload" "steady verify"
      unfolding reload_def verify_def
      by (auto intro!: steady_bind steady_restart steady_address steady_wait steady_reassertion)
    have "restart_config_transaction previous replacement (write_config c CONFIG_PATH) reload verify os = (r, os')"
      using step(2) True
      unfolding prev(1) reload_def verify_def state_def by (auto simp: io_bind_check)
    from transaction_spec [OF this s prev(2)] prev(2) show ?thesis by (auto split: if_splits)
  qed
qed

end

end
