(* ===== verification/Service_Waits.thy ===== *)
theory Service_Waits
  imports Service Takeover_Keeps
begin

text \<open>
  The waiting loops of \<open>src/src/service/mod.rs\<close> end: with a clock that advances while the program
  sleeps, the fuel given to them is enough and more of it changes nothing.
\<close>

section \<open>A clock that advances\<close>

locale clock =
  fixes c :: "'o control"
  assumes now_sleep: "ct_now c os + n \<le> ct_now c (ct_sleep c n os)"
    and now_send: "ct_send c local a timeout q os = (r, os') \<Longrightarrow> ct_now c os \<le> ct_now c os'"
    and now_run: "ct_now c os \<le> ct_now c (snd (h_run (ct_host c) program args os))"
    and now_install: "ct_now c os \<le> ct_now c (snd (h_install (ct_host c) p t os))"
    and now_remove: "ct_now c os \<le> ct_now c (snd (h_remove (ct_host c) p os))"
    and now_touch: "ct_now c os \<le> ct_now c (snd (h_touch (ct_host c) p os))"
    and now_lock: "ct_now c os \<le> ct_now c (snd (h_lock (ct_host c) p os))"
begin

lemma later: "host_invariant (ct_dns c) (\<lambda>os. t \<le> ct_now c os) {}"
  by unfold_locales (simp_all add: order_trans [OF _ now_run] order_trans [OF _ now_install]
      order_trans [OF _ now_remove] order_trans [OF _ now_touch] order_trans [OF _ now_lock])

lemma later_intact: "takeover_intact (ct_dns c) server os = (r, os') \<Longrightarrow> ct_now c os \<le> ct_now c os'"
  using host_invariant.keeps_intact [OF later, of "ct_now c os" server] by (auto simp: io_keeps_def)

text \<open>One round of a loop: the state after it is later by at least the pause.\<close>

lemma probe_round:
  assumes "io_try (dns_probe c a t) os = (r, os1)"
  shows "ct_now c os \<le> ct_now c os1" "r \<noteq> Inr (Inl OutOfFuel)" "\<not> isl r"
  using assms
  by (auto simp: io_try_def dns_probe_def Let_def split: prod.splits sum.splits if_splits dest: now_send)

lemma dns_wait_round:
  assumes "deadline \<le> ct_now c os + Suc n * (second div 5)"
  obtains os1 where "\<And>m e. dns_wait (Suc m) c a deadline e os = (Inl e, os)"
  | os1 where "\<And>m e. dns_wait (Suc m) c a deadline e os = (Inr (), os1)"
  | os1 e1 where "deadline \<le> ct_now c os1 + n * (second div 5)" "e1 \<noteq> OutOfFuel"
      "\<And>m e. dns_wait (Suc m) c a deadline e os = dns_wait m c a deadline e1 os1"
proof -
  obtain r os1 where r: "io_try (dns_probe c a second) os = (r, os1)" by fastforce
  note round = probe_round [OF r]
  let ?os = "ct_sleep c (second div 5) os1"
  have l: "deadline \<le> ct_now c ?os + n * (second div 5)"
    using now_sleep [of os1 "second div 5"] round(1) assms by simp
  show ?thesis
  proof (cases "deadline \<le> ct_now c os")
    case True
    then show ?thesis using that(1) by (simp add: io_bind_def io_check_def io_fail_def)
  next
    case False
    show ?thesis
    proof (cases r)
      case (Inr q)
      then show ?thesis
      proof (cases q)
        case (Inl e1)
        with \<open>r = Inr q\<close> round(2) have "e1 \<noteq> OutOfFuel" by auto
        then show ?thesis
          using that(3) [OF l] False r \<open>r = Inr q\<close> Inl
          by (simp add: io_bind_def io_check_def io_pause_def)
      qed (use that(2) False r in \<open>simp add: io_bind_def io_check_def io_return_def\<close>)
    qed (use round(3) in simp)
  qed
qed

lemma dns_wait_fuel:
  assumes "deadline \<le> ct_now c os + n * (second div 5)" "n < fuel" "e \<noteq> OutOfFuel"
  shows "dns_wait fuel c a deadline e os = dns_wait (Suc n) c a deadline e os
     \<and> fst (dns_wait fuel c a deadline e os) \<noteq> Inl OutOfFuel"
  using assms
proof (induction n arbitrary: fuel os e)
  case 0
  then show ?case by (cases fuel) (simp_all add: io_bind_def io_check_def io_fail_def)
next
  case (Suc n)
  obtain m where m: "fuel = Suc m" "n < m" using Suc.prems by (cases fuel) auto
  from Suc.prems(1) show ?case
  proof (cases rule: dns_wait_round [where a = a])
    case (3 os1 e1)
    from Suc.IH [OF 3(1) m(2) 3(2)] show ?thesis unfolding m 3(3) by metis
  qed (use Suc.prems(3) in \<open>simp_all only: m fst_conv sum.inject sum.simps not_False_eq_True simp_thms\<close>)
qed

lemma reassertion_wait_fuel:
  assumes "deadline \<le> ct_now c os + n * (second div 2)" "n < fuel"
  shows "reassertion_wait fuel c server deadline os = reassertion_wait (Suc n) c server deadline os
     \<and> \<not> isl (fst (reassertion_wait fuel c server deadline os))"
  using assms
proof (induction n arbitrary: fuel os)
  case 0
  obtain m where m: "fuel = Suc m" using 0 by (cases fuel) auto
  obtain r os1 where r: "takeover_intact (ct_dns c) server os = (r, os1)" by fastforce
  then have "ct_now c os \<le> ct_now c os1" by (rule later_intact)
  then show ?case
    using 0 r by (simp add: m io_bind_def io_try_def io_check_def io_return_def)
next
  case (Suc n)
  obtain m where m: "fuel = Suc m" "n < m" using Suc.prems by (cases fuel) auto
  obtain r os1 where r: "takeover_intact (ct_dns c) server os = (r, os1)" by fastforce
  then have l: "ct_now c os \<le> ct_now c os1" by (rule later_intact)
  let ?os = "ct_sleep c (second div 2) os1"
  have "deadline \<le> ct_now c ?os + n * (second div 2)"
    using now_sleep [of os1 "second div 2"] l Suc.prems(1) by simp
  from Suc.IH [OF this m(2)] Suc.IH [OF this, of "Suc n"] r show ?case
    unfolding m(1) by (simp add: io_bind_def io_try_def io_check_def io_return_def io_pause_def)
qed

end

section \<open>The waits end\<close>

lemma rounds_enough: "0 < k \<Longrightarrow> (t :: nat) \<le> (t div k + 1) * k"
  by (metis add.commute div_mult_mod_eq add_mult_distrib mult_1 nat_add_left_cancel_le mod_less_divisor less_imp_le)

text \<open>C16: Waiting for the listener or for the takeover to be verified ends: with a clock that advances
  by the time slept, the fuel of both loops is enough, and any more gives the same result.  Waiting
  for the takeover never fails at all.\<close>

theorem waits_end:
  assumes "clock c"
  shows "fst (wait_for_dns c a timeout os) \<noteq> Inl OutOfFuel
     \<and> \<not> isl (fst (wait_for_reassertion c server timeout os))
     \<and> (\<forall>fuel \<ge> timeout div (second div 5) + 2.
          dns_wait fuel c a (ct_now c os + timeout) (Refused ''no response'') os = wait_for_dns c a timeout os)
     \<and> (\<forall>fuel \<ge> timeout div (second div 2) + 2.
          reassertion_wait fuel c server (ct_now c os + timeout) os = wait_for_reassertion c server timeout os)"
proof -
  have t: "ct_now c os + timeout \<le> ct_now c os + (timeout div (second div k) + 1) * (second div k)"
    if "k \<in> {2, 5}" for k
    using rounds_enough [of "second div k" timeout] that by (auto simp: second_def)
  note D = clock.dns_wait_fuel [OF assms t [of 5], of _ "Refused ''no response''" a]
  note R = clock.reassertion_wait_fuel [OF assms t [of 2], of _ server]
  have w: "wait_for_dns c a timeout os =
      dns_wait (timeout div (second div 5) + 2) c a (ct_now c os + timeout) (Refused ''no response'') os"
    "wait_for_reassertion c server timeout os =
      reassertion_wait (timeout div (second div 2) + 2) c server (ct_now c os + timeout) os"
    by (simp_all add: wait_for_dns_def wait_for_reassertion_def io_bind_def io_check_def)
  have "fst (dns_wait (timeout div (second div 5) + 2) c a (ct_now c os + timeout) (Refused ''no response'') os) \<noteq> Inl OutOfFuel"
    by (rule conjunct2 [OF D]) simp_all
  moreover have "\<not> isl (fst (reassertion_wait (timeout div (second div 2) + 2) c server (ct_now c os + timeout) os))"
    by (rule conjunct2 [OF R]) simp_all
  moreover have "dns_wait fuel c a (ct_now c os + timeout) (Refused ''no response'') os
      = dns_wait (timeout div (second div 5) + 2) c a (ct_now c os + timeout) (Refused ''no response'') os"
    if "timeout div (second div 5) + 2 \<le> fuel" for fuel
    using that conjunct1 [OF D, of fuel] by (simp del: dns_wait.simps)
  moreover have "reassertion_wait fuel c server (ct_now c os + timeout) os
      = reassertion_wait (timeout div (second div 2) + 2) c server (ct_now c os + timeout) os"
    if "timeout div (second div 2) + 2 \<le> fuel" for fuel
    using that conjunct1 [OF R, of fuel] by (simp del: reassertion_wait.simps)
  ultimately show ?thesis unfolding w by blast
qed

end
