(* ===== verification/Service_Reference.thy ===== *)
theory Service_Reference
  imports Service_Control Service_Waits Dns_Reference
begin

text \<open>
  The reference machine of theory Dns_Reference under the control commands, the contracts it meets,
  and the properties of the service commands.
\<close>

section \<open>The reference machine\<close>

definition lab_fs :: "lab fs" where
  "lab_fs = \<lparr>
     fs_pid = \<lambda>_. 1, fs_nanos = \<lambda>_. 7,
     fs_create_new = (\<lambda>p m. if map_of (lb_files m) p \<noteq> None then (Some AlreadyExists, m)
        else case spend m (put_file p [] m) of (e, m) \<Rightarrow> (map_option CreateFailed e, m)),
     fs_write = (\<lambda>p t m. spend m (put_file p t m)),
     fs_chmod = (\<lambda>p mode m. spend m m), fs_sync = (\<lambda>p m. spend m m),
     fs_rename = (\<lambda>p q m. case map_of (lb_files m) p of
        None \<Rightarrow> (Some ''not found'', m) | Some t \<Rightarrow> spend m (drop_file p (put_file q t m))),
     fs_unlink = (\<lambda>p m. spend m (drop_file p m))\<rparr>"

text \<open>The daemon answers the probe unless its configuration is bad; waiting takes a while longer.\<close>

definition lab_answer :: "bytes \<Rightarrow> lab \<Rightarrow> string + bytes" where
  "lab_answer query m =
     (if lb_loaded m \<and> map_of (lb_files m) CONFIG_PATH \<noteq> Some ''bad''
      then Inr (take 2 query @ [0x80, 0, 0, 1, 0, 1, 0, 0, 0, 0]) else Inl ''timed out'')"

definition lab_control :: "lab control" where
  "lab_control = \<lparr>
     ct_dns = lab_dns, ct_fs = lab_fs, ct_toml = sample_codec, ct_utf8 = \<lambda>_. True, ct_root = \<lambda>_. True,
     ct_read = (\<lambda>p m. case map_of (lb_files m) p of Some t \<Rightarrow> Inr t | None \<Rightarrow> Inl ''not found''),
     ct_mkdir = (\<lambda>p m. spend m m), ct_open = \<lambda>p m. None,
     ct_copy = (\<lambda>p q m. spend m (put_file q ''binary'' m)),
     ct_is_dir = \<lambda>p m. True, ct_open_log = \<lambda>p m. None, ct_runtime = \<lambda>m. None,
     ct_current_exe = \<lambda>m. Inr ''/opt/dnsrivet'', ct_canonicalize = \<lambda>p m. Some p,
     ct_inspect = \<lambda>p m. Missing,
     ct_symlink = (\<lambda>p q m. spend m (put_file q p m)),
     ct_bind_udp = \<lambda>a m. (None, m), ct_bind_tcp = \<lambda>a m. (None, m), ct_unbind = \<lambda>m. m,
     ct_now = lb_clock, ct_nanos = \<lambda>_. 4660,
     ct_sleep = (\<lambda>n m. m\<lparr>lb_clock := lb_clock m + n + 20 * second\<rparr>),
     ct_send = (\<lambda>local peer timeout query m. (lab_answer query m, m))\<rparr>"

lemma lab_control_simps [simp]:
  "ct_dns lab_control = lab_dns" "ct_fs lab_control = lab_fs" "ct_now lab_control = lb_clock"
  by (simp_all add: lab_control_def)

lemma lab_host_simp [simp]: "dh_host lab_dns = lab_host"
  by (simp add: lab_dns_def)

text \<open>Only launchctl touches the job, only a sleep the clock.\<close>

lemma spend_rest:
  assumes "lb_loaded m' = lb_loaded m" "lb_clock m' = lb_clock m"
  shows "lb_loaded (snd (spend m m')) = lb_loaded m" "lb_clock (snd (spend m m')) = lb_clock m"
  using assms by (simp_all add: spend_def)

lemma put_rest [simp]:
  "lb_loaded (put_file p t m) = lb_loaded m" "lb_clock (put_file p t m) = lb_clock m"
  "lb_loaded (drop_file p m) = lb_loaded m" "lb_clock (drop_file p m) = lb_clock m"
  "lb_loaded (put_dns s servers m) = lb_loaded m" "lb_clock (put_dns s servers m) = lb_clock m"
  by (simp_all add: put_file_def drop_file_def put_dns_def)

lemma lab_run_rest:
  "program \<noteq> LAUNCHCTL \<Longrightarrow> lb_loaded (snd (lab_run program args m)) = lb_loaded m"
  "lb_clock (snd (lab_run program args m)) = lb_clock m"
  by (auto simp: lab_run_def lab_get_def lab_set_def lab_launchctl_def Let_def LAUNCHCTL_def spend_def
      split: list.split prod.split option.split)

lemma lab_host_rest:
  "lb_loaded (snd (h_install lab_host p t m)) = lb_loaded m" "lb_clock (snd (h_install lab_host p t m)) = lb_clock m"
  "lb_loaded (snd (h_remove lab_host p m)) = lb_loaded m" "lb_clock (snd (h_remove lab_host p m)) = lb_clock m"
  "lb_loaded (snd (h_touch lab_host p m)) = lb_loaded m" "lb_clock (snd (h_touch lab_host p m)) = lb_clock m"
  "lb_loaded (snd (h_lock lab_host p m)) = lb_loaded m" "lb_clock (snd (h_lock lab_host p m)) = lb_clock m"
  by (simp_all add: lab_host_def spend_rest spend_def split: prod.split)

interpretation lab: clock lab_control
  by unfold_locales (simp_all add: lab_control_def lab_host_rest lab_run_rest lab_host_def [THEN arg_cong [where f = h_run]])

interpretation lab: host_invariant lab_dns lb_loaded "{LAUNCHCTL}"
  by unfold_locales (simp_all add: lab_host_rest lab_run_rest lab_host_def [THEN arg_cong [where f = h_run]]
      NETWORKSETUP_def SCUTIL_def LAUNCHCTL_def)

lemma lab_fs_simps:
  "fs_create_new lab_fs p m = (if map_of (lb_files m) p \<noteq> None then (Some AlreadyExists, m)
     else case spend m (put_file p [] m) of (e, m) \<Rightarrow> (map_option CreateFailed e, m))"
  "fs_write lab_fs p t m = spend m (put_file p t m)"
  "fs_chmod lab_fs p mode m = spend m m" "fs_sync lab_fs p m = spend m m"
  "fs_rename lab_fs p q m = (case map_of (lb_files m) p of
     None \<Rightarrow> (Some ''not found'', m) | Some t \<Rightarrow> spend m (drop_file p (put_file q t m)))"
  "fs_unlink lab_fs p m = spend m (drop_file p m)"
  by (simp_all add: lab_fs_def)

lemma spend_files:
  "spend m m' = (e, m'') \<Longrightarrow> map_of (lb_files m'') = (if e = None then map_of (lb_files m') else map_of (lb_files m))"
  by (drule spend_view) (metis lab_view_simps(1))

interpretation lab: file_system lab_fs "\<lambda>os. mc_files (lab_view os)"
proof
  fix p q t :: string and mode :: nat and os os' :: lab and e ce
  show "mc_files (lab_view os') = (if ce = None then (mc_files (lab_view os))(p \<mapsto> []) else mc_files (lab_view os))
      \<and> (ce = None \<longrightarrow> mc_files (lab_view os) p = None)" if "fs_create_new lab_fs p os = (ce, os')"
    using that by (auto simp: lab_fs_simps put_file_def dest!: spend_files split: if_splits prod.splits)
  show "(\<forall>q. q \<noteq> p \<longrightarrow> mc_files (lab_view os') q = mc_files (lab_view os) q)
      \<and> (e = None \<longrightarrow> mc_files (lab_view os') p = Some t)" if "fs_write lab_fs p t os = (e, os')"
    using that by (auto simp: lab_fs_simps put_file_def dest!: spend_files)
  show "mc_files (lab_view os') = mc_files (lab_view os)" if "fs_chmod lab_fs p mode os = (e, os')"
    using that by (auto simp: lab_fs_simps dest!: spend_files)
  show "mc_files (lab_view os') = mc_files (lab_view os)" if "fs_sync lab_fs p os = (e, os')"
    using that by (auto simp: lab_fs_simps dest!: spend_files)
  show "mc_files (lab_view os') = (if e = None
      then (mc_files (lab_view os))(q := mc_files (lab_view os) p, p := None) else mc_files (lab_view os))"
    if "fs_rename lab_fs p q os = (e, os')"
    using that by (auto simp: lab_fs_simps put_file_def drop_file_def fun_eq_iff dest!: spend_files split: option.splits)
  show "mc_files (lab_view os') = (if e = None then (mc_files (lab_view os))(p := None) else mc_files (lab_view os))"
    if "fs_unlink lab_fs p os = (e, os')"
    using that by (auto simp: lab_fs_simps drop_file_def dest!: spend_files)
qed

text \<open>A call on files leaves DNS and the job alone.\<close>

abbreviation lab_undisturbed :: "lab \<Rightarrow> lab \<Rightarrow> bool" where
  "lab_undisturbed \<equiv> undisturbed lab_view lb_loaded"

lemma spend_undisturbed: "lab_undisturbed m m' \<Longrightarrow> lab_undisturbed m (snd (spend m m'))"
  by (simp add: spend_def undisturbed_def)

lemma file_undisturbed [simp]:
  "lab_undisturbed m m" "lab_undisturbed m (put_file p t m)" "lab_undisturbed m (drop_file p m)"
  "lab_undisturbed m (drop_file q (put_file p t m))" "lab_undisturbed m (m\<lparr>lb_clock := k\<rparr>)"
  by (simp_all add: undisturbed_def)

lemma lab_launchctl_job:
  "h_run lab_host LAUNCHCTL args m = lab_launchctl args m"
  by (simp add: lab_host_def lab_run_def LAUNCHCTL_def)

lemma lab_launchctl_steady:
  "take 1 args \<notin> {[''bootstrap''], [''bootout'']} \<Longrightarrow> lb_loaded (snd (lab_launchctl args m)) = lb_loaded m"
  by (auto simp: lab_launchctl_def spend_def)

lemma snd_map_error [simp]: "snd (case x of (e, y) \<Rightarrow> (f e, y)) = snd x"
  by (simp split: prod.split)

lemma spend_same [simp]: "lb_files (snd (spend m m)) = lb_files m"
  by (simp add: spend_def)

lemma lab_calls:
  "ct_mkdir lab_control p m = spend m m" "ct_copy lab_control p q m = spend m (put_file q ''binary'' m)"
  "ct_symlink lab_control p q m = spend m (put_file q p m)"
  "ct_bind_udp lab_control a m = (None, m)" "ct_bind_tcp lab_control a m = (None, m)" "ct_unbind lab_control m = m"
  "ct_sleep lab_control n m = m\<lparr>lb_clock := lb_clock m + n + 20 * second\<rparr>"
  "ct_send lab_control a b timeout query m = (lab_answer query m, m)"
  "ct_read lab_control p m = (case map_of (lb_files m) p of Some t \<Rightarrow> Inr t | None \<Rightarrow> Inl ''not found'')"
  by (simp_all add: lab_control_def)

lemma lab_service_axioms: "service_machine_axioms lab_control lab_view lb_loaded"
proof (rule service_machine_axioms.intro, unfold lab_control_simps lab_host_simp lab_launchctl_job)
  fix args :: "string list" and os os' :: lab and r
  show "lb_loaded (snd (h_run lab_host program args os)) = lb_loaded os" if "program \<noteq> LAUNCHCTL" for program
    using lab_run_rest(1) [OF that] by (simp add: lab_host_def)
  show "lb_loaded os' = lb_loaded os \<and> (\<forall>out. r = Inr out \<longrightarrow> out_success out = lb_loaded os)"
    if "lab_launchctl [''print'', service_target] os = (r, os')"
    using that by (auto simp: lab_launchctl_def lab_output_def)
  show "lb_loaded os' = (lb_loaded os \<or> succeeded r)"
    if "lab_launchctl [''bootstrap'', ''system'', PLIST_PATH] os = (r, os')"
    using that by (auto simp: lab_launchctl_def spend_def succeeded_def lab_output_def split: if_splits)
  show "lb_loaded os' = (lb_loaded os \<and> \<not> succeeded r)" if "lab_launchctl [''bootout'', service_target] os = (r, os')"
    using that by (auto simp: lab_launchctl_def spend_def succeeded_def lab_output_def split: if_splits)
  show "lb_loaded (snd (lab_launchctl (command # args) os)) = lb_loaded os"
    if "command \<in> {''enable'', ''disable'', ''kickstart''}" for command
    using that by (intro lab_launchctl_steady) auto
qed (auto simp: lab_fs_simps lab_calls lab_host_rest spend_undisturbed split: option.splits)

interpretation lab: service_machine lab_control lab_view lb_loaded
proof (rule service_machine.intro)
  show "dns_machine (ct_dns lab_control) lab_view" "file_system (ct_fs lab_control) (\<lambda>os. mc_files (lab_view os))"
    unfolding lab_control_simps by unfold_locales
qed (rule lab_service_axioms)

section \<open>Properties of the service commands\<close>

text \<open>C1: However a start ends, the machine can resolve: on success DNS points at the running service
  and the settings of before are recorded; on an error, whatever failed, DNS is what it was before,
  or its settings are recorded and the service was left running.\<close>

theorem start_never_strands:
  assumes "service_machine c view running" and "start c config_path generated os = (r, os')"
  shows "started (ct_dns c) view running (view os) r os'"
  using service_machine.start_spec [OF assms] .

definition lab_fresh :: "nat \<Rightarrow> lab" where
  "lab_fresh fuel = (lab_start fuel)\<lparr>lb_files := [(CONFIG_PATH, ''good'')]\<rparr>"

definition lab_started :: "nat \<Rightarrow> (os_error + ip_addr) \<times> lab" where
  "lab_started fuel = start lab_control None None (lab_fresh fuel)"

lemma start_never_strands_witness:
  "taken_over lab_dns lab_view (lab_view (lab_fresh 60)) lab_address (snd (lab_started 60)) \<and> lb_loaded (snd (lab_started 60))"
proof -
  have f: "fst (lab_started 60) = Inr lab_address" by code_simp
  have go: "start lab_control None None (lab_fresh 60) = (Inr lab_address, snd (lab_started 60))"
    using f by (simp add: lab_started_def prod_eq_iff)
  from start_never_strands [OF lab.service_machine_axioms go] show ?thesis by (simp add: started_def)
qed

text \<open>C2: Stopping or uninstalling never strands DNS: the service goes down only once the settings of
  before the takeover are back.  Success means they are and the service is down; on an error they
  are, or the service is as it was and the machine still recoverable.\<close>

theorem stop_never_strands:
  assumes "service_machine c view running"
    and "stop c os = (r, os') \<or> uninstall c os = (r, os')"
    and "taken_over (ct_dns c) view before server os"
    and "set (mc_enabled before) \<subseteq> set (mc_services (view os))" and "\<forall>s. mc_dns before s \<noteq> [''Empty'']"
  shows "if isl r then mc_dns (view os') = mc_dns before
            \<or> recoverable (ct_dns c) view before server os' \<and> running os' = running os
     else mc_dns (view os') = mc_dns before \<and> \<not> running os' \<and> r = Inr (True, running os)"
  using service_machine.stop_spec [OF assms] .

definition lab_running :: "nat \<Rightarrow> lab" where
  "lab_running fuel = (lab_over fuel)\<lparr>lb_loaded := True\<rparr>"

lemma lab_running_over: "taken_over lab_dns lab_view (lab_view (lab_start 20)) lab_address (lab_running 15)"
proof -
  have "taken_over lab_dns lab_view (lab_view (lab_start 20)) lab_address (lab_over 15)"
    using lab.take_over_spec [OF lab_take_over show_ip_not_Empty] by simp
  then show ?thesis by (simp add: taken_over_def recorded_def backed_by_def lab_running_def)
qed

lemma stop_never_strands_witness:
  "mc_dns (lab_view (snd (stop lab_control (lab_running 15)))) = mc_dns (lab_view (lab_start 20))
     \<and> \<not> lb_loaded (snd (stop lab_control (lab_running 15)))"
proof -
  have f: "\<not> isl (fst (stop lab_control (lab_running 15)))" by code_simp
  have e: "mc_dns (lab_view (lab_start 20)) s \<noteq> [''Empty'']" for s by (rule lab.net.dns_not_Empty)
  have still: "set (mc_enabled (lab_view (lab_start 20))) \<subseteq> set (mc_services (lab_view (lab_running 15)))"
    by (simp add: lab_start_def lab_running_def lab_over_def)
  show ?thesis
    using stop_never_strands [OF lab.service_machine_axioms disjI1 [OF surjective_pairing]
        lab_running_over [folded lab_control_simps(1)] still allI [OF e]] f
    by (simp only: if_False simp_thms)
qed

text \<open>C15: Replacing the configuration of the running service is a transaction: success leaves the
  replacement installed, an error leaves the file of before, unless the very rewriting of it failed,
  in which case that error is the one reported.\<close>

theorem config_replacement_rolls_back:
  assumes "service_machine c view running" and "restart_with_config c replacement os = (r, os')"
  shows "if isl r then mc_files (view os') CONFIG_PATH = mc_files (view os) CONFIG_PATH
            \<or> mc_files (view os') CONFIG_PATH = Some replacement
              \<and> (\<exists>previous e os1. mc_files (view os) CONFIG_PATH = Some previous \<and> r = Inl e
                   \<and> write_config c CONFIG_PATH previous os1 = (Inl e, os'))
     else mc_files (view os') CONFIG_PATH = Some replacement"
  using service_machine.restart_with_config_spec [OF assms] .

definition lab_reconfigured :: "string \<Rightarrow> (os_error + unit) \<times> lab" where
  "lab_reconfigured text = restart_with_config lab_control text ((lab_fresh 60)\<lparr>lb_loaded := True\<rparr>)"

lemma config_replacement_rolls_back_witness:
  "map_of (lb_files (snd (lab_reconfigured ''better''))) CONFIG_PATH = Some ''better''
     \<and> isl (fst (lab_reconfigured ''bad''))
     \<and> map_of (lb_files (snd (lab_reconfigured ''bad''))) CONFIG_PATH = Some ''good''"
proof -
  note R = config_replacement_rolls_back [OF lab.service_machine_axioms surjective_pairing]
  have f: "\<not> isl (fst (lab_reconfigured ''better''))" "isl (fst (lab_reconfigured ''bad''))"
    "map_of (lb_files (snd (lab_reconfigured ''bad''))) CONFIG_PATH \<noteq> Some ''bad''" by code_simp+
  show ?thesis
    using R [of "''better''" "(lab_fresh 60)\<lparr>lb_loaded := True\<rparr>"] R [of "''bad''" "(lab_fresh 60)\<lparr>lb_loaded := True\<rparr>"] f
    by (simp add: lab_reconfigured_def [symmetric]) (simp add: lab_fresh_def)
qed

lemma waits_end_witness:
  "fst (wait_for_dns lab_control (SocketV4 (IP4 127 0 0 1) 53) (15 * second) (lab_fresh 0)) \<noteq> Inl OutOfFuel"
  using waits_end [OF lab.clock_axioms] by blast

end
