(* ===== verification/Cli.thy ===== *)
theory Cli
  imports Config
begin

text \<open>
  The command line, \<open>src/src/cli.rs\<close>: the loop over the arguments and the choice of the command.
  The lexer is the crate lexopt, an argument of the definitions: a state with the next argument
  and the value of the last one.  Words are texts that may not be Unicode.
\<close>

section \<open>Arguments and commands\<close>

record quick_args =
  qa_listeners :: "string list"
  qa_upstreams :: "string list"
  qa_timeout_ms :: "nat option"
  qa_cache_size :: "nat option"
  qa_no_cache :: bool

definition quick_args_default :: quick_args where
  "quick_args_default = \<lparr>qa_listeners = [], qa_upstreams = [], qa_timeout_ms = None, qa_cache_size = None,
     qa_no_cache = False\<rparr>"

definition quick_is_empty :: "quick_args \<Rightarrow> bool" where
  "quick_is_empty q \<longleftrightarrow> qa_listeners q = [] \<and> qa_upstreams q = [] \<and> qa_timeout_ms q = None
     \<and> qa_cache_size q = None \<and> \<not> qa_no_cache q"

datatype command =
  Run "string option" bool quick_args
| Start "string option" quick_args
| Stop
| Restart "string option" quick_args
| Status
| Uninstall
| ConfigInit string bool quick_args
| ConfigCheck "string option"
| Version
| Help

text \<open>What the lexer yields: an option with one dash or two, or a word that is neither.\<close>

datatype lex_arg = Short char | Long string | Plain string

datatype cli_error = LexError string | Unexpected lex_arg | NotUnicode string | Custom string

record 's lexer =
  lx_next :: "'s \<Rightarrow> (cli_error + lex_arg option) \<times> 's"
  lx_value :: "'s \<Rightarrow> (cli_error + string) \<times> 's"
  lx_unicode :: "string \<Rightarrow> bool"

definition word_text :: "'s lexer \<Rightarrow> string \<Rightarrow> cli_error + string" where
  "word_text lx word = (if lx_unicode lx word then Inr word else Inl (NotUnicode word))"

definition value_text :: "'s lexer \<Rightarrow> 's \<Rightarrow> (cli_error + string) \<times> 's" where
  "value_text lx s = (case lx_value lx s of
     (Inl e, s) \<Rightarrow> (Inl e, s) | (Inr word, s) \<Rightarrow> (word_text lx word, s))"

definition parse_number :: "string \<Rightarrow> string \<Rightarrow> cli_error + nat" where
  "parse_number text option =
     (case parse_unsigned U64_MAX text of
        Some n \<Rightarrow> Inr n
      | None \<Rightarrow> Inl (Custom (''--'' @ option @ '' requires a non-negative integer'')))"

section \<open>The loop over the arguments\<close>

record parsed =
  pa_positionals :: "string list"
  pa_config :: "string option"
  pa_output :: "string option"
  pa_verbose :: bool
  pa_force :: bool
  pa_quick :: quick_args

definition parsed_init :: parsed where
  "parsed_init = \<lparr>pa_positionals = [], pa_config = None, pa_output = None, pa_verbose = False, pa_force = False,
     pa_quick = quick_args_default\<rparr>"

definition set_quick :: "(quick_args \<Rightarrow> quick_args) \<Rightarrow> parsed \<Rightarrow> parsed" where
  "set_quick f p = p\<lparr>pa_quick := f (pa_quick p)\<rparr>"

text \<open>An option with a value; \<open>None\<close> ends the loop with the help.\<close>

definition with_value ::
  "((cli_error + 'a) \<times> 's) \<Rightarrow> ('a \<Rightarrow> cli_error + parsed) \<Rightarrow> (cli_error + parsed option) \<times> 's" where
  "with_value r f = (case r of (Inl e, s) \<Rightarrow> (Inl e, s) | (Inr v, s) \<Rightarrow> (map_sum id Some (f v), s))"

definition parse_arg :: "'s lexer \<Rightarrow> lex_arg \<Rightarrow> parsed \<Rightarrow> 's \<Rightarrow> (cli_error + parsed option) \<times> 's" where
  "parse_arg lx arg p s =
     (case arg of
        Plain word \<Rightarrow> (map_sum id (\<lambda>t. Some (p\<lparr>pa_positionals := pa_positionals p @ [t]\<rparr>)) (word_text lx word), s)
      | _ \<Rightarrow>
          if arg = Short (CHR ''c'') \<or> arg = Long ''config'' then
            with_value (lx_value lx s) (\<lambda>v. Inr (p\<lparr>pa_config := Some v\<rparr>))
          else if arg = Short (CHR ''o'') \<or> arg = Long ''output'' then
            with_value (lx_value lx s) (\<lambda>v. Inr (p\<lparr>pa_output := Some v\<rparr>))
          else if arg = Short (CHR ''v'') \<or> arg = Long ''verbose'' then (Inr (Some (p\<lparr>pa_verbose := True\<rparr>)), s)
          else if arg = Short (CHR ''h'') \<or> arg = Long ''help'' then (Inr None, s)
          else if arg = Long ''listen'' then
            with_value (value_text lx s) (\<lambda>t. Inr (set_quick (\<lambda>q. q\<lparr>qa_listeners := qa_listeners q @ [t]\<rparr>) p))
          else if arg = Long ''upstream'' then
            with_value (value_text lx s) (\<lambda>t. Inr (set_quick (\<lambda>q. q\<lparr>qa_upstreams := qa_upstreams q @ [t]\<rparr>) p))
          else if arg = Long ''timeout'' then
            with_value (value_text lx s) (\<lambda>t. map_sum id (\<lambda>n. set_quick (\<lambda>q. q\<lparr>qa_timeout_ms := Some n\<rparr>) p)
              (parse_number t ''timeout''))
          else if arg = Long ''cache-size'' then
            with_value (value_text lx s) (\<lambda>t. map_sum id (\<lambda>n. set_quick (\<lambda>q. q\<lparr>qa_cache_size := Some n\<rparr>) p)
              (parse_number t ''cache-size''))
          else if arg = Long ''no-cache'' then (Inr (Some (set_quick (\<lambda>q. q\<lparr>qa_no_cache := True\<rparr>) p)), s)
          else if arg = Long ''force'' then (Inr (Some (p\<lparr>pa_force := True\<rparr>)), s)
          else (Inl (Unexpected arg), s))"

text \<open>The loop ends if the lexer does; \<open>None\<close> is a loop that does not.\<close>

partial_function (option) parse_loop ::
  "'s lexer \<Rightarrow> parsed \<Rightarrow> 's \<Rightarrow> (cli_error + parsed option) option"
where
  "parse_loop lx p s =
     (case lx_next lx s of
        (Inl e, s) \<Rightarrow> Some (Inl e)
      | (Inr None, s) \<Rightarrow> Some (Inr (Some p))
      | (Inr (Some arg), s) \<Rightarrow>
          (case parse_arg lx arg p s of
             (Inl e, s) \<Rightarrow> Some (Inl e)
           | (Inr None, s) \<Rightarrow> Some (Inr None)
           | (Inr (Some p), s) \<Rightarrow> parse_loop lx p s))"

declare parse_loop.simps [code]

section \<open>The choice of the command\<close>

definition require_upstream_if_quick :: "quick_args \<Rightarrow> cli_error option" where
  "require_upstream_if_quick q =
     (if \<not> quick_is_empty q \<and> qa_upstreams q = []
      then Some (Custom ''quick configuration requires at least one --upstream TYPE=ENDPOINT'')
      else if qa_no_cache q \<and> qa_cache_size q \<noteq> None then Some (Custom ''--no-cache conflicts with --cache-size'')
      else None)"

definition reject_mixed_config :: "string option \<Rightarrow> quick_args \<Rightarrow> cli_error option" where
  "reject_mixed_config config q =
     (if config \<noteq> None \<and> \<not> quick_is_empty q
      then Some (Custom ''--config cannot be combined with quick-config options'') else None)"

definition reject_output_and_force :: "string option \<Rightarrow> bool \<Rightarrow> string \<Rightarrow> cli_error option" where
  "reject_output_and_force out force command =
     (if out \<noteq> None \<or> force then Some (Custom (command @ '' does not accept --output or --force'')) else None)"

definition reject_verbose :: "bool \<Rightarrow> string \<Rightarrow> cli_error option" where
  "reject_verbose verbose command =
     (if verbose then Some (Custom (command @ '' does not accept --verbose'')) else None)"

definition no_options :: "parsed \<Rightarrow> command \<Rightarrow> cli_error + command" where
  "no_options p command =
     (if pa_config p \<noteq> None \<or> pa_output p \<noteq> None \<or> pa_verbose p \<or> pa_force p \<or> \<not> quick_is_empty (pa_quick p)
      then Inl (Custom ''this command does not accept options'') else Inr command)"

text \<open>The first check that refuses, or the command.\<close>

fun after_checks :: "cli_error option list \<Rightarrow> command \<Rightarrow> cli_error + command" where
  "after_checks [] command = Inr command"
| "after_checks (None # checks) command = after_checks checks command"
| "after_checks (Some e # checks) command = Inl e"

definition single_command :: "parsed \<Rightarrow> string \<Rightarrow> cli_error + command" where
  "single_command p name =
     (let q = pa_quick p; config = pa_config p;
          outputs = reject_output_and_force (pa_output p) (pa_force p);
          quick = [reject_mixed_config config q, require_upstream_if_quick q] in
      if name = ''run'' then after_checks (outputs ''run'' # quick) (Run config (pa_verbose p) q)
      else if name = ''start'' then
        after_checks (outputs ''start'' # reject_verbose (pa_verbose p) ''start'' # quick) (Start config q)
      else if name = ''restart'' then
        after_checks (outputs ''restart'' # reject_verbose (pa_verbose p) ''restart'' # quick) (Restart config q)
      else if name = ''stop'' then no_options p Stop
      else if name = ''status'' then no_options p Status
      else if name = ''uninstall'' then no_options p Uninstall
      else if name = ''version'' then no_options p Version
      else if name = ''config'' then Inl (Custom ''config requires either init or check'')
      else Inl (Custom (''unknown command: '' @ name)))"

definition config_command :: "parsed \<Rightarrow> string \<Rightarrow> string \<Rightarrow> cli_error + command" where
  "config_command p name action =
     (let q = pa_quick p in
      if name = ''config'' \<and> action = ''init'' then
        after_checks
          [if pa_config p \<noteq> None \<or> pa_verbose p
           then Some (Custom ''config init does not accept --config or --verbose'') else None,
           require_upstream_if_quick q,
           if quick_is_empty q then Some (Custom ''config init requires at least one --upstream'') else None]
          (ConfigInit (case pa_output p of Some path \<Rightarrow> path | None \<Rightarrow> ''dnsrivet.toml'') (pa_force p) q)
      else if name = ''config'' \<and> action = ''check'' then
        after_checks
          [reject_output_and_force (pa_output p) (pa_force p) ''config check'',
           reject_verbose (pa_verbose p) ''config check'',
           if \<not> quick_is_empty q then Some (Custom ''config check does not accept quick-config options'') else None]
          (ConfigCheck (pa_config p))
      else Inl (Custom (''unknown command: '' @ name @ '' '' @ action)))"

definition choose_command :: "parsed \<Rightarrow> cli_error + command" where
  "choose_command p =
     (case pa_positionals p of
        [] \<Rightarrow> no_options p Help
      | [name] \<Rightarrow> single_command p name
      | [name, action] \<Rightarrow> config_command p name action
      | _ \<Rightarrow> Inl (Custom ''too many command arguments''))"

definition parse_args :: "'s lexer \<Rightarrow> 's \<Rightarrow> (cli_error + command) option" where
  "parse_args lx s =
     map_option (\<lambda>r. case r of
         Inl e \<Rightarrow> Inl e | Inr None \<Rightarrow> Inr Help | Inr (Some p) \<Rightarrow> choose_command p)
       (parse_loop lx parsed_init s)"

section \<open>The lexer\<close>

text \<open>What the loop relies on: every argument is taken from a finite rest.\<close>

locale arguments =
  fixes lx :: "'s lexer" and remaining :: "'s \<Rightarrow> nat"
  assumes next_shrinks: "lx_next lx s = (Inr (Some arg), s') \<Longrightarrow> remaining s' < remaining s"
    and value_shrinks: "lx_value lx s = (r, s') \<Longrightarrow> remaining s' \<le> remaining s"
begin

lemma parse_arg_shrinks: "parse_arg lx arg p s = (r, s') \<Longrightarrow> remaining s' \<le> remaining s"
proof -
  have v: "remaining s' \<le> remaining s" if "with_value (lx_value lx s) f = (r, s')" for f
    using that value_shrinks by (fastforce simp: with_value_def split: prod.splits sum.splits)
  have t: "remaining s' \<le> remaining s" if "with_value (value_text lx s) f = (r, s')" for f
    using that value_shrinks by (fastforce simp: with_value_def value_text_def split: prod.splits sum.splits)
  show "parse_arg lx arg p s = (r, s') \<Longrightarrow> remaining s' \<le> remaining s"
    unfolding parse_arg_def by (auto split: lex_arg.splits if_splits dest: v t)
qed

lemma parse_loop_returns: "parse_loop lx p s \<noteq> None"
proof (induction "remaining s" arbitrary: p s rule: less_induct)
  case less
  obtain r s1 where n: "lx_next lx s = (r, s1)" by fastforce
  show ?case
  proof (cases r)
    case (Inr arg)
    show ?thesis
    proof (cases arg)
      case (Some a)
      obtain q s2 where q: "parse_arg lx a p s1 = (q, s2)" by fastforce
      have "remaining s2 < remaining s"
        using parse_arg_shrinks [OF q] next_shrinks n Inr Some by fastforce
      from less [OF this] show ?thesis
        using n Inr Some q by (subst parse_loop.simps) (auto split: sum.split option.split)
    qed (use n Inr in \<open>subst parse_loop.simps, simp\<close>)
  qed (use n in \<open>subst parse_loop.simps, simp\<close>)
qed

lemma parse_args_returns: "parse_args lx s \<noteq> None"
  using parse_loop_returns by (simp add: parse_args_def)

end

text \<open>The plain case: every option and every value is a word of its own.\<close>

definition plain_next :: "string list \<Rightarrow> (cli_error + lex_arg option) \<times> string list" where
  "plain_next ws =
     (case ws of
        [] \<Rightarrow> (Inr None, [])
      | w # ws \<Rightarrow>
          (Inr (Some (case strip_prefix ''--'' w of
             Some name \<Rightarrow> Long name
           | None \<Rightarrow> (case strip_prefix ''-'' w of Some [c] \<Rightarrow> Short c | _ \<Rightarrow> Plain w))), ws))"

definition plain_value :: "string list \<Rightarrow> (cli_error + string) \<times> string list" where
  "plain_value ws = (case ws of [] \<Rightarrow> (Inl (LexError ''missing argument''), []) | w # ws \<Rightarrow> (Inr w, ws))"

definition plain_lexer :: "string list lexer" where
  "plain_lexer = \<lparr>lx_next = plain_next, lx_value = plain_value, lx_unicode = \<lambda>_. True\<rparr>"

interpretation plain: arguments plain_lexer length
  by unfold_locales (auto simp: plain_lexer_def plain_next_def plain_value_def split: list.splits)

section \<open>Commands as arguments\<close>

text \<open>What an accepted command never is, and how a command is written.\<close>

definition quick_ok :: "string option \<Rightarrow> quick_args \<Rightarrow> bool" where
  "quick_ok config q \<longleftrightarrow> (quick_is_empty q \<or> config = None \<and> qa_upstreams q \<noteq> [])
     \<and> \<not> (qa_no_cache q \<and> qa_cache_size q \<noteq> None)"

fun command_ok :: "command \<Rightarrow> bool" where
  "command_ok (Run config verbose q) = quick_ok config q"
| "command_ok (Start config q) = quick_ok config q"
| "command_ok (Restart config q) = quick_ok config q"
| "command_ok (ConfigInit path force q) = (\<not> quick_is_empty q \<and> quick_ok None q)"
| "command_ok _ = True"

lemma after_checks_Inr: "after_checks checks command = Inr c \<longleftrightarrow> c = command \<and> (\<forall>x \<in> set checks. x = None)"
  by (induction checks command rule: after_checks.induct) auto

lemma choose_command_ok:
  assumes "choose_command p = Inr command"
  shows "command_ok command"
proof -
  have q: "require_upstream_if_quick q = None \<Longrightarrow> reject_mixed_config config q = None \<Longrightarrow> quick_ok config q"
    "require_upstream_if_quick q = None \<Longrightarrow> quick_ok None q" for config q
    by (auto simp: require_upstream_if_quick_def reject_mixed_config_def quick_ok_def split: if_splits)
  show ?thesis
    using assms
    by (auto simp: choose_command_def single_command_def config_command_def no_options_def Let_def after_checks_Inr
        intro: q split: list.splits if_splits)
qed

definition written :: "string \<Rightarrow> string option \<Rightarrow> string list" where
  "written option v = (case v of Some w \<Rightarrow> [option, w] | None \<Rightarrow> [])"

definition quick_words :: "quick_args \<Rightarrow> string list" where
  "quick_words q =
     concat (map (\<lambda>l. [''--listen'', l]) (qa_listeners q)) @ concat (map (\<lambda>u. [''--upstream'', u]) (qa_upstreams q))
     @ written ''--timeout'' (map_option show_nat (qa_timeout_ms q))
     @ written ''--cache-size'' (map_option show_nat (qa_cache_size q))
     @ (if qa_no_cache q then [''--no-cache''] else [])"

fun command_words :: "command \<Rightarrow> string list" where
  "command_words (Run config verbose q) =
     [''run''] @ written ''--config'' config @ (if verbose then [''--verbose''] else []) @ quick_words q"
| "command_words (Start config q) = [''start''] @ written ''--config'' config @ quick_words q"
| "command_words (Restart config q) = [''restart''] @ written ''--config'' config @ quick_words q"
| "command_words (ConfigInit path force q) =
     [''config'', ''init'', ''--output'', path] @ (if force then [''--force''] else []) @ quick_words q"
| "command_words (ConfigCheck config) = [''config'', ''check''] @ written ''--config'' config"
| "command_words Stop = [''stop'']"
| "command_words Status = [''status'']"
| "command_words Uninstall = [''uninstall'']"
| "command_words Version = [''version'']"
| "command_words Help = [''--help'']"

definition quick_in_range :: "quick_args \<Rightarrow> bool" where
  "quick_in_range q \<longleftrightarrow> (\<forall>n. qa_timeout_ms q = Some n \<or> qa_cache_size q = Some n \<longrightarrow> n \<le> U64_MAX)"

text \<open>The loop over the words of one option.\<close>

abbreviation plain_loop :: "parsed \<Rightarrow> string list \<Rightarrow> (cli_error + parsed option) option" where
  "plain_loop \<equiv> parse_loop plain_lexer"

lemma plain_end: "plain_loop p [] = Some (Inr (Some p))"
  by (subst parse_loop.simps) (simp add: plain_lexer_def plain_next_def)

lemma plain_flags:
  "plain_loop p (''--verbose'' # ws) = plain_loop (p\<lparr>pa_verbose := True\<rparr>) ws"
  "plain_loop p (''--force'' # ws) = plain_loop (p\<lparr>pa_force := True\<rparr>) ws"
  "plain_loop p (''--no-cache'' # ws) = plain_loop (set_quick (\<lambda>q. q\<lparr>qa_no_cache := True\<rparr>) p) ws"
  "plain_loop p (''--help'' # ws) = Some (Inr None)"
  by (subst parse_loop.simps, simp add: plain_lexer_def plain_next_def parse_arg_def strip_prefix_def)+

lemma plain_values:
  "plain_loop p (''--config'' # w # ws) = plain_loop (p\<lparr>pa_config := Some w\<rparr>) ws"
  "plain_loop p (''--output'' # w # ws) = plain_loop (p\<lparr>pa_output := Some w\<rparr>) ws"
  "plain_loop p (''--listen'' # w # ws) = plain_loop (set_quick (\<lambda>q. q\<lparr>qa_listeners := qa_listeners q @ [w]\<rparr>) p) ws"
  "plain_loop p (''--upstream'' # w # ws) = plain_loop (set_quick (\<lambda>q. q\<lparr>qa_upstreams := qa_upstreams q @ [w]\<rparr>) p) ws"
  by (subst parse_loop.simps, simp add: plain_lexer_def plain_next_def plain_value_def parse_arg_def strip_prefix_def
      with_value_def value_text_def word_text_def)+

lemma plain_numbers:
  assumes "n \<le> U64_MAX"
  shows "plain_loop p (''--timeout'' # show_nat n # ws) = plain_loop (set_quick (\<lambda>q. q\<lparr>qa_timeout_ms := Some n\<rparr>) p) ws"
    "plain_loop p (''--cache-size'' # show_nat n # ws) = plain_loop (set_quick (\<lambda>q. q\<lparr>qa_cache_size := Some n\<rparr>) p) ws"
  using parse_unsigned_show [OF assms]
  by (subst parse_loop.simps, simp add: plain_lexer_def plain_next_def plain_value_def parse_arg_def strip_prefix_def
      with_value_def value_text_def word_text_def parse_number_def del: show_nat.simps)+

lemma plain_word:
  assumes "\<not> starts_with w ''-''"
  shows "plain_loop p (w # ws) = plain_loop (p\<lparr>pa_positionals := pa_positionals p @ [w]\<rparr>) ws"
proof -
  have "strip_prefix ''--'' w = None" "strip_prefix ''-'' w = None"
    using assms by (cases w; simp add: strip_prefix_def)+
  then show ?thesis
    by (subst parse_loop.simps) (simp add: plain_lexer_def plain_next_def parse_arg_def word_text_def)
qed

lemma set_quick_twice [simp]: "set_quick f (set_quick g p) = set_quick (\<lambda>q. f (g q)) p"
  by (simp add: set_quick_def)

lemma plain_listens:
  "plain_loop p (concat (map (\<lambda>l. [''--listen'', l]) ls) @ ws)
     = plain_loop (set_quick (\<lambda>q. q\<lparr>qa_listeners := qa_listeners q @ ls\<rparr>) p) ws"
  by (induction ls arbitrary: p) (simp_all add: plain_values(3) set_quick_def)

lemma plain_upstreams:
  "plain_loop p (concat (map (\<lambda>u. [''--upstream'', u]) us) @ ws)
     = plain_loop (set_quick (\<lambda>q. q\<lparr>qa_upstreams := qa_upstreams q @ us\<rparr>) p) ws"
  by (induction us arbitrary: p) (simp_all add: plain_values(4) set_quick_def)

lemma plain_quick:
  assumes "quick_in_range q" "pa_quick p = quick_args_default"
  shows "plain_loop p (quick_words q) = Some (Inr (Some (p\<lparr>pa_quick := q\<rparr>)))"
proof -
  have range: "qa_timeout_ms q = Some n \<Longrightarrow> n \<le> U64_MAX" "qa_cache_size q = Some n \<Longrightarrow> n \<le> U64_MAX" for n
    using assms(1) by (auto simp: quick_in_range_def)
  show ?thesis
    unfolding quick_words_def plain_listens plain_upstreams
    by (cases "qa_timeout_ms q"; cases "qa_cache_size q"; cases "qa_no_cache q")
       (simp_all add: written_def plain_numbers range plain_flags plain_end set_quick_def assms(2)
          quick_args_default_def del: show_nat.simps)
qed

section \<open>Properties of the command line\<close>



text \<open>The quick options of a command.\<close>

fun quick_of :: "command \<Rightarrow> quick_args" where
  "quick_of (Run config verbose q) = q"
| "quick_of (Start config q) = q"
| "quick_of (Restart config q) = q"
| "quick_of (ConfigInit path force q) = q"
| "quick_of _ = quick_args_default"

text \<open>The state of the loop after the words of a command.\<close>

fun parsed_of :: "command \<Rightarrow> parsed" where
  "parsed_of (Run config verbose q) =
     parsed_init\<lparr>pa_positionals := [''run''], pa_config := config, pa_verbose := verbose, pa_quick := q\<rparr>"
| "parsed_of (Start config q) = parsed_init\<lparr>pa_positionals := [''start''], pa_config := config, pa_quick := q\<rparr>"
| "parsed_of (Restart config q) = parsed_init\<lparr>pa_positionals := [''restart''], pa_config := config, pa_quick := q\<rparr>"
| "parsed_of (ConfigInit path force q) =
     parsed_init\<lparr>pa_positionals := [''config'', ''init''], pa_output := Some path, pa_force := force, pa_quick := q\<rparr>"
| "parsed_of (ConfigCheck config) = parsed_init\<lparr>pa_positionals := [''config'', ''check''], pa_config := config\<rparr>"
| "parsed_of Stop = parsed_init\<lparr>pa_positionals := [''stop'']\<rparr>"
| "parsed_of Status = parsed_init\<lparr>pa_positionals := [''status'']\<rparr>"
| "parsed_of Uninstall = parsed_init\<lparr>pa_positionals := [''uninstall'']\<rparr>"
| "parsed_of Version = parsed_init\<lparr>pa_positionals := [''version'']\<rparr>"
| "parsed_of Help = parsed_init"

lemma quick_default [simp]: "pa_quick parsed_init = quick_args_default" "quick_is_empty quick_args_default"
  by (simp_all add: parsed_init_def quick_args_default_def quick_is_empty_def)

lemma plain_command:
  assumes "quick_in_range (quick_of command)" "command \<noteq> Help"
  shows "plain_loop parsed_init (command_words command) = Some (Inr (Some (parsed_of command)))"
  using assms
  by (cases command)
     (auto simp: plain_word plain_values plain_flags plain_end plain_quick written_def parsed_init_def
        split: option.splits)

lemma choose_parsed: "command_ok command \<Longrightarrow> choose_command (parsed_of command) = Inr command"
  by (cases command)
     (auto simp: choose_command_def single_command_def config_command_def no_options_def Let_def parsed_init_def
        quick_ok_def reject_output_and_force_def reject_verbose_def reject_mixed_config_def require_upstream_if_quick_def)

lemma parse_args_ok:
  assumes "parse_args lx s = Some (Inr command)"
  shows "command_ok command"
proof -
  obtain r where "parse_loop lx parsed_init s = Some r"
    "(case r of Inl e \<Rightarrow> Inl e | Inr None \<Rightarrow> Inr Help | Inr (Some p) \<Rightarrow> choose_command p) = Inr command"
    using assms by (auto simp: parse_args_def)
  then show ?thesis using choose_command_ok by (auto split: sum.splits option.splits)
qed


definition sample_command :: command where
  "sample_command = Start None (quick_args_default\<lparr>qa_upstreams := [''doh=dns.test''], qa_timeout_ms := Some 250\<rparr>)"


end
