(* ===== verification/Logger.thy ===== *)
theory Logger
  imports Config_Types Text "HOL-Library.Signed_Division"
begin

text \<open>
  The logger, \<open>src/src/logger.rs\<close>: which records are written, what a line looks like, and the
  calendar behind its timestamps.  The calendar is compared with the rules of the Gregorian one.
\<close>

section \<open>Dates\<close>

text \<open>
  Division of signed machine integers truncates; every value here stays far from overflow.  The
  casts of month and day keep their values, which are at most 12 and 31.
\<close>

definition civil_from_days :: "int \<Rightarrow> int \<times> int \<times> int" where
  "civil_from_days z =
     (let z = z + 719468;
          era = (if 0 \<le> z then z else z - 146096) sdiv 146097;
          doe = z - era * 146097;
          yoe = (doe - doe sdiv 1460 + doe sdiv 36524 - doe sdiv 146096) sdiv 365;
          y = yoe + era * 400;
          doy = doe - (365 * yoe + yoe sdiv 4 - yoe sdiv 100);
          mp = (5 * doy + 2) sdiv 153;
          d = doy - (153 * mp + 2) sdiv 5 + 1;
          m = (if mp < 10 then mp + 3 else mp - 9)
      in (if m \<le> 2 then y + 1 else y, m, d))"

definition zero_padded :: "nat \<Rightarrow> string \<Rightarrow> string" where
  "zero_padded width s = replicate (width - length s) (CHR ''0'') @ s"

definition show_year :: "int \<Rightarrow> string" where
  "show_year y = (if y < 0 then ''-'' @ zero_padded 3 (show_nat (nat (- y))) else zero_padded 4 (show_nat (nat y)))"

text \<open>The clock as whole seconds since 1970 and the milliseconds into the next; the cast to i64 wraps.\<close>

definition timestamp :: "64 word \<Rightarrow> nat \<Rightarrow> string" where
  "timestamp as_secs millis =
     (let secs = sint as_secs; days = secs div 86400; tod = nat (secs mod 86400) in
      case civil_from_days days of (y, m, d) \<Rightarrow>
        show_year y @ ''-'' @ zero_padded 2 (show_nat (nat m)) @ ''-'' @ zero_padded 2 (show_nat (nat d))
        @ ''T'' @ zero_padded 2 (show_nat (tod div 3600)) @ '':'' @ zero_padded 2 (show_nat (tod mod 3600 div 60))
        @ '':'' @ zero_padded 2 (show_nat (tod mod 60)) @ ''.'' @ zero_padded 3 (show_nat millis) @ ''Z'')"

section \<open>The logger\<close>

datatype sink = Stderr | LogFile string

record logger =
  lg_level :: level_filter
  lg_sink :: sink

text \<open>The level of a record is one of the filters other than off.\<close>

record log_record =
  lr_level :: level_filter
  lr_target :: string
  lr_args :: string

fun level_name :: "level_filter \<Rightarrow> string" where
  "level_name LevelOff = ''OFF''"
| "level_name LevelError = ''ERROR''"
| "level_name LevelWarn = ''WARN''"
| "level_name LevelInfo = ''INFO''"
| "level_name LevelDebug = ''DEBUG''"
| "level_name LevelTrace = ''TRACE''"

definition log_enabled :: "logger \<Rightarrow> level_filter \<Rightarrow> bool" where
  "log_enabled l level \<longleftrightarrow> level \<le> lg_level l"

definition log_line :: "string \<Rightarrow> log_record \<Rightarrow> string" where
  "log_line stamp r =
     stamp @ '' '' @ level_name (lr_level r) @ replicate (5 - length (level_name (lr_level r))) (CHR '' '')
     @ '' '' @ lr_target r @ '': '' @ lr_args r @ [CHR 0x0A]"

text \<open>What the sinks hold; a failing write is ignored.\<close>

type_synonym sinks = "sink \<Rightarrow> string"

definition log_write :: "logger \<Rightarrow> (sink \<Rightarrow> string \<Rightarrow> bool) \<Rightarrow> string \<Rightarrow> log_record \<Rightarrow> sinks \<Rightarrow> sinks" where
  "log_write l accepts stamp r out =
     (if \<not> log_enabled l (lr_level r) then out
      else let line = log_line stamp r in
        if accepts (lg_sink l) line then out(lg_sink l := out (lg_sink l) @ line) else out)"

text \<open>Opening the sink and installing the logger, once per process.\<close>

datatype logger_error = CannotOpen string string | AlreadySet

definition logger_init ::
  "(string \<Rightarrow> string option) \<Rightarrow> logger option \<Rightarrow> level_filter \<Rightarrow> string option \<Rightarrow> logger_error + logger"
where
  "logger_init open_error installed level path =
     (case (case path of
              None \<Rightarrow> Inr Stderr
            | Some p \<Rightarrow> (case open_error p of None \<Rightarrow> Inr (LogFile p) | Some e \<Rightarrow> Inl (CannotOpen p e))) of
        Inl e \<Rightarrow> Inl e
      | Inr sink \<Rightarrow> if installed \<noteq> None then Inl AlreadySet else Inr \<lparr>lg_level = level, lg_sink = sink\<rparr>)"

section \<open>The Gregorian calendar\<close>

text \<open>The rules of the calendar, and the day after a date.\<close>

definition leap :: "int \<Rightarrow> bool" where
  "leap y \<longleftrightarrow> 4 dvd y \<and> \<not> 100 dvd y \<or> 400 dvd y"

definition month_days :: "int \<Rightarrow> int \<Rightarrow> int" where
  "month_days y m = (if m = 2 then if leap y then 29 else 28 else if m \<in> {4, 6, 9, 11} then 30 else 31)"

definition next_day :: "int \<times> int \<times> int \<Rightarrow> int \<times> int \<times> int" where
  "next_day = (\<lambda>(y, m, d).
     if d < month_days y m then (y, m, d + 1) else if m < 12 then (y, m + 1, 1) else (y + 1, 1, 1))"

text \<open>A year from March on: the days before it, counted from March of the year 0, and its length.\<close>

definition march_start :: "int \<Rightarrow> int" where
  "march_start y = 365 * y + y div 4 - y div 100 + y div 400"

definition march_length :: "int \<Rightarrow> int" where
  "march_length y = (if leap (y + 1) then 366 else 365)"

definition march_day :: "int \<Rightarrow> int \<times> int" where
  "march_day doy =
     (let mp = (5 * doy + 2) div 153 in
      (if mp < 10 then mp + 3 else mp - 9, doy - (153 * mp + 2) div 5 + 1))"

definition march_date :: "int \<Rightarrow> int \<Rightarrow> int \<times> int \<times> int" where
  "march_date y doy = (if fst (march_day doy) \<le> 2 then y + 1 else y, march_day doy)"

text \<open>The start of a year against the start of the next.\<close>

lemma div_Suc:
  fixes y k :: int
  assumes "0 < k"
  shows "(y + 1) div k = y div k + (if k dvd y + 1 then 1 else 0)"
proof (cases "k dvd y + 1")
  case True
  then obtain j where "y + 1 = k * j" by (elim dvdE)
  then have "y = k * (j - 1) + (k - 1)" by (simp add: algebra_simps)
  then have "y div k = j - 1" by (rule int_div_pos_eq) (use assms in simp_all)
  then show ?thesis using True \<open>y + 1 = k * j\<close> assms by simp
next
  case False
  then have "(y + 1) mod k \<noteq> 0" by (simp add: dvd_eq_mod_eq_0)
  moreover have "0 \<le> (y + 1) mod k" "(y + 1) mod k < k" using assms by simp_all
  moreover have "y = k * ((y + 1) div k) + ((y + 1) mod k - 1)"
    using mult_div_mod_eq [of k "y + 1"] by linarith
  ultimately have "y div k = (y + 1) div k"
    by (intro int_div_pos_eq [of y k _ "(y + 1) mod k - 1"]) linarith+
  then show ?thesis using False by simp
qed

lemma march_start_Suc: "march_start (y + 1) = march_start y + march_length y"
proof -
  have "100 dvd y + 1 \<Longrightarrow> 4 dvd y + 1" "400 dvd y + 1 \<Longrightarrow> 100 dvd y + 1"
    by (auto elim: dvd_trans [rotated])
  then show ?thesis
    unfolding march_start_def march_length_def leap_def
    by (cases "400 dvd y + 1"; cases "100 dvd y + 1"; cases "4 dvd y + 1")
       (simp_all add: div_Suc [of 4] div_Suc [of 100] div_Suc [of 400])
qed

text \<open>The months of a year from March on, by their first and last days.\<close>

lemma month_index: "153 * mp \<le> 5 * doy + 2 \<Longrightarrow> 5 * doy + 2 < 153 * mp + 153 \<Longrightarrow> (5 * doy + 2) div 153 = mp" for mp doy :: int
  by (rule int_div_pos_eq [of _ _ _ "5 * doy + 2 - 153 * mp"]) linarith+

definition months :: "(int \<times> int \<times> int) list" where
  "months = [(3, 0, 30), (4, 31, 60), (5, 61, 91), (6, 92, 121), (7, 122, 152), (8, 153, 183),
     (9, 184, 213), (10, 214, 244), (11, 245, 274), (12, 275, 305), (1, 306, 336), (2, 337, 365)]"

lemma march_day_in:
  assumes "(m, first, final) \<in> set months" "first \<le> doy" "doy \<le> final"
  shows "march_day doy = (m, doy - first + 1)"
proof -
  define mp where "mp = (if m < 3 then m + 9 else m - 3)"
  have "list_all (\<lambda>(m, first, final). let mp = (if m < 3 then m + 9 else m - 3) in
      m = (if mp < 10 then mp + 3 else mp - 9) \<and> first = (153 * mp + 2) div 5
      \<and> 153 * mp \<le> 5 * first + 2 \<and> 5 * final + 2 < 153 * mp + 153) months"
    by code_simp
  then have mp: "m = (if mp < 10 then mp + 3 else mp - 9)" "first = (153 * mp + 2) div 5"
    "153 * mp \<le> 5 * first + 2" "5 * final + 2 < 153 * mp + 153"
    using bspec [OF _ assms(1)] unfolding list_all_iff mp_def Let_def by blast+
  have "(5 * doy + 2) div 153 = mp" by (rule month_index) (use mp(3,4) assms(2,3) in linarith)+
  then show ?thesis using mp(1,2) by (simp add: march_day_def)
qed

lemma months_cover:
  assumes "0 \<le> doy" "doy \<le> 365"
  obtains m first final where "(m, first, final) \<in> set months" "first \<le> doy" "doy \<le> final"
proof -
  consider "doy \<le> 30" | "31 \<le> doy" "doy \<le> 60" | "61 \<le> doy" "doy \<le> 91" | "92 \<le> doy" "doy \<le> 121"
    | "122 \<le> doy" "doy \<le> 152" | "153 \<le> doy" "doy \<le> 183" | "184 \<le> doy" "doy \<le> 213" | "214 \<le> doy" "doy \<le> 244"
    | "245 \<le> doy" "doy \<le> 274" | "275 \<le> doy" "doy \<le> 305" | "306 \<le> doy" "doy \<le> 336" | "337 \<le> doy"
    by linarith
  then show ?thesis using assms by cases (rule that; simp add: months_def; linarith)+
qed

text \<open>From one day to the next within a year, and over its end.\<close>

lemma month_step:
  assumes "(m, first, final) \<in> set months"
  shows "m = 2 \<or> month_days y m = final - first + 1" "m \<noteq> 2 \<longrightarrow> (if m < 12 then m + 1 else 1, final + 1) \<in> (\<lambda>(m, first, final). (m, first)) ` set months"
    "1 \<le> m" "m \<le> 12" "final - first + 1 \<le> 31" "m = 2 \<longleftrightarrow> final = 365" "m = 2 \<longleftrightarrow> first = 337" "first \<le> final" "0 \<le> first" "final \<le> 365"
  using assms by (auto simp: months_def month_days_def)

lemma march_length_cases: "march_length y = 365 \<or> march_length y = 366"
  by (simp add: march_length_def)

lemma march_day_step:
  assumes "0 \<le> doy" "doy + 1 < march_length y"
  shows "march_date y (doy + 1) = next_day (march_date y doy)"
proof -
  have short: "doy + 1 \<le> 365" using assms(2) march_length_cases [of y] by linarith
  then obtain m first final where m: "(m, first, final) \<in> set months" "first \<le> doy" "doy \<le> final"
    using months_cover [of doy] assms(1) by auto
  note t = month_step [OF m(1)] and md = march_day_in [OF m]
  show ?thesis
  proof (cases "doy < final")
    case True
    have "march_day (doy + 1) = (m, doy - first + 2)"
      using march_day_in [OF m(1), of "doy + 1"] m True by simp
    moreover have "doy - first + 1 < month_days (if m \<le> 2 then y + 1 else y) m"
    proof (cases "m = 2")
      case True
      then show ?thesis using t(7) assms(2) by (auto simp: month_days_def march_length_def split: if_splits)
    next
      case False
      then have "month_days (if m \<le> 2 then y + 1 else y) m = final - first + 1" using t(1) by blast
      then show ?thesis using \<open>doy < final\<close> by linarith
    qed
    ultimately show ?thesis by (simp add: march_date_def md next_day_def)
  next
    case False
    then have d: "doy = final" "m \<noteq> 2" using m(3) t(6) short by linarith+
    then have "(if m < 12 then m + 1 else 1, final + 1) \<in> (\<lambda>(m, first, final). (m, first)) ` set months" using t(2) by blast
    then obtain last where l: "(if m < 12 then m + 1 else 1, final + 1, last) \<in> set months" by auto
    from march_day_in [OF l] month_step(8) [OF l] d(1)
    have "march_day (doy + 1) = (if m < 12 then m + 1 else 1, 1)" by simp
    moreover have "month_days (if m \<le> 2 then y + 1 else y) m = final - first + 1" using t(1) d(2) by blast
    moreover have "march_day final = (m, final - first + 1)" using md d(1) by simp
    ultimately show ?thesis using d t(3,4) by (auto simp: march_date_def next_day_def)
  qed
qed

lemma march_year_end:
  assumes "doy + 1 = march_length y"
  shows "march_date (y + 1) 0 = next_day (march_date y doy)"
proof -
  have "(2, 337, 365) \<in> set months" "(3, 0, 30) \<in> set months" by (simp_all add: months_def)
  from march_day_in [OF this(1), of doy] march_day_in [OF this(2), of 0] march_length_cases [of y] assms
  have "march_day doy = (2, doy - 336)" "march_day 0 = (3, 1)" by auto
  then show ?thesis
    using assms by (simp add: march_date_def next_day_def month_days_def march_length_def split: if_splits)
qed

lemma march_date_range:
  assumes "0 \<le> doy" "doy < march_length y"
  shows "case march_date y doy of (y, m, d) \<Rightarrow> 1 \<le> m \<and> m \<le> 12 \<and> 1 \<le> d \<and> d \<le> month_days y m"
proof -
  have "doy \<le> 365" using assms(2) march_length_cases [of y] by linarith
  then obtain m first final where m: "(m, first, final) \<in> set months" "first \<le> doy" "doy \<le> final"
    using months_cover [of doy] assms(1) by auto
  note t = month_step [OF m(1)] and md = march_day_in [OF m]
  have "doy - first + 1 \<le> month_days (if m \<le> 2 then y + 1 else y) m"
  proof (cases "m = 2")
    case True
    then show ?thesis using t(7) assms(2) by (auto simp: month_days_def march_length_def split: if_splits)
  next
    case False
    then have "month_days (if m \<le> 2 then y + 1 else y) m = final - first + 1" using t(1) by blast
    then show ?thesis using m(3) by linarith
  qed
  then show ?thesis using t(3,4) m(2) by (auto simp: march_date_def md)
qed

section \<open>The algorithm\<close>

text \<open>A year of an era is a century, a group of four years and a year; so is a day of an era.\<close>

lemma era_split:
  assumes "0 \<le> yoe" "yoe < (400 :: int)"
  obtains b q k where "yoe = 100 * b + 4 * q + k" "0 \<le> b" "b \<le> 3" "0 \<le> q" "q \<le> 24" "0 \<le> k" "k \<le> 3"
    "yoe div 4 = 25 * b + q" "yoe div 100 = b"
proof -
  define b where "b = yoe div 100"
  define q where "q = yoe mod 100 div 4"
  define k where "k = yoe mod 100 mod 4"
  have y: "yoe = 100 * b + 4 * q + k"
    unfolding b_def q_def k_def by (metis mult_div_mod_eq add.assoc)
  have b: "0 \<le> b" "b \<le> 3" "0 \<le> q" "q \<le> 24" "0 \<le> k" "k \<le> 3"
    using assms pos_mod_bound [of 100 yoe] pos_mod_sign [of 100 yoe] pos_mod_bound [of 4 "yoe mod 100"]
    unfolding b_def q_def k_def by (auto simp: div_int_pos_iff)
  have "yoe = 4 * (25 * b + q) + k" using y by simp
  then have "yoe div 4 = 25 * b + q" by (rule int_div_pos_eq) (use b in simp_all)
  from that [OF y b this] show ?thesis by (simp add: b_def)
qed

lemma leap_dvd: "leap y \<Longrightarrow> 4 dvd y" "leap y \<Longrightarrow> 100 dvd y \<Longrightarrow> 400 dvd y"
  by (auto simp: leap_def elim: dvd_trans [rotated])

lemma year_of_era:
  fixes yoe doy :: int
  assumes y: "0 \<le> yoe" "yoe < 400" and d: "0 \<le> doy" "doy < march_length yoe"
  defines "doe \<equiv> 365 * yoe + yoe div 4 - yoe div 100 + doy"
  shows "(doe - doe div 1460 + doe div 36524 - doe div 146096) div 365 = yoe" "0 \<le> doe" "doe < 146097"
proof -
  obtain b q k where y': "yoe = 100 * b + 4 * q + k" and r: "0 \<le> b" "b \<le> 3" "0 \<le> q" "q \<le> 24" "0 \<le> k" "k \<le> 3"
    and divs: "yoe div 4 = 25 * b + q" "yoe div 100 = b"
    using era_split [OF y] .
  define t where "t = 365 * k + doy"
  have doe: "doe = 36524 * b + 1461 * q + t" unfolding doe_def t_def divs using y' by simp
  have leap: "k = 3 \<and> (q = 24 \<longrightarrow> b = 3)" if "doy = 365"
  proof -
    have "march_length yoe = 366" using that d march_length_cases [of yoe] by linarith
    then have "leap (yoe + 1)" by (simp add: march_length_def split: if_splits)
    then have four: "4 dvd yoe + 1" and hundred: "100 dvd yoe + 1 \<longrightarrow> 400 dvd yoe + 1"
      using leap_dvd by blast+
    have "yoe + 1 = 4 * (25 * b + q) + (k + 1)" using y' by simp
    with four have "4 dvd k + 1" by (metis dvd_add_right_iff dvd_triv_left)
    with r have k: "k = 3" by presburger
    have "b = 3" if "q = 24"
    proof -
      have "yoe + 1 = 100 * (b + 1)" using that k y' by simp
      with hundred have "400 dvd 100 * (b + 1)" by simp
      then have "4 dvd b + 1" by presburger
      with r show ?thesis by presburger
    qed
    with k show ?thesis by blast
  qed
  have d': "doy \<le> 365" using d march_length_cases [of yoe] by linarith
  show "0 \<le> doe" using doe r d(1) t_def by linarith
  have le: "doe \<le> 146095 \<or> b = 3 \<and> q = 24 \<and> t = 1460"
  proof (cases "q = 24")
    case True
    then show ?thesis using doe r d' leap t_def by (cases "doy = 365") linarith+
  next
    case False
    then show ?thesis using doe r d' t_def by linarith
  qed
  then show "doe < 146097" using doe by linarith
  show "(doe - doe div 1460 + doe div 36524 - doe div 146096) div 365 = yoe"
  proof (cases "doe \<le> 146095")
    case True
    have u: "1461 * q + t \<le> 36523"
    proof (cases "q = 24")
      case True
      then show ?thesis using \<open>doe \<le> 146095\<close> doe r d' leap t_def by (cases "doy = 365") linarith+
    qed (use r d' t_def in linarith)
    define e where "e = (24 * b + q + t) div 1460"
    have t0: "0 \<le> t" using r d(1) t_def by linarith
    have e: "e = 0 \<and> 24 * b + q + t < 1460 \<or> e = 1 \<and> 1460 \<le> 24 * b + q + t"
    proof (cases "24 * b + q + t < 1460")
      case True
      then show ?thesis using t0 r by (simp add: e_def div_pos_pos_trivial)
    next
      case False
      have "e = 1" unfolding e_def
        by (rule int_div_pos_eq [of _ _ _ "24 * b + q + t - 1460"]) (use False r d' t_def in linarith)+
      then show ?thesis using False by simp
    qed
    have e2: "0 \<le> 24 * b + q + t - 1460 * e" "24 * b + q + t - 1460 * e < 1460"
      using e t0 r d' t_def by auto
    have "doe div 146096 = 0" using True \<open>0 \<le> doe\<close> by (simp add: div_pos_pos_trivial)
    moreover have "doe div 36524 = b"
      by (rule int_div_pos_eq [of _ _ _ "1461 * q + t"]) (use doe u r t0 in linarith)+
    moreover have "doe div 1460 = 25 * b + q + e"
      using doe by (intro int_div_pos_eq [OF _ e2]) simp
    ultimately have "doe - doe div 1460 + doe div 36524 - doe div 146096 = 365 * yoe + (t - e - 365 * k)"
      using doe y' by simp
    moreover have "0 \<le> t - e - 365 * k \<and> t - e - 365 * k < 365"
      using e
    proof
      assume "e = 0 \<and> 24 * b + q + t < 1460"
      then show ?thesis using leap r d(1) d' t_def by (cases "doy = 365") linarith+
    next
      assume "e = 1 \<and> 1460 \<le> 24 * b + q + t"
      then have "t \<ge> 1364" using r by linarith
      then have "k = 3" using r d' t_def by (cases "k = 2") linarith+
      then show ?thesis using \<open>t \<ge> 1364\<close> \<open>e = 1 \<and> _\<close> t_def d' by linarith
    qed
    ultimately show ?thesis by (simp add: div_pos_pos_trivial)
  next
    case False
    with le doe have "doe = 146096" "b = 3" "q = 24" "t = 1460" by linarith+
    then have "k = 3" using t_def d' r by linarith
    with \<open>doe = 146096\<close> \<open>b = 3\<close> \<open>q = 24\<close> y' show ?thesis by simp
  qed
qed

lemma sdiv_pos: "0 \<le> a \<Longrightarrow> 0 < b \<Longrightarrow> a sdiv b = a div b" for a b :: int
  by (simp add: signed_divide_int_def sgn_if)

text \<open>Eras of 400 years, also before the year 0.\<close>

lemma era_of:
  fixes z :: int
  shows "(if 0 \<le> z then z else z - 146096) sdiv 146097 = z div 146097"
proof (cases "0 \<le> z")
  case True
  then show ?thesis by (simp add: sdiv_pos)
next
  case False
  define n where "n = 146096 - z"
  have n: "0 < n" "z = 146096 - n" using False by (auto simp: n_def)
  have "(z - 146096) sdiv 146097 = - (n div 146097)"
    using n by (simp add: signed_divide_int_def sgn_if)
  also have "\<dots> = z div 146097"
  proof (rule int_div_pos_eq [symmetric, of _ _ _ "146096 - n mod 146097"])
    show "z = 146097 * - (n div 146097) + (146096 - n mod 146097)"
      using n(2) mult_div_mod_eq [of 146097 n] by linarith
  qed (use pos_mod_bound [of 146097 n] pos_mod_sign [of 146097 n] in linarith)+
  finally show ?thesis using False by simp
qed

lemma march_start_era: "march_start (y + 400 * e) = march_start y + 146097 * e"
proof -
  have "(y + 400 * e) div 4 = y div 4 + 100 * e" "(y + 400 * e) div 100 = y div 100 + 4 * e" "(y + 400 * e) div 400 = y div 400 + e"
    using div_mult_self4 by (auto simp: div_add1_eq)
  then show ?thesis by (simp add: march_start_def)
qed

lemma march_length_era: "march_length (y + 400 * e) = march_length y"
proof -
  have "k dvd y + 400 * e + 1 \<longleftrightarrow> k dvd y + 1" if "k dvd 400" for k
  proof -
    have "k dvd 400 * e" using that by simp
    then show ?thesis using dvd_add_left_iff [of k "400 * e" "y + 1"] by (simp add: ac_simps)
  qed
  then show ?thesis by (simp add: march_length_def leap_def)
qed

lemma civil_march:
  assumes "0 \<le> doy" "doy < march_length y"
  shows "civil_from_days (march_start y + doy - 719468) = march_date y doy"
proof -
  define e where "e = y div 400"
  define yoe where "yoe = y mod 400"
  have y: "y = yoe + 400 * e" "0 \<le> yoe" "yoe < 400" by (simp_all add: e_def yoe_def)
  define doe where "doe = 365 * yoe + yoe div 4 - yoe div 100 + doy"
  have l: "doy < march_length yoe" using assms(2) unfolding y(1) march_length_era .
  note Y = year_of_era [OF y(2,3) assms(1) l, folded doe_def]
  have z: "march_start y + doy = 146097 * e + doe"
    unfolding y(1) march_start_era using y(2,3) by (simp add: march_start_def doe_def)
  have era: "(146097 * e + doe) div 146097 = e" using Y(2,3) by simp
  have nn: "0 \<le> doe - doe div 1460 + doe div 36524 - doe div 146096"
    using Y(1) y(2) Y(2) by (metis div_int_pos_iff not_less pos_imp_zdiv_neg_iff zero_less_numeral)
  have doy: "doe - (365 * yoe + yoe div 4 - yoe div 100) = doy" by (simp add: doe_def)
  have 1: "(doe - doe sdiv 1460 + doe sdiv 36524 - doe sdiv 146096) sdiv 365 = yoe"
    using Y(1,2) nn by (simp add: sdiv_pos)
  have 2: "doe - (365 * yoe + yoe sdiv 4 - yoe sdiv 100) = doy"
    using y(2) doy by (simp add: sdiv_pos)
  have 3: "(5 * doy + 2) sdiv 153 = (5 * doy + 2) div 153"
    "(153 * ((5 * doy + 2) div 153) + 2) sdiv 5 = (153 * ((5 * doy + 2) div 153) + 2) div 5"
    using assms(1) by (simp_all add: sdiv_pos)
  have 4: "146097 * e + doe - e * 146097 = doe" "yoe + e * 400 = y" using y(1) by simp_all
  show ?thesis
    unfolding civil_from_days_def Let_def diff_add_cancel z era_of era 4 1 2 3
    by (simp add: march_date_def march_day_def Let_def)
qed

lemma march_decompose:
  obtains y doy where "0 \<le> doy" "doy < march_length y" "z = march_start y + doy - 719468"
proof -
  have "\<exists>y doy. 0 \<le> doy \<and> doy < march_length y \<and> z = march_start y + doy - 719468"
  proof (induction z rule: int_induct [where k = 0])
    case base
    show ?case by (intro exI [of _ 1969] exI [of _ 306]) (simp add: march_start_def march_length_def)
  next
    case (step1 z)
    then obtain y doy where d: "0 \<le> doy" "doy < march_length y" "z = march_start y + doy - 719468" by blast
    show ?case
    proof (cases "doy + 1 < march_length y")
      case True
      then show ?thesis using d by (intro exI [of _ y] exI [of _ "doy + 1"]) simp
    next
      case False
      then show ?thesis using d march_length_cases [of "y + 1"]
        by (intro exI [of _ "y + 1"] exI [of _ 0]) (auto simp: march_start_Suc)
    qed
  next
    case (step2 z)
    then obtain y doy where d: "0 \<le> doy" "doy < march_length y" "z = march_start y + doy - 719468" by blast
    show ?case
    proof (cases "doy = 0")
      case False
      then show ?thesis using d by (intro exI [of _ y] exI [of _ "doy - 1"]) simp
    next
      case True
      then show ?thesis using d march_length_cases [of "y - 1"] march_start_Suc [of "y - 1"]
        by (intro exI [of _ "y - 1"] exI [of _ "march_length (y - 1) - 1"]) auto
    qed
  qed
  then show ?thesis using that by blast
qed

section \<open>Properties of dates\<close>

text \<open>C39: The dates of the log lines are those of the Gregorian calendar: day 0 is the first of January
  1970, and each following day is the next day of the calendar, at every number of days, before
  1970 too.  Month and day stay in their ranges, so the casts to u32 lose nothing.\<close>

theorem civil_is_calendar:
  "civil_from_days 0 = (1970, 1, 1) \<and> civil_from_days (z + 1) = next_day (civil_from_days z)
     \<and> (case civil_from_days z of (y, m, d) \<Rightarrow> 1 \<le> m \<and> m \<le> 12 \<and> 1 \<le> d \<and> d \<le> month_days y m)"
proof -
  obtain y doy where d: "0 \<le> doy" "doy < march_length y" "z = march_start y + doy - 719468"
    by (rule march_decompose)
  have c: "civil_from_days z = march_date y doy" using civil_march [OF d(1,2)] d(3) by simp
  have "civil_from_days 0 = (1970, 1, 1)" by code_simp
  moreover have "civil_from_days (z + 1) = next_day (civil_from_days z)"
  proof (cases "doy + 1 < march_length y")
    case True
    have "z + 1 = march_start y + (doy + 1) - 719468" using d(3) by simp
    moreover have "0 \<le> doy + 1" using d(1) by simp
    ultimately show ?thesis using civil_march [OF _ True] march_day_step [OF d(1) True] c by metis
  next
    case False
    then have l: "doy + 1 = march_length y" using d(2) by simp
    then have z: "z + 1 = march_start (y + 1) + 0 - 719468" using d(3) by (simp add: march_start_Suc)
    have "civil_from_days (march_start (y + 1) + 0 - 719468) = march_date (y + 1) 0"
      by (rule civil_march) (use march_length_cases [of "y + 1"] in auto)
    then show ?thesis by (simp only: z march_year_end [OF l] c)
  qed
  moreover have "case march_date y doy of (y, m, d) \<Rightarrow> 1 \<le> m \<and> m \<le> 12 \<and> 1 \<le> d \<and> d \<le> month_days y m"
    by (rule march_date_range [OF d(1,2)])
  ultimately show ?thesis by (simp add: c)
qed

end
