(* ===== verification/Program.thy ===== *)
theory Program
  imports Service Cli Logger Watchdog Proxy
begin

text \<open>
  The program as a whole, \<open>src/src/main.rs\<close>, and the start-up of the daemon, \<open>serve\<close> of
  \<open>src/src/proxy/mod.rs\<close>: from the parsed command to the exit code.  The life of a started daemon,
  which theories Proxy and Watchdog model, is an argument.
\<close>

section \<open>Starting the daemon\<close>

record 'c daemon =
  dm_server :: "'c server"
  dm_listeners :: "socket_addr list"
  dm_watchdog :: "ip_addr option"

fun serve_bind :: "'o control \<Rightarrow> socket_addr list \<Rightarrow> ('o, unit) io" where
  "serve_bind c [] = io_return ()"
| "serve_bind c (a # rest) =
     io_bind (io_step ''bind udp'' (ct_bind_udp c a)) (\<lambda>_.
     io_bind (io_step ''bind tcp'' (ct_bind_tcp c a)) (\<lambda>_. serve_bind c rest))"

definition serve_setup :: "'o control \<Rightarrow> 'c entries_ops \<Rightarrow> config \<Rightarrow> ('o, 'c daemon) io" where
  "serve_setup c ops cf =
     io_bind (io_try (fallback_servers (ct_dns c) (cf_listeners cf))) (\<lambda>system.
       case manager_new (cf_upstreams cf) (cf_listeners cf) (case system of Inr servers \<Rightarrow> servers | Inl _ \<Rightarrow> []) of
         Inl e \<Rightarrow> io_fail (Refused ''upstream'')
       | Inr manager \<Rightarrow>
           io_bind (serve_bind c (cf_listeners cf)) (\<lambda>_.
             io_return \<lparr>dm_server = server_init
                 (cache_new ops (sv_cache_enable (cf_service cf)) (sv_cache_size (cf_service cf))) manager,
               dm_listeners = cf_listeners cf,
               dm_watchdog = (case takeover_address (cf_listeners cf) of Inr ip \<Rightarrow> Some ip | Inl _ \<Rightarrow> None)\<rparr>))"

text \<open>The sockets and tasks are gone when it returns.\<close>

definition serve :: "'o control \<Rightarrow> 'c entries_ops \<Rightarrow> ('c daemon \<Rightarrow> ('o, unit) io) \<Rightarrow> config \<Rightarrow> ('o, unit) io" where
  "serve c ops life cf = (\<lambda>os. case io_bind (serve_setup c ops cf) life os of (r, os) \<Rightarrow> (r, ct_unbind c os))"

section \<open>Configurations\<close>

definition quick_text :: "'o control \<Rightarrow> quick_args \<Rightarrow> os_error + string option" where
  "quick_text c q =
     (if quick_is_empty q then Inr None
      else map_sum (\<lambda>e. Refused ''quick configuration'') Some
        (quick_toml (ct_toml c) (qa_listeners q) (qa_upstreams q) (qa_timeout_ms q) (qa_cache_size q) (qa_no_cache q)))"

fun first_file :: "'o control \<Rightarrow> string list \<Rightarrow> 'o \<Rightarrow> string option" where
  "first_file c [] os = None"
| "first_file c (p # ps) os = (if h_is_file (ct_host c) p os then Some p else first_file c ps os)"

definition resolve_config_path :: "'o control \<Rightarrow> string option \<Rightarrow> ('o, string) io" where
  "resolve_config_path c explicit =
     (case explicit of
        Some path \<Rightarrow>
          io_bind (io_check (h_is_file (ct_host c) path)) (\<lambda>file.
            if file then io_return path else io_fail (Refused ''config file not found''))
      | None \<Rightarrow>
          io_bind (io_check (first_file c [''dnsrivet.toml'', CONFIG_PATH])) (\<lambda>found.
            case found of Some path \<Rightarrow> io_return path | None \<Rightarrow> io_fail (Refused ''no config file found'')))"

definition write_local_config :: "'o control \<Rightarrow> string \<Rightarrow> string \<Rightarrow> bool \<Rightarrow> ('o, unit) io" where
  "write_local_config c path text force =
     io_bind (io_check (ct_inspect c path)) (\<lambda>kind.
       if (case kind of Symlink _ \<Rightarrow> True | NotALink \<Rightarrow> True | _ \<Rightarrow> False) \<and> \<not> force
       then io_fail (Refused ''refusing to replace'')
       else
     io_bind (io_check (ct_is_dir c (case path_parent path of Some d \<Rightarrow> if d = [] then ''.'' else d | None \<Rightarrow> ''.''))) (\<lambda>dir.
       if \<not> dir then io_fail (Refused ''config destination directory does not exist'')
       else io_context ''install config'' (atomic_write (ct_fs c) path 384 (write_text (ct_fs c) text))))"

text \<open>\<open>Panic\<close> is the failed expectation that there are quick options.\<close>

definition config_init :: "'o control \<Rightarrow> string \<Rightarrow> bool \<Rightarrow> quick_args \<Rightarrow> 'o \<Rightarrow> (os_error + unit) run \<times> 'o" where
  "config_init c path force q os =
     (case quick_text c q of
        Inl e \<Rightarrow> (Ret (Inl e), os)
      | Inr None \<Rightarrow> (Panic, os)
      | Inr (Some text) \<Rightarrow> (case write_local_config c path text force os of (r, os) \<Rightarrow> (Ret r, os)))"

definition config_check :: "'o control \<Rightarrow> string option \<Rightarrow> ('o, string \<times> nat \<times> nat \<times> warning list) io" where
  "config_check c explicit =
     io_bind (resolve_config_path c explicit) (\<lambda>path.
     io_bind (io_context path (config_load c path)) (\<lambda>loaded.
       io_return (path, length (cf_listeners (ld_config loaded)), length (cf_upstreams (ld_config loaded)), ld_warnings loaded)))"

section \<open>Running in the foreground\<close>

text \<open>The configuration of a run and where it came from, \<open>None\<close> for the command line.\<close>

definition run_config :: "'o control \<Rightarrow> string option \<Rightarrow> quick_args \<Rightarrow> ('o, loaded \<times> string option) io" where
  "run_config c config q =
     (case quick_text c q of
        Inl e \<Rightarrow> io_fail e
      | Inr (Some text) \<Rightarrow> io_bind (io_of (config_of_text c text)) (\<lambda>loaded. io_return (loaded, None))
      | Inr None \<Rightarrow>
          io_bind (resolve_config_path c config) (\<lambda>path.
          io_bind (io_context path (config_load c path)) (\<lambda>loaded. io_return (loaded, Some path))))"

definition run_level :: "bool \<Rightarrow> loaded \<Rightarrow> level_filter" where
  "run_level verbose loaded = (if verbose then LevelDebug else sv_log_level (cf_service (ld_config loaded)))"

definition run_daemon ::
  "'o control \<Rightarrow> 'c entries_ops \<Rightarrow> (logger \<Rightarrow> 'c daemon \<Rightarrow> ('o, unit) io) \<Rightarrow> string option \<Rightarrow> bool \<Rightarrow> quick_args \<Rightarrow> ('o, unit) io"
where
  "run_daemon c ops life config verbose q =
     io_bind (run_config c config q) (\<lambda>(loaded, origin).
     io_bind (\<lambda>os. (map_sum (\<lambda>e. Refused ''logger'') id
         (logger_init (\<lambda>p. ct_open_log c p os) None (run_level verbose loaded) (sv_log_path (cf_service (ld_config loaded)))), os)) (\<lambda>logger.
     io_bind (io_check (ct_runtime c)) (\<lambda>failed.
       case failed of
         Some e \<Rightarrow> io_fail (IoError ''failed to build tokio runtime'' e)
       | None \<Rightarrow> serve c ops (life logger) (ld_config loaded))))"

section \<open>The exit code\<close>

datatype exit_code = ExitSuccess | ExitFailure | ExitUsage

definition service_result :: "(os_error + 'a) \<times> 'o \<Rightarrow> exit_code run \<times> 'o" where
  "service_result r = (case r of (Inr _, os) \<Rightarrow> (Ret ExitSuccess, os) | (Inl _, os) \<Rightarrow> (Ret ExitFailure, os))"

definition with_quick :: "'o control \<Rightarrow> quick_args \<Rightarrow> (string option \<Rightarrow> ('o, 'a) io) \<Rightarrow> ('o, 'a) io" where
  "with_quick c q f = io_bind (io_of (quick_text c q)) f"

definition main_exit ::
  "'o control \<Rightarrow> 'c entries_ops \<Rightarrow> (logger \<Rightarrow> 'c daemon \<Rightarrow> ('o, unit) io) \<Rightarrow> cli_error + command \<Rightarrow> 'o \<Rightarrow> exit_code run \<times> 'o"
where
  "main_exit c ops life cmd os =
     (case cmd of
        Inl e \<Rightarrow> (Ret ExitUsage, os)
      | Inr Help \<Rightarrow> (Ret ExitSuccess, os)
      | Inr Version \<Rightarrow> (Ret ExitSuccess, os)
      | Inr (Run config verbose q) \<Rightarrow> service_result (run_daemon c ops life config verbose q os)
      | Inr (Start config q) \<Rightarrow> service_result (with_quick c q (start c config) os)
      | Inr Stop \<Rightarrow> service_result (stop c os)
      | Inr (Restart config q) \<Rightarrow> service_result (with_quick c q (restart c config) os)
      | Inr Status \<Rightarrow> service_result (status c os)
      | Inr Uninstall \<Rightarrow> service_result (uninstall c os)
      | Inr (ConfigInit path force q) \<Rightarrow>
          (case config_init c path force q os of
             (Panic, os) \<Rightarrow> (Panic, os) | (Ret r, os) \<Rightarrow> service_result (r, os))
      | Inr (ConfigCheck config) \<Rightarrow> service_result (config_check c config os))"

end
