(* ===== verification/Program_Facts.thy ===== *)
theory Program_Facts
  imports Program Service_Reference
begin

text \<open>Facts on the whole program that its properties rest on: the start-up of the daemon and the
  commands that write and read configurations.\<close>

section \<open>The takeover address\<close>

lemma takeover_address_Inr:
  "takeover_address listeners = Inr ip \<Longrightarrow> \<exists>a \<in> set listeners. sock_port a = 53 \<and> sock_ip a = ip \<and> is_loopback ip"
  by (auto simp: takeover_address_def find_Some_iff split: option.splits)

lemma takeover_address_ipv4:
  "takeover_address listeners = Inr ip \<Longrightarrow> a \<in> set listeners \<Longrightarrow> sock_port a = 53 \<Longrightarrow> is_loopback (sock_ip a) \<Longrightarrow> is_ipv4 a
     \<Longrightarrow> \<exists>b \<in> set listeners. is_ipv4 b \<and> sock_ip b = ip"
  by (auto simp: takeover_address_def find_Some_iff find_None_iff split: option.splits)

lemma takeover_address_Inl:
  "isl (takeover_address listeners) \<longleftrightarrow> (\<forall>a \<in> set listeners. sock_port a = 53 \<longrightarrow> \<not> is_loopback (sock_ip a))"
  by (auto simp: takeover_address_def find_Some_iff find_None_iff split: option.splits)

section \<open>Starting the daemon\<close>

lemma serve_bind_unit: "serve_bind c listeners os = (Inr u, os') \<Longrightarrow> u = ()"
  by simp

lemma serve_setup_ok:
  assumes "serve_setup c ops cf os = (Inr dm, os')"
  obtains servers manager where "manager_new (cf_upstreams cf) (cf_listeners cf) servers = Inr manager"
    "servers = [] \<or> (\<exists>os1. fallback_servers (ct_dns c) (cf_listeners cf) os = (Inr servers, os1))"
    "dm = \<lparr>dm_server = server_init (cache_new ops (sv_cache_enable (cf_service cf)) (sv_cache_size (cf_service cf))) manager,
       dm_listeners = cf_listeners cf,
       dm_watchdog = (case takeover_address (cf_listeners cf) of Inr ip \<Rightarrow> Some ip | Inl _ \<Rightarrow> None)\<rparr>"
proof -
  obtain r os1 where r: "fallback_servers (ct_dns c) (cf_listeners cf) os = (r, os1)" by fastforce
  define servers where "servers = (case r of Inr servers \<Rightarrow> servers | Inl _ \<Rightarrow> [])"
  have s: "servers = [] \<or> (\<exists>os1. fallback_servers (ct_dns c) (cf_listeners cf) os = (Inr servers, os1))"
    using r by (auto simp: servers_def split: sum.split)
  obtain manager where m: "manager_new (cf_upstreams cf) (cf_listeners cf) servers = Inr manager"
    and rest: "io_bind (serve_bind c (cf_listeners cf)) (\<lambda>_.
             io_return \<lparr>dm_server = server_init
                 (cache_new ops (sv_cache_enable (cf_service cf)) (sv_cache_size (cf_service cf))) manager,
               dm_listeners = cf_listeners cf,
               dm_watchdog = (case takeover_address (cf_listeners cf) of Inr ip \<Rightarrow> Some ip | Inl _ \<Rightarrow> None)\<rparr>) os1 = (Inr dm, os')"
    using assms r by (auto simp: serve_setup_def io_bind_try io_fail_def servers_def split: sum.splits)
  from rest have "dm = \<lparr>dm_server = server_init
                 (cache_new ops (sv_cache_enable (cf_service cf)) (sv_cache_size (cf_service cf))) manager,
               dm_listeners = cf_listeners cf,
               dm_watchdog = (case takeover_address (cf_listeners cf) of Inr ip \<Rightarrow> Some ip | Inl _ \<Rightarrow> None)\<rparr>"
    by (auto simp: io_bind_Inr io_return_def)
  with m s show ?thesis using that by blast
qed

section \<open>Commands\<close>

lemma config_bytes_requested:
  "config_path \<noteq> None \<or> generated \<noteq> None \<Longrightarrow> fst (config_bytes c config_path generated os) \<noteq> Inr None"
  by (auto simp: config_bytes_def io_bind_def io_return_def io_fail_def io_check_def split: option.splits prod.splits sum.splits)

lemma quick_text_None: "quick_text c q = Inr None \<longleftrightarrow> quick_is_empty q"
  by (auto simp: quick_text_def map_sum_Inr_iff)

lemma service_result_runs [simp]: "fst (service_result r) \<noteq> Panic" "fst (service_result r) \<noteq> Ret ExitUsage"
  by (auto simp: service_result_def split: prod.split sum.split)

lemma main_exit_runs:
  assumes "\<And>command. cmd = Inr command \<Longrightarrow> command_ok command"
  shows "fst (main_exit c ops life cmd os) \<noteq> Panic \<and> (fst (main_exit c ops life cmd os) = Ret ExitUsage \<longleftrightarrow> isl cmd)"
proof (cases cmd)
  case (Inr command)
  have i: "fst (config_init c path force q os) \<noteq> Panic" if "command = ConfigInit path force q" for path force q
    using assms [OF Inr] that quick_text_None [of c q]
    by (auto simp: config_init_def split: sum.split option.split prod.split)
  show ?thesis
    using i Inr
    by (cases command) (auto simp: main_exit_def split: prod.splits run.splits)
qed (simp add: main_exit_def)

lemma write_local_config_cases:
  assumes "write_local_config c path content force os = (r, os')"
  shows "(isl r \<and> os' = os) \<or>
     (force \<or> ct_inspect c path os = Missing \<or> (\<exists>e. ct_inspect c path os = Uninspectable e)) \<and>
     (\<exists>w. atomic_write (ct_fs c) path 384 (write_text (ct_fs c) content) os = (w, os') \<and> (isl w \<longleftrightarrow> isl r))"
proof -
  have inner: "\<exists>w. m os = (w, os') \<and> (isl w \<longleftrightarrow> isl r)" if "io_context action m os = (r, os')" for action m
    using that by (auto simp: io_context_def split: prod.splits sum.splits)
  show ?thesis
    using assms
    by (cases "ct_inspect c path os")
       (auto simp: write_local_config_def io_bind_check io_fail_def dest: inner split: if_splits)
qed

lemma config_init_written:
  assumes fs: "file_system (ct_fs c) files" and go: "config_init c path force q os = (Ret r, os')"
    and free: "files os path \<noteq> None \<or> (\<forall>dir pid nonce a. temporary_path dir pid nonce a \<noteq> path)"
  shows "if isl r then files os' path = files os path
     else (force \<or> ct_inspect c path os = Missing \<or> (\<exists>e. ct_inspect c path os = Uninspectable e))
       \<and> (\<exists>text loaded. files os' path = Some text \<and> load_text (ct_toml c) text = Inr loaded
            \<and> quick_toml (ct_toml c) (qa_listeners q) (qa_upstreams q) (qa_timeout_ms q) (qa_cache_size q) (qa_no_cache q) = Inr text)"
proof -
  have keep: "files os' path = files os path" if "quick_text c q = Inl e" for e
    using go that by (simp add: config_init_def)
  show ?thesis
  proof (cases "quick_text c q")
    case (Inl e)
    then show ?thesis using go keep by (auto simp: config_init_def)
  next
    case (Inr given)
    then obtain content where t: "given = Some content" "write_local_config c path content force os = (r, os')"
      using go by (auto simp: config_init_def split: option.splits prod.splits)
    have q: "quick_toml (ct_toml c) (qa_listeners q) (qa_upstreams q) (qa_timeout_ms q) (qa_cache_size q) (qa_no_cache q) = Inr content"
      using Inr t(1) by (auto simp: quick_text_def map_sum_Inr_iff split: if_splits)
    then have l: "\<exists>loaded. load_text (ct_toml c) content = Inr loaded"
      by (auto simp: quick_toml_def map_sum_Inr_iff split: sum.splits)
    from write_local_config_cases [OF t(2)] show ?thesis
    proof
      assume "isl r \<and> os' = os"
      then show ?thesis by simp
    next
      assume "(force \<or> ct_inspect c path os = Missing \<or> (\<exists>e. ct_inspect c path os = Uninspectable e)) \<and>
        (\<exists>w. atomic_write (ct_fs c) path 384 (write_text (ct_fs c) content) os = (w, os') \<and> (isl w \<longleftrightarrow> isl r))"
      then obtain w where w: "atomic_write (ct_fs c) path 384 (write_text (ct_fs c) content) os = (w, os')" "isl w \<longleftrightarrow> isl r"
        and k: "force \<or> ct_inspect c path os = Missing \<or> (\<exists>e. ct_inspect c path os = Uninspectable e)" by blast
      note A = file_system.atomic_write_spec [OF fs file_system.write_text_writes [OF fs] free w(1)]
      show ?thesis using A w(2) k q l by (cases "isl r") auto
    qed
  qed
qed

end
