(* ===== verification/Daemon.thy ===== *)
theory Daemon
  imports Proxy
begin

text \<open>
  The data path as a whole: the listener machine of theory Proxy over upstreams that are reached
  through the network, \<open>Entry::run\<close> and \<open>forward_to_system\<close> of \<open>src/src/upstream/mod.rs\<close> with the
  exchanges of \<open>src/src/upstream/legacy.rs\<close>.  Nothing is assumed of what the network, the bootstrap
  resolver and the encrypted channels answer; the lemmas trace each reply to where it came from.
\<close>

section \<open>Upstreams over the network\<close>

text \<open>
  What one attempt meets: addresses, the sockets of each exchange, the parsed request, the
  encrypted channel, and when the attempt ends in milliseconds after its start.
\<close>

record attempt_net =
  an_resolve :: "string \<Rightarrow> ip_stack \<Rightarrow> string + ip_addr list"
  an_udp :: "socket_addr \<Rightarrow> udp_net"
  an_tcp :: "socket_addr \<Rightarrow> tcp_net"
  an_from_vec :: "bytes \<Rightarrow> string + message_view"
  an_channel :: "upstream \<Rightarrow> message_view \<Rightarrow> (string + bytes) option"
  an_done_after :: nat

definition network_env :: "attempt_net \<Rightarrow> bytes \<Rightarrow> bool \<Rightarrow> attempt_env" where
  "network_env net query client_tcp =
     \<lparr>ae_resolve = an_resolve net,
      ae_legacy = (\<lambda>addr. legacy_query (an_udp net addr) (an_tcp net addr) query client_tcp),
      ae_from_vec = an_from_vec net, ae_channel = an_channel net\<rparr>"

text \<open>\<open>Entry::run\<close> on the \<open>i\<close>th upstream; \<open>None\<close> while it is still waiting.\<close>

definition run_upstream :: "manager \<Rightarrow> nat \<Rightarrow> attempt_net \<Rightarrow> bytes \<Rightarrow> bool \<Rightarrow> (attempt_error + bytes) option" where
  "run_upstream m i net query client_tcp =
     Option.bind (get (mg_entries m) i) (\<lambda>entry.
       entry_run entry
         (attempt (network_env net query client_tcp) (mg_deny m) (en_backend entry) (request_new query))
         (an_done_after net))"

datatype net_event =
  NetTurn nat nat bool
| NetDone nat attempt_net
| NetAborted nat
| NetTimer nat

fun race_event :: "manager \<Rightarrow> bytes \<Rightarrow> bool \<Rightarrow> net_event \<Rightarrow> event option" where
  "race_event m query client_tcp (NetTurn now started permit) = Some (Turn now started permit)"
| "race_event m query client_tcp (NetDone i net) =
     map_option (Completed i) (run_upstream m i net query client_tcp)"
| "race_event m query client_tcp (NetAborted i) = Some (Aborted i)"
| "race_event m query client_tcp (NetTimer now) = Some (HedgeTimer now)"

text \<open>A server of the system fallback has two seconds.\<close>

definition ask_system :: "(socket_addr \<Rightarrow> udp_net \<times> tcp_net \<times> nat) \<Rightarrow> bytes \<Rightarrow> bool \<Rightarrow> socket_addr \<Rightarrow> fallback_outcome" where
  "ask_system net query client_tcp server =
     (case net server of (udp, tcp, done_after) \<Rightarrow>
       case legacy_query udp tcp query client_tcp of
         None \<Rightarrow> FbTimeout
       | Some r \<Rightarrow>
           if done_after > 2000 then FbTimeout
           else case r of Inl e \<Rightarrow> FbError e | Inr response \<Rightarrow> FbAnswer response)"

record forward_net =
  fn_permit :: bool
  fn_single :: attempt_net
  fn_race :: "net_event list"
  fn_system_permit :: bool
  fn_system :: "socket_addr \<Rightarrow> udp_net \<times> tcp_net \<times> nat"

definition net_env :: "manager \<Rightarrow> bool \<Rightarrow> forward_net \<Rightarrow> bytes \<Rightarrow> forward_env" where
  "net_env m client_tcp net query =
     \<lparr>fe_permit = fn_permit net,
      fe_result = (case run_upstream m 0 (fn_single net) query client_tcp of Some r \<Rightarrow> r | None \<Rightarrow> Inl NoAddresses),
      fe_events = List.map_filter (race_event m query client_tcp) (fn_race net),
      fe_system_permit = fn_system_permit net,
      fe_system = ask_system (fn_system net) query client_tcp\<rparr>"

text \<open>The only upstream has not answered yet.\<close>

definition still_waiting :: "manager \<Rightarrow> bool \<Rightarrow> forward_net \<Rightarrow> bytes \<Rightarrow> bool" where
  "still_waiting m client_tcp net query \<longleftrightarrow>
     length (mg_entries m) = 1 \<and> fn_permit net \<and> run_upstream m 0 (fn_single net) query client_tcp = None"

section \<open>The daemon\<close>

datatype daemon_event =
  Traffic listener_event
| Answered nat forward_net nat bool

fun over_tcp :: "client \<Rightarrow> bool" where
  "over_tcp (UdpPeer _) = False"
| "over_tcp (TcpConn _) = True"

text \<open>Answers come from the network only: a listener event that brings one is not traffic.\<close>

fun daemon_step :: "'c entries_ops \<Rightarrow> daemon_event \<Rightarrow> 'c server \<Rightarrow> 'c server run" where
  "daemon_step ops (Traffic e) sv =
     (case e of Forwarded _ _ _ _ \<Rightarrow> Ret sv | _ \<Rightarrow> server_step ops e sv)"
| "daemon_step ops (Answered i net now write_ok) sv =
     (case get (sv_tasks sv) i of
        None \<Rightarrow> Ret sv
      | Some t \<Rightarrow>
          if still_waiting (sv_manager sv) (over_tcp (tk_client t)) net (tk_query t) then Ret sv
          else task_finish ops i (net_env (sv_manager sv) (over_tcp (tk_client t)) net) now write_ok sv)"

definition daemon_run :: "'c entries_ops \<Rightarrow> daemon_event list \<Rightarrow> 'c server \<Rightarrow> 'c server run" where
  "daemon_run ops events sv = fold_run (daemon_step ops) events sv"

section \<open>Whatever the network answers, only answers to the question come back\<close>

lemma run_upstream_sound: "run_upstream m i net query client_tcp = Some r \<Longrightarrow> sound_result query r"
proof -
  have *: "sound_result query a"
    if "attempt (network_env net query client_tcp) deny be (request_new query) = Some a" for deny be a
    using legacy.attempt_sound [OF _ that, of "an_udp net" "an_tcp net" client_tcp]
    by (simp add: network_env_def request_new_def)
  show "run_upstream m i net query client_tcp = Some r \<Longrightarrow> sound_result query r"
    by (auto simp: run_upstream_def bind_eq_Some_conv intro: entry_run_sound dest: *)
qed

lemma net_env_sound: "sound_env query (net_env m client_tcp net query)"
proof -
  have "sound_event query e" if "race_event m query client_tcp n = Some e" for n e
    using that by (cases n) (auto simp: sound_event_def intro: run_upstream_sound)
  moreover have "answers query r" if "ask_system f query client_tcp s = FbAnswer r" for f s r
    using that by (auto simp: ask_system_def dest: legacy_query_ok split: prod.splits option.splits sum.splits if_splits)
  ultimately show ?thesis
    using run_upstream_sound [of m 0 "fn_single net" query client_tcp]
    by (auto simp: sound_env_def net_env_def List.map_filter_def sound_result_def [of _ "Inl _"] split: option.split)
qed

section \<open>Where a reply comes from\<close>

text \<open>A message aged by \<open>n\<close> seconds in all, in as many rounds as it was looked up.\<close>

inductive aged_copy :: "bytes \<Rightarrow> nat \<Rightarrow> bytes \<Rightarrow> bool" where
  fresh: "aged_copy m 0 m"
| older: "aged_copy m n m' \<Longrightarrow> adjust_ttls m' secs = (True, m'') \<Longrightarrow> aged_copy m (n + secs) m''"

text \<open>An entry is an accepted answer to a query with its key, aged by what its lifetime has lost.\<close>

definition entry_from :: "query_key \<Rightarrow> entry \<Rightarrow> bool" where
  "entry_from k e \<longleftrightarrow> (\<exists>asked meta answer ttl n. parse_query_meta asked = Some meta \<and> key meta = k
     \<and> good_reply asked answer \<and> cache_ttl answer (qtype k) = Some ttl
     \<and> aged_copy (0 # 0 # drop 2 answer) n (e_response e) \<and> n + unat (e_ttl e) = unat ttl)"

definition cached_reply :: "bytes \<Rightarrow> bytes \<Rightarrow> bool" where
  "cached_reply query full \<longleftrightarrow> (\<exists>asked meta meta' answer ttl n m.
     parse_query_meta query = Some meta \<and> parse_query_meta asked = Some meta' \<and> key meta' = key meta
     \<and> good_reply asked answer \<and> cache_ttl answer (qtype (key meta)) = Some ttl \<and> n < unat ttl
     \<and> aged_copy (0 # 0 # drop 2 answer) n m \<and> full = take 2 query @ drop 2 m)"

text \<open>An error made here, an accepted answer to this very query, or a cached one that is still alive.\<close>

definition authentic :: "bytes \<Rightarrow> bytes \<Rightarrow> bool" where
  "authentic query full \<longleftrightarrow> is_multi_question_query query \<and> formerr query = Ret full
     \<or> full = servfail query \<or> good_reply query full \<or> cached_reply query full"

definition sent :: "client \<Rightarrow> bytes \<Rightarrow> bytes \<Rightarrow> bytes" where
  "sent client query full =
     (case client of UdpPeer _ \<Rightarrow> truncate_to full (udp_payload_size query) | TcpConn _ \<Rightarrow> take 65535 full)"

definition log_from :: "client \<times> bytes \<times> bytes \<Rightarrow> bool" where
  "log_from = (\<lambda>(client, query, reply). \<exists>full. authentic query full \<and> reply = sent client query full)"

definition origin_inv :: "('c \<Rightarrow> query_key \<rightharpoonup> entry) \<Rightarrow> 'c server \<Rightarrow> bool" where
  "origin_inv view sv \<longleftrightarrow> (\<forall>k e. cached view (sv_cache sv) k = Some e \<longrightarrow> entry_from k e)
     \<and> (\<forall>l \<in> set (sv_log sv). log_from l)"

lemma send_reply_origin:
  assumes "origin_inv view sv" "authentic (tk_query t) r" "meta_of (tk_query t) meta"
  shows "origin_inv view (send_reply i t meta r write_ok sv)"
proof -
  have "log_from (tk_client t, tk_query t, sent (tk_client t) (tk_query t) r)"
    using assms(2) by (auto simp: log_from_def)
  then show ?thesis
    using assms(1) udp_limit_eq [OF assms(3)]
    by (auto simp: origin_inv_def send_reply_def sent_def set_conn_def Let_def min_def split: client.splits option.splits)
qed

lemma age_entry_from:
  assumes "entry_from k e" "age_entry e elapsed = Some aged" "elapsed < unat (e_ttl e)"
  shows "entry_from k aged"
proof (cases "elapsed = 0")
  case False
  then have a: "adjust_ttls (e_response e) elapsed = (True, e_response aged)"
    using assms(2) by (auto simp: age_entry_def split: prod.splits bool.splits)
  from assms(1) obtain asked meta answer ttl n where
    e: "parse_query_meta asked = Some meta" "key meta = k" "good_reply asked answer"
      "cache_ttl answer (qtype k) = Some ttl" "aged_copy (0 # 0 # drop 2 answer) n (e_response e)"
      "n + unat (e_ttl e) = unat ttl"
    unfolding entry_from_def by blast
  moreover have "aged_copy (0 # 0 # drop 2 answer) (n + elapsed) (e_response aged)"
    using e(5) a by (rule aged_copy.older)
  moreover have "(n + elapsed) + unat (e_ttl aged) = unat ttl"
    using e(6) age_entry_Some(2) [OF assms(2,3)] assms(3) by simp
  ultimately show ?thesis unfolding entry_from_def by blast
qed (use assms in \<open>simp add: age_entry_def\<close>)

lemma hit_from:
  assumes "hit stored now = Some aged" "\<And>e. stored = Some e \<Longrightarrow> entry_from k e"
  shows "entry_from k aged"
  using assms by (auto simp: hit_def Let_def split: option.splits if_splits intro: age_entry_from)

lemma cached_reply_hit:
  assumes "entry_from (key meta) e" "parse_query_meta query = Some meta" "0 < e_ttl e" "2 \<le> length query"
  shows "cached_reply query (query ! 0 # query ! 1 # drop 2 (e_response e))"
proof -
  have "0 < unat (e_ttl e)" using assms(3) by (simp add: word_less_nat_alt)
  moreover from assms(1) obtain asked meta' answer ttl n where
    "parse_query_meta asked = Some meta'" "key meta' = key meta" "good_reply asked answer"
    "cache_ttl answer (qtype (key meta)) = Some ttl"
    "aged_copy (0 # 0 # drop 2 answer) n (e_response e)" "n + unat (e_ttl e) = unat ttl"
    unfolding entry_from_def by blast
  ultimately show ?thesis
    unfolding cached_reply_def using assms(2)
    by (intro exI [of _ asked] exI [of _ meta] exI [of _ meta'] exI [of _ answer] exI [of _ ttl] exI [of _ n]
        exI [of _ "e_response e"]) (simp add: take_2_eq [OF assms(4)])
qed

lemma servfail_not_cached: "12 \<le> length query \<Longrightarrow> cache_ttl (servfail query) qt = None"
proof (rule ccontr)
  assume len: "12 \<le> length query" and "cache_ttl (servfail query) qt \<noteq> None"
  then have "cacheable_header (servfail query)" using cache_ttl_Some(5) by blast
  moreover have "(0x82 :: u8) AND 0x0F = 2" by code_simp
  ultimately show False using len by (auto simp: cacheable_header_def servfail_def)
qed

context response_cache
begin

lemma local_response_origin:
  assumes "ok cache" "12 \<le> length query" "meta_of query meta" "\<And>k e. entry_for cache k = Some e \<Longrightarrow> entry_from k e"
    and "local_response ops cache query meta now buf = Ret (found, r, cache')"
  shows "(found \<longrightarrow> authentic query r) \<and> (\<forall>k e. entry_for cache' k = Some e \<longrightarrow> entry_from k e)"
proof (cases "is_multi_question_query query")
  case True
  with assms(4,5) show ?thesis
    by (cases "formerr query") (auto simp: local_response_def authentic_def)
next
  case False
  show ?thesis
  proof (cases meta)
    case None
    with False assms(4,5) show ?thesis by (auto simp: local_response_def)
  next
    case (Some mt)
    have "query \<noteq> []" using assms(2) by auto
    then have get: "get_into ops cache mt (query ! 0, query ! 1) now buf = Ret (found, r, cache')"
      using Some False assms(2,5) by (auto simp: local_response_def get_def)
    show ?thesis
    proof (cases rule: get_into_cases [OF assms(1), of mt now "query ! 0" "query ! 1" buf, case_names hit miss])
      case (hit aged c)
      have from_aged: "entry_from (key mt) aged" using hit_from [OF hit(1)] assms(4) by blast
      have "entry_ok aged"
        using hit_Some [OF hit(1)] assms(1) by (auto simp: cache_ok_def cached_def split: option.splits)
      then have "cached_reply query (query ! 0 # query ! 1 # drop 2 (e_response aged))"
        using cached_reply_hit [OF from_aged] assms(2,3) Some by (auto simp: meta_of_def entry_ok_def)
      with hit get from_aged assms(4) show ?thesis by (auto simp: authentic_def)
    next
      case (miss c)
      with get assms(4) show ?thesis by (auto split: if_splits)
    qed
  qed
qed

lemma proxy_forward_origin:
  assumes "ok cache" "12 \<le> length query" "meta_of query meta" "\<And>k e. entry_for cache k = Some e \<Longrightarrow> entry_from k e"
    and "\<And>a. answer = Some a \<Longrightarrow> good_reply query a"
    and "proxy_forward ops cache query meta answer now = Ret (r, cache')"
  shows "authentic query r \<and> (\<forall>k e. entry_for cache' k = Some e \<longrightarrow> entry_from k e)"
proof -
  let ?r = "case answer of Some response \<Rightarrow> response | None \<Rightarrow> servfail query"
  have r: "r = ?r" using assms(6) by (cases meta; cases "insert_response ops cache (the meta) ?r now")
    (auto simp: proxy_forward_def Let_def)
  have auth: "authentic query ?r" using assms(5) by (auto simp: authentic_def split: option.split)
  show ?thesis
  proof (cases meta)
    case None
    with assms(4,6) auth show ?thesis by (auto simp: proxy_forward_def Let_def)
  next
    case (Some mt)
    then have ins: "insert_response ops cache mt ?r now = Ret cache'"
      using assms(6) by (cases "insert_response ops cache mt ?r now") (auto simp: proxy_forward_def Let_def)
    show ?thesis
    proof (cases rule: insert_response_cases [OF assms(1), of ?r mt now, case_names stored refused])
      case (stored ttl c)
      have "answer \<noteq> None" using stored(1) servfail_not_cached [OF assms(2)] by (auto split: option.splits)
      then have good: "good_reply query ?r" using assms(5) by auto
      have "entry_from (key mt) \<lparr>e_response = 0 # 0 # drop 2 ?r, e_aged_at = now, e_ttl = ttl\<rparr>"
        unfolding entry_from_def
        using assms(3) Some good stored(1) aged_copy.fresh [of "0 # 0 # drop 2 ?r"]
        by (intro exI [of _ query] exI [of _ mt] exI [of _ ?r] exI [of _ ttl] exI [of _ 0]) (simp add: meta_of_def)
      moreover have "c = cache'" using ins stored(3) by simp
      ultimately have "entry_from k e" if "entry_for cache' k = Some e" for k e
        using that stored(5,6) assms(4) by (cases "k = key mt") auto
      with auth r show ?thesis by blast
    next
      case refused
      with ins assms(4) auth r show ?thesis by auto
    qed
  qed
qed

lemma task_poll_origin:
  assumes inv: "server_inv view invar entries sv" and origin: "origin_inv view sv"
    and step: "task_poll ops i now write_ok sv = Ret sv'"
  shows "origin_inv view sv'"
proof (cases "\<exists>t. get (sv_tasks sv) i = Some t \<and> tk_stage t = Fresh")
  case True
  then obtain t where t: "get (sv_tasks sv) i = Some t" "tk_stage t = Fresh" by blast
  let ?meta = "cache_query_meta (sv_cache sv) (tk_query t)"
  have ok: "ok (sv_cache sv)" "12 \<le> length (tk_query t)"
    using inv server_inv_task [OF inv t(1)] by (auto simp: server_inv_def task_ok_def)
  from local_response_ok [OF this, of ?meta now "[]"] obtain found r c where
    loc: "local_response ops (sv_cache sv) (tk_query t) ?meta now [] = Ret (found, r, c)" by auto
  from local_response_origin [OF ok meta_of_cache _ loc] origin
  have r: "found \<longrightarrow> authentic (tk_query t) r" "origin_inv view (sv\<lparr>sv_cache := c\<rparr>)"
    by (auto simp: origin_inv_def)
  show ?thesis
  proof (cases found)
    case True
    with step t loc have "sv' = send_reply i t ?meta r write_ok (sv\<lparr>sv_cache := c\<rparr>)"
      by (simp add: task_poll_def Let_def)
    with send_reply_origin [OF r(2) _ meta_of_cache] r(1) True show ?thesis by simp
  next
    case False
    with step t loc r(2) show ?thesis by (auto simp: task_poll_def Let_def origin_inv_def)
  qed
qed (use step origin in \<open>auto simp: task_poll_def split: option.splits if_splits\<close>)

lemma task_finish_origin:
  assumes inv: "server_inv view invar entries sv" and origin: "origin_inv view sv"
    and env: "\<And>query. sound_env query (env query)"
    and step: "task_finish ops i env now write_ok sv = Ret sv'"
  shows "origin_inv view sv'"
proof (cases "\<exists>t meta. get (sv_tasks sv) i = Some t \<and> tk_stage t = Forwarding meta")
  case True
  then obtain t meta where t: "get (sv_tasks sv) i = Some t" "tk_stage t = Forwarding meta" by blast
  have ok: "ok (sv_cache sv)" "12 \<le> length (tk_query t)" "meta_of (tk_query t) meta"
    using inv server_inv_task [OF inv t(1)] t(2) by (auto simp: server_inv_def task_ok_def)
  show ?thesis
  proof (cases rule: manager_forward_cases [OF env [of "tk_query t"], of "sv_manager sv", case_names waiting answered])
    case waiting
    with step t origin show ?thesis by (simp add: task_finish_def)
  next
    case (answered answer m')
    obtain r c where fwd: "proxy_forward ops (sv_cache sv) (tk_query t) meta answer now = Ret (r, c)"
      using step t answered(1)
      by (cases "proxy_forward ops (sv_cache sv) (tk_query t) meta answer now") (auto simp: task_finish_def)
    from proxy_forward_origin [OF ok _ answered(3) fwd] origin
    have r: "authentic (tk_query t) r" "origin_inv view (sv\<lparr>sv_manager := m', sv_cache := c\<rparr>)"
      by (auto simp: origin_inv_def)
    from step t answered(1) fwd
    have "sv' = send_reply i t meta r write_ok (sv\<lparr>sv_manager := m', sv_cache := c\<rparr>)"
      by (simp add: task_finish_def)
    with send_reply_origin [OF r(2,1) ok(3)] show ?thesis by simp
  qed
qed (use step origin in \<open>auto simp: task_finish_def split: option.splits stage.splits\<close>)

lemma traffic_origin:
  assumes "origin_inv view sv" "server_inv view invar entries sv" "server_step ops e sv = Ret sv'"
    and "\<And>i env now w. e \<noteq> Forwarded i env now w"
  shows "origin_inv view sv'"
  using assms task_poll_origin [OF assms(2,1)]
  by (cases e) (auto simp: origin_inv_def udp_receive_def tcp_accept_def tcp_read_def set_conn_def Let_def
      split: option.splits if_splits)

lemma daemon_step_inv:
  assumes inv: "server_inv view invar entries sv" and origin: "origin_inv view sv"
  shows "\<exists>sv'. daemon_step ops e sv = Ret sv' \<and> server_inv view invar entries sv' \<and> origin_inv view sv'"
proof (cases e)
  case (Traffic l)
  show ?thesis
  proof (cases "\<exists>i env now w. l = Forwarded i env now w")
    case False
    then have "sound_listener_event l" "daemon_step ops e sv = server_step ops l sv"
      using Traffic by (auto simp: sound_listener_event_def split: listener_event.splits)
    with server_step_inv [OF inv] traffic_origin [OF origin inv] False show ?thesis by metis
  qed (use Traffic inv origin in auto)
next
  case (Answered i net now w)
  let ?env = "\<lambda>t. net_env (sv_manager sv) (over_tcp (tk_client t)) net"
  have "\<exists>sv'. task_finish ops i (?env t) now w sv = Ret sv' \<and> server_inv view invar entries sv' \<and> origin_inv view sv'" for t
    using task_finish_inv [OF inv, of "?env t" i now w] task_finish_origin [OF inv origin, of "?env t" i now w]
      net_env_sound by metis
  with Answered inv origin show ?thesis by (auto split: option.split)
qed

lemma daemon_run_inv:
  assumes "ok cache" "\<And>k e. entry_for cache k = Some e \<Longrightarrow> entry_from k e"
  shows "\<exists>sv. daemon_run ops events (server_init cache m) = Ret sv
     \<and> server_inv view invar (mg_entries m) sv \<and> origin_inv view sv"
  unfolding daemon_run_def
proof (rule fold_run_invariant [where I = "\<lambda>sv. server_inv view invar (mg_entries m) sv \<and> origin_inv view sv"])
  show "server_inv view invar (mg_entries m) (server_init cache m) \<and> origin_inv view (server_init cache m)"
    using assms by (auto simp: server_inv_def server_init_def origin_inv_def)
qed (use daemon_step_inv in blast)

lemma new_empty: "entry_for (cache_new ops enabled n) k = None"
  by (simp add: cached_def cache_new_def view_new)

end

section \<open>A genuine answer gets through\<close>

text \<open>What the one plain upstream of a configuration sends back: noise, then the answer.\<close>

definition delivers :: "upstream_entry \<Rightarrow> attempt_net \<Rightarrow> bytes \<Rightarrow> bytes \<Rightarrow> bool" where
  "delivers entry net query response \<longleftrightarrow> (\<exists>host port ip stack noise rest.
     en_backend entry = LegacyBackend host port (Some ip) stack
     \<and> an_udp net (sock_new ip port) = \<lparr>udp_bind = None, udp_connect = None, udp_send = None,
          udp_recv = map Inr noise @ Inr response # rest\<rparr>
     \<and> (\<forall>d \<in> set noise. \<not> udp_accepts query (take (MAX_UDP_RESPONSE + 1) d))
     \<and> udp_accepts query response \<and> length response \<le> MAX_UDP_RESPONSE \<and> response ! 3 AND 0x0F \<noteq> 2
     \<and> (en_timeout_ms entry = 0 \<or> an_done_after net \<le> en_timeout_ms entry))"

lemma run_upstream_delivers:
  assumes "mg_entries m = [entry]" "delivers entry net query response"
  shows "run_upstream m 0 net query False = Some (Inr response)"
proof -
  from assms(2) obtain host port ip stack noise rest where d:
    "en_backend entry = LegacyBackend host port (Some ip) stack"
    "an_udp net (sock_new ip port) = \<lparr>udp_bind = None, udp_connect = None, udp_send = None,
       udp_recv = map Inr noise @ Inr response # rest\<rparr>"
    "\<forall>d \<in> set noise. \<not> udp_accepts query (take 4097 d)" "udp_accepts query response"
    "length response \<le> 4096" "en_timeout_ms entry = 0 \<or> an_done_after net \<le> en_timeout_ms entry"
    by (auto simp: delivers_def)
  have "legacy_query (an_udp net (sock_new ip port)) tcp query False = Some (Inr response)" for tcp
    using d(2,4,5) recv_loop_skips [OF d(3)] by (simp add: legacy_query_def query_udp_def Let_def)
  then show ?thesis
    using assms(1) d(1,6)
    by (auto simp: run_upstream_def get_def attempt_def network_env_def request_new_def entry_run_def outer_timeout_def)
qed

lemma delivers_answer:
  assumes "delivers entry net query response"
  shows "take 2 query @ drop 2 response = response" "\<exists>m'. configured_answer m query (Inr response) = Ret (Some response, m')"
proof -
  have a: "12 \<le> length response" "take 2 response = take 2 query" "response ! 3 AND 0x0F \<noteq> 2"
    "validate_response query response = Inr ()"
    using assms by (auto simp: delivers_def udp_accepts_def)
  then show id: "take 2 query @ drop 2 response = response" by (metis append_take_drop_id)
  have "sound_result query (Inr response :: attempt_error + bytes)" using a(4) by (simp add: sound_result_def)
  from configured_answer_sound [OF this, of m] a(3) id
  show "\<exists>m'. configured_answer m query (Inr response) = Ret (Some response, m')"
    by (simp add: acceptable_def)
qed

context response_cache
begin

lemma delivers_reaches_client:
  assumes inv: "server_inv view invar [entry] sv"
    and t: "get (sv_tasks sv) i = Some t" "tk_client t = UdpPeer peer" "tk_stage t = Forwarding meta"
    and net: "fn_permit net" "delivers entry (fn_single net) (tk_query t) response"
  shows "\<exists>sv'. daemon_step ops (Answered i net now w) sv = Ret sv' \<and> sv_free sv' = sv_free sv + 1
     \<and> sv_log sv' = sv_log sv @ [(UdpPeer peer, tk_query t, truncate_to response (udp_payload_size (tk_query t)))]"
proof -
  let ?q = "tk_query t"
  have e: "mg_entries (sv_manager sv) = [entry]" using inv by (simp add: server_inv_def)
  note run = run_upstream_delivers [OF e net(2)]
  obtain m' where "configured_answer (sv_manager sv) ?q (Inr response) = Ret (Some response, m')"
    using delivers_answer(2) [OF net(2)] by blast
  then have fwd: "manager_forward (sv_manager sv) ?q (net_env (sv_manager sv) False net ?q) = Ret (Some (Some response, m'))"
    using e net(1) run by (simp add: manager_forward_def net_env_def or_system_def)
  have ok: "ok (sv_cache sv)" "meta_of ?q meta"
    using inv server_inv_task [OF inv t(1)] t(3) by (auto simp: server_inv_def task_ok_def)
  obtain c where "proxy_forward ops (sv_cache sv) ?q meta (Some response) now = Ret (response, c)"
    using insert_no_panic [OF ok(1), of "the meta" response now]
    by (cases meta) (auto simp: proxy_forward_def)
  then show ?thesis
    using t fwd run udp_limit_eq [OF ok(2)]
    by (simp add: still_waiting_def task_finish_def send_reply_def)
qed

end

section \<open>Properties\<close>

text \<open>C7: Whatever the network, the resolver and the encrypted channels answer, and in whatever order
  datagrams, connections, polls and answers come, the daemon does not panic, and each reply a client
  is sent is, cut to what the client accepts, an error made for its query, an answer that was
  validated against it, or a cached answer that was validated against a query with the same key
  and has lost less than its lifetime.\<close>

theorem replies_authentic:
  assumes "response_cache ops view capacity invar"
  shows "\<exists>sv. daemon_run ops events (server_init (cache_new ops enabled n) m) = Ret sv
     \<and> (\<forall>(client, query, reply) \<in> set (sv_log sv). \<exists>full. authentic query full \<and> reply = sent client query full)"
  using response_cache.daemon_run_inv [OF assms response_cache.new_ok [OF assms], of enabled n events m]
    response_cache.new_empty [OF assms, of enabled n]
  by (auto simp: origin_inv_def log_from_def)

text \<open>A single plain upstream: noise, then its answer; twenty seconds later the answer comes from the cache.\<close>

definition noisy_net :: forward_net where
  "noisy_net =
     (let udp = \<lparr>udp_bind = None, udp_connect = None, udp_send = None,
                 udp_recv = [Inr (sample_servfail[1 := 8]), Inr [1, 2, 3], Inr sample_response]\<rparr>;
          tcp = \<lparr>tcp_connect = None, tcp_write = None, tcp_input = [], tcp_read_error = []\<rparr> in
      \<lparr>fn_permit = True,
       fn_single = \<lparr>an_resolve = \<lambda>_ _. Inr [], an_udp = \<lambda>_. udp, an_tcp = \<lambda>_. tcp, an_from_vec = \<lambda>_. Inl [],
                    an_channel = \<lambda>_ _. None, an_done_after = 40\<rparr>,
       fn_race = [], fn_system_permit = False, fn_system = \<lambda>_. (udp, tcp, 0)\<rparr>)"

definition plain_manager :: manager where
  "plain_manager = sample_manager\<lparr>mg_entries := take 1 (mg_entries sample_manager)\<rparr>"

definition noisy_run :: "daemon_event list" where
  "noisy_run = [Traffic (Datagram sample_peer sample_query), Traffic (Poll 0 0 True), Answered 0 noisy_net 0 True,
     Traffic (Datagram sample_peer sample_query_upper), Traffic (Poll 0 (20 * second) True)]"

lemma replies_authentic_witness:
  "map_option (map (\<lambda>(_, _, reply). reply)) (case daemon_run ref_lru noisy_run (server_init (cache_new ref_lru True 4) plain_manager) of
       Ret sv \<Rightarrow> Some (sv_log sv) | Panic \<Rightarrow> None) = Some [sample_response, sample_response[1 := 9, 28 := 40]]
   \<and> (\<exists>full. authentic sample_query_upper full
        \<and> sample_response[1 := 9, 28 := 40] = sent (UdpPeer sample_peer) sample_query_upper full)"
proof -
  have run: "(case daemon_run ref_lru noisy_run (server_init (cache_new ref_lru True 4) plain_manager) of
       Ret sv \<Rightarrow> Some (sv_log sv) | Panic \<Rightarrow> None) =
     Some [(UdpPeer sample_peer, sample_query, sample_response),
           (UdpPeer sample_peer, sample_query_upper, sample_response[1 := 9, 28 := 40])]"
    by code_simp
  from replies_authentic [OF ref.response_cache_axioms, of noisy_run True 4 plain_manager] run show ?thesis by auto
qed


lemma noisy_net_delivers:
  "delivers (hd (mg_entries plain_manager)) (fn_single noisy_net) sample_query sample_response"
proof -
  have "\<not> udp_accepts sample_query (take 4097 (sample_servfail[1 := 8]))" "\<not> udp_accepts sample_query (take 4097 [1, 2, 3])"
    "udp_accepts sample_query sample_response" "length sample_response \<le> 4096" "sample_response ! 3 AND 0x0F \<noteq> 2"
    by code_simp+
  moreover have "an_udp (fn_single noisy_net) addr = \<lparr>udp_bind = None, udp_connect = None, udp_send = None,
      udp_recv = map Inr [sample_servfail[1 := 8], [1, 2, 3]] @ Inr sample_response # []\<rparr>" for addr
    by (simp add: noisy_net_def Let_def)
  ultimately show ?thesis
    unfolding delivers_def plain_manager_def sample_manager_def
    by (intro exI [of _ "''a''"] exI [of _ 53] exI [of _ "V4 (IP4 1 1 1 1)"] exI [of _ Both]
        exI [of _ "[sample_servfail[1 := 8], [1, 2, 3]]"] exI [of _ "[]"]) (auto simp: noisy_net_def Let_def)
qed


end
