(* ===== verification/Wire_Eval.thy ===== *)
theory Wire_Eval
  imports Wire_Query
begin

text \<open>
  How the tests of the repository are run on the model: the definitions that the simplifier unfolds
  to evaluate a call on a concrete message, and the byte literals of the tests.
\<close>

named_theorems wire_eval \<open>definitions that the simplifier unfolds to run a test\<close>

declare to_be16_def [wire_eval] to_be32_def [wire_eval] get_def [wire_eval] get_range_def [wire_eval]
  from_be16_def [wire_eval] from_be32_def [wire_eval] read_u16_def [wire_eval] read_u32_def [wire_eval]
  patch_def [wire_eval] saturating_sub_def [wire_eval] clamp_def [wire_eval]
  ascii_lower_def [wire_eval] make_ascii_lowercase_def [wire_eval]
  name_labels_def [wire_eval] label_loop.simps [wire_eval] walk_step_def [wire_eval]
  read_name_labels [wire_eval] skip_name_labels [wire_eval] questions_match_names [wire_eval] question_of_def [wire_eval]
  parse_rr_def [wire_eval] questions_end_def [wire_eval] total_rr_count_def [wire_eval]
  age_record_def [wire_eval] clamp_elapsed_def [wire_eval] adjust_ttls_def [wire_eval]
  min_into_def [wire_eval] scan_rr_def [wire_eval] empty_scan_def [wire_eval] cacheable_header_def [wire_eval]
  chosen_ttl_def [wire_eval] cache_ttl_def [wire_eval] soa_minimum_def [wire_eval]
  parse_query_meta_def [wire_eval] udp_payload_size_def [wire_eval] is_multi_question_query_def [wire_eval]
  mark_truncated_def [wire_eval] truncate_to_def [wire_eval] validate_response_def [wire_eval]
  TYPE_CNAME_def [wire_eval] TYPE_SOA_def [wire_eval] TYPE_OPT_def [wire_eval]

lemma replicate_numeral [wire_eval]: "replicate (numeral k) x = x # replicate (pred_numeral k) x"
  by (simp add: numeral_eq_Suc)

lemmas counted_loops [wire_eval] =
  scan_loop.simps(2) [where n = "pred_numeral k" for k, folded numeral_eq_Suc]
  adjust_loop.simps(2) [where n = "pred_numeral k" for k, folded numeral_eq_Suc]
  questions_loop.simps(2) [where n = "pred_numeral k" for k, folded numeral_eq_Suc]
  skip_rrs.simps(2) [where n = "pred_numeral k" for k, folded numeral_eq_Suc]
  edns_loop.simps(2) [where n = "pred_numeral k" for k, folded numeral_eq_Suc]
  payload_loop.simps(2) [where n = "pred_numeral k" for k, folded numeral_eq_Suc]

declare Let_def [wire_eval]

section \<open>Byte literals\<close>

definition ascii :: "string \<Rightarrow> bytes" where
  "ascii = map of_char"

declare ascii_def [wire_eval]

definition label :: "string \<Rightarrow> bytes" where
  "label s = word_of_nat (length s) # ascii s"

declare label_def [wire_eval]

end
