(* ===== verification/Wire_Tests.thy ===== *)
theory Wire_Tests
  imports Wire_Eval
begin

text \<open>
  The tests of \<open>src/src/wire.rs\<close> on the model.  A builder or test of the code's test module is a
  definition with the code's name; a test is the conjunction of its assertions, and the lemma that
  follows evaluates it with the simplifier.  They hold of the code, so they are evidence that the
  model computes what the code does.
\<close>

section \<open>Messages\<close>

definition question :: "u16 \<Rightarrow> bool \<Rightarrow> bytes" where
  "question ident with_opt =
     to_be16 ident @ [0x01, 0x00, 0x00, 0x01, 0, 0, 0, 0, 0, if with_opt then 1 else 0]
     @ label ''ExAmPlE'' @ label ''COM'' @ [0, 0, 1, 0, 1]
     @ (if with_opt then [0, 0, 41, 0x10, 0, 0, 0, 0x80, 0, 0, 0] else [])"

definition positive_response :: "u16 \<Rightarrow> u32 \<Rightarrow> bool \<Rightarrow> bytes" where
  "positive_response ident ttl with_opt =
     (let message = (question ident False)[2 := 0x81, 3 := 0x80];
          message = patch message 6 (to_be16 1);
          message = patch message 10 (to_be16 (if with_opt then 1 else 0)) in
      message @ [0xc0, 0x0c, 0, 1, 0, 1] @ to_be32 ttl @ [0, 4, 1, 2, 3, 4]
      @ (if with_opt then [0, 0, 41, 0x10, 0, 0, 0, 0x80, 0, 0, 0] else []))"

definition negative_response :: "u32 \<Rightarrow> u32 \<Rightarrow> bytes" where
  "negative_response soa_ttl minimum =
     (let message = (question 1 False)[2 := 0x81, 3 := 0x83];
          message = patch message 8 (to_be16 1) in
      message @ [0xc0, 0x0c, 0, ucast TYPE_SOA, 0, 1] @ to_be32 soa_ttl @ to_be16 24
      @ [0xc0, 0x0c, 0xc0, 0x0c] @ to_be32 1 @ to_be32 2 @ to_be32 3 @ to_be32 4 @ to_be32 minimum)"

declare question_def [wire_eval] positive_response_def [wire_eval] negative_response_def [wire_eval]

section \<open>Queries and lifetimes\<close>

definition parses_query_key_edns_size_and_do :: bool where
  "parses_query_key_edns_size_and_do \<longleftrightarrow>
     (case parse_query_meta (question 0x1234 True) of
        None \<Rightarrow> False
      | Some meta \<Rightarrow>
          qname (key meta) = label ''example'' @ label ''com'' @ [0] \<and> qtype (key meta) = 1 \<and> qclass (key meta) = 1
          \<and> udp_size meta = 4096 \<and> do_bit (key meta))"

lemma parses_query_key_edns_size_and_do_passes: parses_query_key_edns_size_and_do
  by (simp add: parses_query_key_edns_size_and_do_def wire_eval)

definition bypasses_non_recursive_and_edns_option_queries :: bool where
  "bypasses_non_recursive_and_edns_option_queries \<longleftrightarrow>
     (let no_rd = (question 1 False)[2 := 0];
          option = (question 1 True)[length (question 1 True) - 1 := 1] @ [0] in
      parse_query_meta no_rd = None \<and> parse_query_meta option = None \<and> udp_payload_size option = 4096)"

lemma bypasses_non_recursive_and_edns_option_queries_passes: bypasses_non_recursive_and_edns_option_queries
  by (simp add: bypasses_non_recursive_and_edns_option_queries_def wire_eval)

definition ages_record_ttls_but_not_opt_flags :: bool where
  "ages_record_ttls_but_not_opt_flags \<longleftrightarrow>
     (case adjust_ttls (positive_response 1 120 True) 20 of (aged, response) \<Rightarrow>
       aged \<and> (case questions_end response of
         None \<Rightarrow> False
       | Some end_of \<Rightarrow> read_u32 response (end_of + 6) = Some 100
           \<and> (case parse_rr response (end_of + 16) of
                None \<Rightarrow> False
              | Some opt \<Rightarrow> read_u32 response (ttl_offset opt) = Some 0x8000)))"

lemma ages_record_ttls_but_not_opt_flags_passes: ages_record_ttls_but_not_opt_flags
  by (simp add: ages_record_ttls_but_not_opt_flags_def wire_eval)

definition chooses_positive_ttl_and_truncates_at_question :: bool where
  "chooses_positive_ttl_and_truncates_at_question \<longleftrightarrow>
     (let response = positive_response 1 120 False in
      cache_ttl response 1 = Some 120
      \<and> (case questions_end response of
           None \<Rightarrow> False
         | Some question_end \<Rightarrow>
             let response = truncate_to response question_end in
             length response = question_end \<and> response ! 2 AND 0x02 \<noteq> 0 \<and> take 6 (drop 6 response) = replicate 6 0))"

lemma chooses_positive_ttl_and_truncates_at_question_passes: chooses_positive_ttl_and_truncates_at_question
  by (simp add: chooses_positive_ttl_and_truncates_at_question_def wire_eval)

definition respects_negative_ttl_expiry_and_only_caps_the_upper_bound :: bool where
  "respects_negative_ttl_expiry_and_only_caps_the_upper_bound \<longleftrightarrow>
     list_all (\<lambda>(soa_ttl, minimum, expected).
       list_all (\<lambda>rcode. cache_ttl ((negative_response soa_ttl minimum)[3 := 0x80 OR rcode]) 1 = expected) [0, 3])
       [(0, 60, None), (60, 0, None), (1, 60, Some 1), (30, 15, Some 15), (1200, 900, Some 600)]"

lemma respects_negative_ttl_expiry_and_only_caps_the_upper_bound_passes: respects_negative_ttl_expiry_and_only_caps_the_upper_bound
  by (simp add: respects_negative_ttl_expiry_and_only_caps_the_upper_bound_def wire_eval)

section \<open>Validating responses\<close>

definition accepts_matching_response_case_insensitively :: bool where
  "accepts_matching_response_case_insensitively \<longleftrightarrow>
     (let query = question 7 False; response = positive_response 7 60 False;
          response = patch response HEADER_LEN (make_ascii_lowercase (take (25 - HEADER_LEN) (drop HEADER_LEN response))) in
      validate_response query response = Inr ())"

definition rejects_mismatched_responses_with_specific_errors :: bool where
  "rejects_mismatched_responses_with_specific_errors \<longleftrightarrow>
     (let query = question 7 False; good = positive_response 7 60 False in
      validate_response query (good[2 := good ! 2 AND NOT 0x80]) = Inl NotAResponse
      \<and> validate_response query (good[2 := good ! 2 OR 0x08]) = Inl OpcodeMismatch
      \<and> validate_response query (good[13 := of_char (CHR ''z'')]) = Inl QuestionMismatch
      \<and> validate_response query (good[26 := 28]) = Inl QuestionMismatch
      \<and> validate_response query (good[28 := 3]) = Inl QuestionMismatch
      \<and> validate_response query ((patch (replicate 12 0) 0 (to_be16 7))[2 := 0x80, 3 := 0x82]) = Inl QdCountMismatch)"

definition question_less_queries_degrade_to_count_equality :: bool where
  "question_less_queries_degrade_to_count_equality \<longleftrightarrow>
     (let probe = (patch (replicate 12 0) 0 (to_be16 9))[2 := 0x00]; reply = probe[2 := 0x80] in
      validate_response probe reply = Inr ()
      \<and> validate_response probe (positive_response 9 60 False) = Inl QdCountMismatch)"

definition detects_multi_question_queries_only :: bool where
  "detects_multi_question_queries_only \<longleftrightarrow>
     (let multi = patch (question 1 False) 4 (to_be16 2) in
      is_multi_question_query multi \<and> \<not> is_multi_question_query (question 1 False)
      \<and> \<not> is_multi_question_query (multi[2 := multi ! 2 OR 0x80])
      \<and> \<not> is_multi_question_query (multi[2 := multi ! 2 OR 0x10]))"

lemma accepts_matching_response_case_insensitively_passes: accepts_matching_response_case_insensitively
  by (simp add: accepts_matching_response_case_insensitively_def wire_eval)

lemma rejects_mismatched_responses_with_specific_errors_passes: rejects_mismatched_responses_with_specific_errors
  by (simp add: rejects_mismatched_responses_with_specific_errors_def wire_eval)

lemma question_less_queries_degrade_to_count_equality_passes: question_less_queries_degrade_to_count_equality
  by (simp add: question_less_queries_degrade_to_count_equality_def wire_eval)

lemma detects_multi_question_queries_only_passes: detects_multi_question_queries_only
  by (simp add: detects_multi_question_queries_only_def wire_eval)

section \<open>Compressed questions\<close>

definition named_question :: "bytes \<Rightarrow> bytes" where
  "named_question name = [0, 1, 0x01, 0, 0, 1, 0, 0, 0, 0, 0, 0] @ name @ [0, 1, 0, 1]"

text \<open>The pointer leads past type and class to the suffix.\<close>

definition compressed_question :: "bytes \<Rightarrow> nat \<Rightarrow> bytes" where
  "compressed_question name prefix_len =
     (let message = take (HEADER_LEN + prefix_len) (named_question (take prefix_len name)) in
      message @ to_be16 (0xc000 OR word_of_nat (length message + 6)) @ [0, 1, 0, 1] @ drop prefix_len name)"

declare named_question_def [wire_eval] compressed_question_def [wire_eval]

definition as_response :: "bytes \<Rightarrow> bytes" where
  "as_response message = message[2 := message ! 2 OR 0x80]"

declare as_response_def [wire_eval]

text \<open>Label payloads are folded up to the root label or the first pointer.\<close>

fun lower_labels :: "nat \<Rightarrow> nat \<Rightarrow> bytes \<Rightarrow> bytes" where
  "lower_labels 0 offset response = response"
| "lower_labels (Suc fuel) offset response =
     (if response ! offset AND 0xc0 \<noteq> 0 then response
      else let len = unat (response ! offset);
               response = patch response (offset + 1) (make_ascii_lowercase (take len (drop (offset + 1) response))) in
        if len = 0 then response else lower_labels fuel (offset + 1 + len) response)"

definition encodings_of :: "bytes \<Rightarrow> bytes list" where
  "encodings_of name =
     [named_question name, compressed_question name 0,
      compressed_question name (unat (name ! 0) + (if name ! 0 \<noteq> 0 then 1 else 0))]"

definition all_encodings_match :: "bytes \<Rightarrow> bool" where
  "all_encodings_match name \<longleftrightarrow>
     list_all (\<lambda>query. list_all (\<lambda>encoded.
       validate_response query (lower_labels 4 HEADER_LEN (as_response encoded)) = Inr ()) (encodings_of name)) (encodings_of name)"

definition validates_questions_across_compression_encodings :: bool where
  "validates_questions_across_compression_encodings \<longleftrightarrow>
     list_all all_encodings_match
       [[0], label ''ExAmPlE'' @ label ''COM'' @ [0], label ''www'' @ label ''ExAmPlE'' @ label ''COM'' @ [0],
        [3, 65, 0xff, 90, 0]]"

lemma lower_labels_step [wire_eval]:
  "lower_labels (numeral k) offset response =
     (if response ! offset AND 0xc0 \<noteq> 0 then response
      else let len = unat (response ! offset);
               response = patch response (offset + 1) (make_ascii_lowercase (take len (drop (offset + 1) response))) in
        if len = 0 then response else lower_labels (pred_numeral k) (offset + 1 + len) response)"
  by (simp add: numeral_eq_Suc Let_def)

lemma validates_questions_across_compression_encodings_passes: validates_questions_across_compression_encodings
proof -
  have "all_encodings_match [0]" "all_encodings_match (label ''ExAmPlE'' @ label ''COM'' @ [0])"
    "all_encodings_match (label ''www'' @ label ''ExAmPlE'' @ label ''COM'' @ [0])"
    "all_encodings_match [3, 65, 0xff, 90, 0]"
    by (simp_all add: all_encodings_match_def encodings_of_def wire_eval)
  then show ?thesis by (simp add: validates_questions_across_compression_encodings_def)
qed

definition distinguishes_names_lengths_label_boundaries_and_non_ascii_octets :: bool where
  "distinguishes_names_lengths_label_boundaries_and_non_ascii_octets \<longleftrightarrow>
     list_all (\<lambda>(sent, echoed).
       validate_response (named_question sent) (as_response (named_question echoed)) = Inl QuestionMismatch
       \<and> validate_response (named_question echoed) (as_response (named_question sent)) = Inl QuestionMismatch)
       [(label ''ab'' @ label ''c'' @ [0], label ''a'' @ label ''bc'' @ [0]),
        (label ''a'' @ [0], label ''a'' @ label ''b'' @ [0]),
        ([0], label ''a'' @ [0]),
        ([1, 0xc0, 0], [1, 0xe0, 0])]"

lemma distinguishes_names_lengths_label_boundaries_and_non_ascii_octets_passes:
  distinguishes_names_lengths_label_boundaries_and_non_ascii_octets
  by (simp add: distinguishes_names_lengths_label_boundaries_and_non_ascii_octets_def wire_eval)

definition rejected_on_either_side :: "bytes \<Rightarrow> bool" where
  "rejected_on_either_side malformed \<longleftrightarrow>
     validate_response malformed (positive_response 7 60 False) = Inl QuestionMismatch
     \<and> validate_response (question 7 False) (as_response malformed) = Inl QuestionMismatch"

definition rejects_malformed_questions_on_either_side :: bool where
  "rejects_malformed_questions_on_either_side \<longleftrightarrow>
     list_all (\<lambda>payload. rejected_on_either_side (take HEADER_LEN (question 7 False) @ payload))
       [[], [3, 97, 98], [1, 97], [0xc0], [0xc0, 0xff], [0xc0, 0x0c], [0xc0, 0x0e, 0xc0, 0x0c],
        [1, 97, 0xc0, 0x0c], [0x40, 0], [0x80, 0]]
     \<and> list_all (\<lambda>end_of. rejected_on_either_side (take end_of (question 7 False)))
         [HEADER_LEN ..< length (question 7 False)]"

text \<open>With a question each, only the questions matter; so every message is decoded once.\<close>

definition one_question :: "u8 \<Rightarrow> bytes \<Rightarrow> bool" where
  "one_question flags m \<longleftrightarrow> 12 \<le> length m \<and> m ! 2 = flags \<and> read_u16 m 4 = Some 1"

lemma validate_one_question:
  assumes "one_question 1 query" "one_question 0x81 response"
  shows "validate_response query response =
     (if question_of query \<noteq> None \<and> question_of response = question_of query then Inr () else Inl QuestionMismatch)"
  using assms
  by (cases "question_of query"; cases "question_of response")
     (auto simp: one_question_def validate_response_def questions_match_names)

text \<open>A walk that stays among cursors none of which is a root label is rejected in the end.\<close>

definition rootless :: "bytes \<Rightarrow> nat set \<Rightarrow> bool" where
  "rootless message S \<longleftrightarrow> (\<forall>cursor \<in> S. \<forall>jumps name_len. case walk_step message cursor jumps name_len of
     Reject \<Rightarrow> True | Jump pointer \<Rightarrow> pointer \<in> S | Root _ \<Rightarrow> False | Label l \<Rightarrow> cursor + length l \<in> S)"

lemma walk_without_root: "rootless message S \<Longrightarrow> c \<in> S \<Longrightarrow> fst (label_loop message c e j n) = None"
proof (induction message c e j n rule: label_loop.induct)
  case (1 message c e j n)
  then have "case walk_step message c j n of
      Reject \<Rightarrow> True | Jump pointer \<Rightarrow> pointer \<in> S | Root _ \<Rightarrow> False | Label l \<Rightarrow> c + length l \<in> S"
    by (simp add: rootless_def)
  then show ?case using 1 by (cases "walk_step message c j n") (simp_all add: label_loop.simps [of message c])
qed

lemma question_without_root: "rootless m S \<Longrightarrow> 12 \<in> S \<Longrightarrow> question_of m = None"
  using walk_without_root [of m S 12 None 0 0]
  by (auto simp: question_of_def read_name_labels name_labels_def split: prod.splits bind_split)

lemma loop_is_rejected:
  assumes "one_question 1 malformed" "12 \<in> S" "rootless malformed S" "rootless (as_response malformed) S"
  shows "rejected_on_either_side malformed"
proof -
  have "one_question 0x81 (as_response malformed)"
    using assms(1) by (auto simp: one_question_def as_response_def read_u16_def get_def split: if_splits)
  moreover have "one_question 1 (question 7 False)" "one_question 0x81 (positive_response 7 60 False)"
    by (simp_all add: one_question_def wire_eval)
  ultimately show ?thesis
    using assms(1) question_without_root [OF assms(3,2)] question_without_root [OF assms(4,2)]
    by (cases "question_of (question 7 False)") (simp_all add: rejected_on_either_side_def validate_one_question)
qed

lemma rejects_malformed_questions_on_either_side_passes: rejects_malformed_questions_on_either_side
proof -
  let ?bad = "\<lambda>payload. rejected_on_either_side (take HEADER_LEN (question 7 False) @ payload)"
  let ?cut = "list_all (\<lambda>end_of. rejected_on_either_side (take end_of (question 7 False)))"
  have "list_all ?bad [[], [3, 97, 98], [1, 97], [0xc0], [0xc0, 0xff], [0x40, 0], [0x80, 0]]"
    by (simp add: rejected_on_either_side_def wire_eval)
  moreover have "?bad [0xc0, 0x0c]"
    by (rule loop_is_rejected [of _ "{12}"]) (simp_all add: one_question_def rootless_def wire_eval)
  moreover have "?bad [0xc0, 0x0e, 0xc0, 0x0c]"
    by (rule loop_is_rejected [of _ "{12, 14}"]) (simp_all add: one_question_def rootless_def wire_eval)
  moreover have "?bad [1, 97, 0xc0, 0x0c]"
    by (rule loop_is_rejected [of _ "{12, 14}"]) (simp_all add: one_question_def rootless_def wire_eval)
  moreover have "?cut [12, 13, 14, 15, 16, 17, 18, 19]"
    by (simp add: rejected_on_either_side_def wire_eval)
  moreover have "?cut [20, 21, 22, 23, 24, 25, 26, 27, 28]"
    by (simp add: rejected_on_either_side_def wire_eval)
  moreover have "[HEADER_LEN ..< length (question 7 False)] = [12, 13, 14, 15, 16, 17, 18, 19] @ [20, 21, 22, 23, 24, 25, 26, 27, 28]"
    by (simp add: question_def label_def ascii_def upt_rec_numeral)
  ultimately show ?thesis by (simp only: rejects_malformed_questions_on_either_side_def list_all_append list.pred_inject simp_thms)
qed

section \<open>Boundaries\<close>

definition long_name :: "nat \<Rightarrow> bytes" where
  "long_name n = concat (map (\<lambda>len. word_of_nat len # replicate len 65) [63, 63, 63, n]) @ [0]"

definition validates_expanded_question_length_boundary :: bool where
  "validates_expanded_question_length_boundary \<longleftrightarrow>
     list_all (\<lambda>(last_len, valid).
       let name = long_name last_len in
       list_all (\<lambda>query. list_all (\<lambda>response.
         validate_response query (as_response response) = (if valid then Inr () else Inl QuestionMismatch))
         [named_question name, compressed_question name 64])
         [named_question name, compressed_question name 0])
       [(61, True), (62, False)]"

lemma validates_expanded_question_length_boundary_passes: validates_expanded_question_length_boundary
proof -
  have q: "one_question 1 (named_question (long_name n))" "one_question 1 (compressed_question (long_name n) 0)"
    "one_question 0x81 (as_response (named_question (long_name n)))"
    "one_question 0x81 (as_response (compressed_question (long_name n) 64))" for n
    by (simp_all add: one_question_def long_name_def wire_eval)
  have ok: "question_of (named_question (long_name 61)) = Some (map ascii_lower (long_name 61), [0, 1, 0, 1])"
    by (simp add: long_name_def wire_eval)
  have ok0: "question_of (compressed_question (long_name 61) 0) = Some (map ascii_lower (long_name 61), [0, 1, 0, 1])"
    by (simp add: long_name_def wire_eval)
  have okr: "question_of (as_response (named_question (long_name 61))) = Some (map ascii_lower (long_name 61), [0, 1, 0, 1])"
    by (simp add: long_name_def wire_eval)
  have okr64: "question_of (as_response (compressed_question (long_name 61) 64)) = Some (map ascii_lower (long_name 61), [0, 1, 0, 1])"
    by (simp add: long_name_def wire_eval)
  have bad: "question_of (named_question (long_name 62)) = None"
    by (simp add: long_name_def wire_eval)
  have bad0: "question_of (compressed_question (long_name 62) 0) = None"
    by (simp add: long_name_def wire_eval)
  show ?thesis
    by (simp add: validates_expanded_question_length_boundary_def validate_one_question [OF q(1,3)]
        validate_one_question [OF q(1,4)] validate_one_question [OF q(2,3)] validate_one_question [OF q(2,4)]
        ok ok0 okr okr64 bad bad0)
qed

definition response_validation_keeps_non_single_question_and_rcode_policy :: bool where
  "response_validation_keeps_non_single_question_and_rcode_policy \<longleftrightarrow>
     list_all (\<lambda>count.
       let query = patch (replicate HEADER_LEN 0) 4 (to_be16 count) in
       validate_response query (as_response query) = Inr ()) [0, 2]
     \<and> list_all (\<lambda>rcode.
         validate_response (question 7 True) ((positive_response 0 0 True)[3 := 0x80 OR word_of_nat rcode]) = Inr ()) [0..<16]"

lemma response_validation_keeps_non_single_question_and_rcode_policy_passes:
  response_validation_keeps_non_single_question_and_rcode_policy
  by (simp add: response_validation_keeps_non_single_question_and_rcode_policy_def list.pred_True wire_eval)

definition accepts_question_pointer_to_an_earlier_root_label :: bool where
  "accepts_question_pointer_to_an_earlier_root_label \<longleftrightarrow>
     (let query = named_question [0];
          response = as_response ((take HEADER_LEN query)[0 := 0]) @ [0xc0, 0, 0, 1, 0, 1] in
      validate_response query response = Inr ())"

lemma accepts_question_pointer_to_an_earlier_root_label_passes: accepts_question_pointer_to_an_earlier_root_label
  by (simp add: accepts_question_pointer_to_an_earlier_root_label_def wire_eval)

section \<open>Names\<close>

definition walks_compressed_uncompressed_and_root_names :: bool where
  "walks_compressed_uncompressed_and_root_names \<longleftrightarrow>
     (let message = label ''ExAmPlE'' @ label ''COM'' @ [0] @ label ''WWW'' @ [0xc0, 0x00] in
      list_all (\<lambda>(start, end_of, expected).
        skip_name message start = Some end_of \<and> read_name message start = Ret (Some (expected, end_of)))
        [(0, 13, label ''example'' @ label ''com'' @ [0]),
         (13, 19, label ''www'' @ label ''example'' @ label ''com'' @ [0]),
         (12, 13, [0])])"

lemma walks_compressed_uncompressed_and_root_names_passes: walks_compressed_uncompressed_and_root_names
  by (simp add: walks_compressed_uncompressed_and_root_names_def wire_eval)

definition rejects_malformed_names_even_when_only_skipping :: bool where
  "rejects_malformed_names_even_when_only_skipping \<longleftrightarrow>
     list_all (\<lambda>message. skip_name message 0 = None \<and> read_name message 0 = Ret None)
       [[], [3, 97, 98], [1, 97], [0xc0], [0xc0, 2], [0xc0, 2, 3, 97, 98], [0xc0, 0], [0xc0, 2, 0xc0, 0],
        [0x40, 0], [0x80, 0]]"

lemma rejects_malformed_names_even_when_only_skipping_passes: rejects_malformed_names_even_when_only_skipping
  by (simp add: rejects_malformed_names_even_when_only_skipping_def wire_eval)

end
