(* ===== verification/Cache_Tests.thy ===== *)
theory Cache_Tests
  imports Proxy Wire_Eval
begin

text \<open>
  The tests of \<open>src/src/proxy/cache.rs\<close> and the local answers of \<open>src/src/proxy/mod.rs\<close> on the
  model, over the reference LRU map.  The clock, which the code's tests read and set back, is given.
  A test is a sequence of calls that must return without a panic, with its assertions true.
\<close>

section \<open>Messages\<close>

definition a_query :: "u16 \<Rightarrow> bytes" where
  "a_query ident = to_be16 ident @ [0x01, 0x00, 0, 1, 0, 0, 0, 0, 0, 0] @ [1, 97, 0, 0, 1, 0, 1]"

definition response_with_records :: "u16 \<Rightarrow> u32 \<Rightarrow> nat \<Rightarrow> bytes" where
  "response_with_records ident ttl count =
     patch ((a_query ident)[2 := 0x81, 3 := 0x80]) 6 (to_be16 (word_of_nat count))
     @ concat (replicate count ([0xc0, 0x0c, 0, 1, 0, 1] @ to_be32 ttl @ [0, 4, 1, 1, 1, 1]))"

definition a_response :: "u16 \<Rightarrow> u32 \<Rightarrow> bytes" where
  "a_response ident ttl = response_with_records ident ttl 1"

definition edns_query :: "u16 \<Rightarrow> u16 \<Rightarrow> bytes" where
  "edns_query ident payload = (a_query ident)[11 := 1] @ [0, 0, 41] @ to_be16 payload @ replicate 6 0"

section \<open>Calls\<close>

type_synonym lru_cache = "(query_key, entry) ref_lru cache"

definition meta_for :: "bytes \<Rightarrow> (query_meta \<Rightarrow> bool run) \<Rightarrow> bool run" where
  "meta_for query test = (case parse_query_meta query of Some meta \<Rightarrow> test meta | None \<Rightarrow> Panic)"

definition inserting :: "lru_cache \<Rightarrow> query_meta \<Rightarrow> bytes \<Rightarrow> nat \<Rightarrow> (lru_cache \<Rightarrow> bool run) \<Rightarrow> bool run" where
  "inserting cache meta response now = run_bind (insert_response ref_lru cache meta response now)"

definition getting ::
  "lru_cache \<Rightarrow> query_meta \<Rightarrow> u8 \<times> u8 \<Rightarrow> nat \<Rightarrow> (bytes option \<Rightarrow> lru_cache \<Rightarrow> bool run) \<Rightarrow> bool run" where
  "getting cache meta ident now test =
     run_bind (get_into ref_lru cache meta ident now []) (\<lambda>(found, response, cache).
       test (if found then Some response else None) cache)"

text \<open>Writing through \<open>get_mut\<close>.\<close>

definition with_entry :: "query_meta \<Rightarrow> (entry \<Rightarrow> entry) \<Rightarrow> lru_cache \<Rightarrow> lru_cache" where
  "with_entry meta f cache =
     map_option (\<lambda>entries. case lru_get ref_lru entries (key meta) of
         (Some e, entries) \<Rightarrow> lru_set ref_lru entries (key meta) (f e) | (None, entries) \<Rightarrow> entries) cache"

definition now :: nat where "now = 100 * second"

declare a_query_def [wire_eval] response_with_records_def [wire_eval] a_response_def [wire_eval] edns_query_def [wire_eval]
  meta_for_def [wire_eval] inserting_def [wire_eval] getting_def [wire_eval] with_entry_def [wire_eval]
  now_def [wire_eval] second_def [wire_eval]
  cache_new_def [wire_eval] insert_response_def [wire_eval] get_into_def [wire_eval] age_entry_def [wire_eval]
  write_range_def [wire_eval] ref_lru_def [wire_eval] ref_get_def [wire_eval] ref_set_def [wire_eval]
  ref_put_def [wire_eval] ref_pop_def [wire_eval]

section \<open>Hits\<close>

definition restores_each_clients_id :: bool where
  "restores_each_clients_id \<longleftrightarrow>
     meta_for (a_query 1) (\<lambda>meta.
       inserting (cache_new ref_lru True 2) meta (a_response 1 60) now (\<lambda>cache.
       getting cache meta (0xab, 0xcd) now (\<lambda>got _. Ret (map_option (take 2) got = Some [0xab, 0xcd])))) = Ret True"

lemma restores_each_clients_id_passes: restores_each_clients_id
  by (simp add: restores_each_clients_id_def wire_eval)

definition repeated_aging_never_extends_the_original_expiry :: bool where
  "repeated_aging_never_extends_the_original_expiry \<longleftrightarrow>
     meta_for (a_query 1) (\<lambda>meta.
       let initial = now - 1500000000 in
       inserting (cache_new ref_lru True 1) meta (a_response 1 2) now (\<lambda>cache.
       getting (with_entry meta (\<lambda>e. e\<lparr>e_aged_at := initial\<rparr>) cache) meta (0, 1) now (\<lambda>got cache.
         case (got, cache) of
           (Some response, Some entries) \<Rightarrow>
             (case fst (lru_get ref_lru entries (key meta)) of
                None \<Rightarrow> Ret False
              | Some e \<Rightarrow>
                  getting (with_entry meta (\<lambda>e. e\<lparr>e_aged_at := e_aged_at e - 600000000\<rparr>) cache) meta (0, 2) now (\<lambda>again _.
                    Ret (cache_ttl response 1 = Some 1
                      \<and> e_aged_at e + unat (e_ttl e) * second = initial + 2 * second \<and> again = None)))
         | _ \<Rightarrow> Ret False))) = Ret True"

lemma repeated_aging_never_extends_the_original_expiry_passes: repeated_aging_never_extends_the_original_expiry
  by (simp add: repeated_aging_never_extends_the_original_expiry_def wire_eval)

definition disabled_cache_is_a_noop :: bool where
  "disabled_cache_is_a_noop \<longleftrightarrow>
     meta_for (a_query 1) (\<lambda>meta.
       inserting (cache_new ref_lru False 2) meta (a_response 1 60) now (\<lambda>cache.
       getting cache meta (0, 1) now (\<lambda>got _. Ret (got = None)))) = Ret True"

lemma disabled_cache_is_a_noop_passes: disabled_cache_is_a_noop
  by (simp add: disabled_cache_is_a_noop_def wire_eval)

definition expired_entries_are_removed :: bool where
  "expired_entries_are_removed \<longleftrightarrow>
     meta_for (a_query 1) (\<lambda>meta.
       inserting (cache_new ref_lru True 2) meta (a_response 1 60) now (\<lambda>cache.
       getting (with_entry meta (\<lambda>e. e\<lparr>e_ttl := 1, e_aged_at := now - 2 * second\<rparr>) cache) meta (0, 1) now (\<lambda>got cache.
         Ret (got = None \<and> map_option snd cache = Some [])))) = Ret True"

lemma expired_entries_are_removed_passes: expired_entries_are_removed
  by (simp add: expired_entries_are_removed_def wire_eval)

section \<open>Keys\<close>

fun all_miss :: "bytes list \<Rightarrow> u8 \<times> u8 \<Rightarrow> lru_cache \<Rightarrow> bool run" where
  "all_miss [] ident cache = Ret True"
| "all_miss (query # rest) ident cache =
     meta_for query (\<lambda>meta. getting cache meta ident now (\<lambda>got cache.
       if got = None then all_miss rest ident cache else Ret False))"

definition separates_queries_that_can_produce_different_answers :: bool where
  "separates_queries_that_can_produce_different_answers \<longleftrightarrow>
     (let query = edns_query 1 4096 in
      meta_for query (\<lambda>meta.
        inserting (cache_new ref_lru True 2) meta (a_response 1 60) now (\<lambda>cache.
        getting cache meta (0, 1) now (\<lambda>got cache.
          if got = None then Ret False
          else all_miss (map (\<lambda>(offset, value). query[offset := value])
                 [(13, 98), (16, 28), (18, 3), (26, 0x80), (3, 0x20), (3, 0x10)]) (0, 2) cache))) = Ret True)"

lemma separates_queries_that_can_produce_different_answers_passes: separates_queries_that_can_produce_different_answers
  by (simp add: separates_queries_that_can_produce_different_answers_def wire_eval)

definition reuses_answers_across_udp_payload_sizes :: bool where
  "reuses_answers_across_udp_payload_sizes \<longleftrightarrow>
     meta_for (edns_query 1 4096) (\<lambda>large. meta_for (edns_query 2 512) (\<lambda>small.
       inserting (cache_new ref_lru True 2) large (a_response 1 60) now (\<lambda>cache.
       getting cache small (0, 2) now (\<lambda>got _.
         Ret (udp_size large = 4096 \<and> udp_size small = 512 \<and> map_option (take 2) got = Some [0, 2]))))) = Ret True"

lemma reuses_answers_across_udp_payload_sizes_passes: reuses_answers_across_udp_payload_sizes
  by (simp add: reuses_answers_across_udp_payload_sizes_def wire_eval)

definition edns_and_non_edns_clients_never_share_wire_responses :: bool where
  "edns_and_non_edns_clients_never_share_wire_responses \<longleftrightarrow>
     meta_for (a_query 1) (\<lambda>plain. meta_for (edns_query 2 1232) (\<lambda>edns.
       let with_opt = (a_response 2 60)[11 := 1] @ [0, 0, 41, 0x10, 0, 0, 0, 0, 0, 0, 0];
           round = (\<lambda>(mine, response, other).
             inserting (cache_new ref_lru True 2) mine response now (\<lambda>cache.
             getting cache other (0, 3) now (\<lambda>missed cache.
             inserting cache plain (a_response 1 60) now (\<lambda>cache.
             inserting cache edns with_opt now (\<lambda>cache.
             getting cache plain (0, 4) now (\<lambda>first cache.
             getting cache edns (0, 5) now (\<lambda>second_one _.
               Ret (missed = None \<and> map_option (\<lambda>r. r ! 11) first = Some 0
                    \<and> map_option (\<lambda>r. r ! 11) second_one = Some 1)))))))) in
       Ret (list_all (\<lambda>r. r = Ret True)
         (map round [(plain, a_response 1 60, edns), (edns, with_opt, plain)])))) = Ret True"

lemma edns_and_non_edns_clients_never_share_wire_responses_passes: edns_and_non_edns_clients_never_share_wire_responses
  by (simp add: edns_and_non_edns_clients_never_share_wire_responses_def wire_eval)

section \<open>Lifetimes\<close>

definition malformed_records_never_enter_the_cache :: bool where
  "malformed_records_never_enter_the_cache \<longleftrightarrow>
     meta_for (a_query 1) (\<lambda>meta.
       let complete = a_response 1 120 in
       Ret (list_all (\<lambda>end_of.
         inserting (cache_new ref_lru True 2) meta (take end_of complete) now (\<lambda>cache.
           getting cache meta (0, 1) now (\<lambda>got cache. Ret (got = None \<and> cache = cache_new ref_lru True 2))) = Ret True)
         [0 ..< length complete])) = Ret True"

lemma malformed_records_never_enter_the_cache_passes: malformed_records_never_enter_the_cache
  by (simp add: malformed_records_never_enter_the_cache_def upt_rec_numeral list.pred_True wire_eval)

definition a_negative :: "u32 \<Rightarrow> bytes" where
  "a_negative ttl =
     (a_query 1)[2 := 0x81, 3 := 0x83, 9 := 1] @ [0xc0, 0x0c, 0, 6, 0, 1] @ to_be32 ttl
     @ [0, 24, 0xc0, 0x0c, 0xc0, 0x0c] @ replicate 16 0 @ to_be32 ttl"

definition short_negative_answers_expire_and_zero_ttl_never_enters_cache :: bool where
  "short_negative_answers_expire_and_zero_ttl_never_enters_cache \<longleftrightarrow>
     meta_for (a_query 1) (\<lambda>meta.
       Ret (list_all (\<lambda>ttl.
         inserting (cache_new ref_lru True 1) meta (a_negative ttl) now (\<lambda>cache.
           if ttl > 0 then
             getting cache meta (0, 2) now (\<lambda>got cache.
             getting (with_entry meta (\<lambda>e. e\<lparr>e_aged_at := now - second\<rparr>) cache) meta (0, 3) now (\<lambda>again _.
               Ret (got \<noteq> None \<and> again = None)))
           else getting cache meta (0, 3) now (\<lambda>again _. Ret (again = None))) = Ret True) [0, 1])) = Ret True"

lemma short_negative_answers_expire_and_zero_ttl_never_enters_cache_passes:
  short_negative_answers_expire_and_zero_ttl_never_enters_cache
  by (simp add: short_negative_answers_expire_and_zero_ttl_never_enters_cache_def a_negative_def wire_eval)

definition ages_shared_ttls_once_without_sharing_client_mutations :: bool where
  "ages_shared_ttls_once_without_sharing_client_mutations \<longleftrightarrow>
     meta_for (a_query 1) (\<lambda>meta.
       let opt = [0, 0, 41, 0x10, 0, 0, 0, 0x80, 0, 0, 0]; original = (a_response 1 120)[11 := 1] @ opt;
           aged_at = now - 20500000000;
           round = (\<lambda>(a, b) ttl cache continue.
             getting (with_entry meta (\<lambda>e. e\<lparr>e_aged_at := aged_at\<rparr>) cache) meta (a, b) now (\<lambda>got cache.
             getting cache meta (0, 7) now (\<lambda>again cache.
               case (got, again, Option.bind cache (\<lambda>entries. fst (lru_get ref_lru entries (key meta)))) of
                 (Some g, Some r, Some e) \<Rightarrow>
                   if take 2 g = [a, b] \<and> cache_ttl g 1 = Some ttl \<and> drop (length g - length opt) g = opt
                     \<and> drop 2 r = drop 2 g \<and> take 2 (e_response e) = [0, 0] \<and> drop 2 (e_response e) = drop 2 r
                     \<and> e_aged_at e = aged_at + 20 * second
                   then continue cache else Ret False
               | _ \<Rightarrow> Ret False))) in
       inserting (cache_new ref_lru True 2) meta original now (\<lambda>cache.
         round (0x12, 0x34) 100 cache (\<lambda>cache. round (0xab, 0xcd) 80 cache (\<lambda>_. Ret True)))) = Ret True"

lemma ages_shared_ttls_once_without_sharing_client_mutations_passes: ages_shared_ttls_once_without_sharing_client_mutations
  by (simp add: ages_shared_ttls_once_without_sharing_client_mutations_def wire_eval)

section \<open>Local answers\<close>

definition multi_question_query :: bytes where
  "multi_question_query = [0xab, 0xcd, 0x01, 0x00, 0x00, 0x02, 0, 0, 0, 0, 0, 0]
     @ [1, 97, 0, 0, 1, 0, 1] @ [1, 98, 0, 0, 1, 0, 1]"

declare multi_question_query_def [wire_eval] formerr_def [wire_eval] local_response_def [wire_eval]

definition formerr_is_a_header_only_response :: bool where
  "formerr_is_a_header_only_response \<longleftrightarrow>
     (let query = multi_question_query in
      run_bind (formerr query) (\<lambda>response.
        Ret (length response = 12 \<and> take 2 response = take 2 query \<and> response ! 2 AND 0x80 \<noteq> 0
          \<and> response ! 2 AND 0x01 = query ! 2 AND 0x01 \<and> response ! 3 AND 0x0f = 1
          \<and> drop 4 response = replicate 8 0)) = Ret True)"

lemma formerr_is_a_header_only_response_passes: formerr_is_a_header_only_response
  by (simp add: formerr_is_a_header_only_response_def wire_eval)

text \<open>The forwarding that follows a miss is never reached.\<close>

definition multi_question_queries_never_reach_an_upstream :: bool where
  "multi_question_queries_never_reach_an_upstream \<longleftrightarrow>
     (let query = multi_question_query; cache = cache_new ref_lru False 1 :: lru_cache; meta = parse_query_meta query in
      meta = None
      \<and> run_bind (local_response ref_lru cache query meta now []) (\<lambda>(found, response, _).
          Ret (found \<and> length response = 12 \<and> take 2 response = take 2 query \<and> response ! 2 AND 0x80 \<noteq> 0
            \<and> response ! 3 AND 0x0f = 1 \<and> drop 4 response = replicate 8 0)) = Ret True)"

lemma multi_question_queries_never_reach_an_upstream_passes: multi_question_queries_never_reach_an_upstream
  by (simp add: multi_question_queries_never_reach_an_upstream_def wire_eval)

end
