(* ===== verification/Network_Tests.thy ===== *)
theory Network_Tests
  imports Daemon Net_Text Wire_Eval
begin

text \<open>
  The tests of \<open>src/src/upstream/legacy.rs\<close> and \<open>src/src/upstream/mod.rs\<close> on the model.  The sockets
  the tests open are given as servers, and \<open>play\<close> is the schedule of an idle runtime: whatever is
  due first happens next.  Times are in milliseconds from the start of a query.
\<close>

declare questions_match_names [code] read_name_labels [code]

section \<open>Plain exchanges\<close>

definition query_bytes :: "u16 \<Rightarrow> bytes" where
  "query_bytes ident = to_be16 ident @ [0x01, 0x00, 0, 1, 0, 0, 0, 0, 0, 0] @ [1, 97, 0, 0, 1, 0, 1]"

definition query_with_edns :: bytes where
  "query_with_edns = (query_bytes 0x1234)[11 := 1] @ [0, 0, 41, 0x04, 0xd0, 0, 0, 0, 0, 0, 6, 0, 12, 0, 2, 0, 0]"

definition set_bits :: "nat \<Rightarrow> u8 \<Rightarrow> bytes \<Rightarrow> bytes" where
  "set_bits i bits message = message[i := message ! i OR bits]"

definition udp_sends :: "bytes list \<Rightarrow> udp_net" where
  "udp_sends datagrams = \<lparr>udp_bind = None, udp_connect = None, udp_send = None, udp_recv = map Inr datagrams\<rparr>"

definition tcp_sends :: "bytes \<Rightarrow> tcp_net" where
  "tcp_sends input = \<lparr>tcp_connect = None, tcp_write = None, tcp_input = input, tcp_read_error = ''eof''\<rparr>"

definition no_listener :: tcp_net where
  "no_listener = (tcp_sends [])\<lparr>tcp_connect := Some ''connection refused''\<rparr>"

definition udp_preserves_query_and_truncated_response_bytes :: bool where
  "udp_preserves_query_and_truncated_response_bytes \<longleftrightarrow>
     (let response = set_bits 3 0x80 (set_bits 2 0x82 query_with_edns) in
      legacy_query (udp_sends [response]) no_listener query_with_edns False = Some (Inr response))"

lemma udp_preserves_query_and_truncated_response_bytes_passes: udp_preserves_query_and_truncated_response_bytes
  by code_simp

definition tcp_retry_preserves_query_and_response_bytes :: bool where
  "tcp_retry_preserves_query_and_response_bytes \<longleftrightarrow>
     (let response = set_bits 3 0x80 (set_bits 2 0x80 query_with_edns) in
      legacy_query (udp_sends [set_bits 2 0x02 response]) (tcp_sends (frame response)) query_with_edns True
        = Some (Inr response))"

lemma tcp_retry_preserves_query_and_response_bytes_passes: tcp_retry_preserves_query_and_response_bytes
  by code_simp

definition failed_tcp_retry_is_an_upstream_failure_not_a_truncated_tcp_answer :: bool where
  "failed_tcp_retry_is_an_upstream_failure_not_a_truncated_tcp_answer \<longleftrightarrow>
     (case legacy_query (udp_sends [set_bits 2 0x82 (query_bytes 1)]) no_listener (query_bytes 1) True of
        Some (Inl _) \<Rightarrow> True | _ \<Rightarrow> False)"

lemma failed_tcp_retry_is_an_upstream_failure_not_a_truncated_tcp_answer_passes:
  failed_tcp_retry_is_an_upstream_failure_not_a_truncated_tcp_answer
  by code_simp

definition tcp_responder :: "u16 \<Rightarrow> bool \<Rightarrow> bytes \<Rightarrow> tcp_net" where
  "tcp_responder respond_with_id wrong_question received =
     (let received = set_bits 2 0x80 (patch received 0 (to_be16 respond_with_id));
          received = (if wrong_question then received[13 := 122] else received) in
      tcp_sends (frame received))"

definition tcp_accepts_matching_id :: bool where
  "tcp_accepts_matching_id \<longleftrightarrow>
     (case query_tcp (tcp_responder 0x1234 False (query_bytes 0x1234)) (query_bytes 0x1234) of
        Inr response \<Rightarrow> take 2 response = to_be16 0x1234 | Inl _ \<Rightarrow> False)"

lemma tcp_accepts_matching_id_passes: tcp_accepts_matching_id
  by code_simp

definition tcp_rejects_id_mismatch :: bool where
  "tcp_rejects_id_mismatch \<longleftrightarrow>
     query_tcp (tcp_responder 0xbeef False (query_bytes 0x1234)) (query_bytes 0x1234) = Inl TcpIdMismatch"

lemma tcp_rejects_id_mismatch_passes: tcp_rejects_id_mismatch
  by code_simp

definition tcp_rejects_answer_to_a_different_question :: bool where
  "tcp_rejects_answer_to_a_different_question \<longleftrightarrow>
     (case query_tcp (tcp_responder 0x1234 True (query_bytes 0x1234)) (query_bytes 0x1234) of
        Inl (TcpRejected _) \<Rightarrow> True | _ \<Rightarrow> False)"

lemma tcp_rejects_answer_to_a_different_question_passes: tcp_rejects_answer_to_a_different_question
  by code_simp

text \<open>Messages of thousands of bytes: the padding is not unfolded.\<close>

lemma replicate_six: "replicate 6 x = [x, x, x, x, x, x]"
  by (simp add: replicate_numeral)

definition pointing_response :: bytes where
  "pointing_response =
     (let response = set_bits 2 0x80 (take 12 (query_bytes 0x1234));
          response = response[7 := 1] @ [0xc0, 29, 0, 1, 0, 1] @ [0, 0, 10, 0, 1, 0, 0, 0, 60, 0x0f, 0xe4, 1, 97, 0] in
      response @ replicate (4097 - length response) 0)"

definition clipping_rejects_a_question_pointing_into_removed_bytes :: bool where
  "clipping_rejects_a_question_pointing_into_removed_bytes \<longleftrightarrow>
     validate_response (query_bytes 0x1234) pointing_response = Inr ()
     \<and> (case query_udp (udp_sends [pointing_response]) (query_bytes 0x1234) of
          Some (Inl (TruncatedUdpRejected _)) \<Rightarrow> True | _ \<Rightarrow> False)"

lemma clipping_rejects_a_question_pointing_into_removed_bytes_passes:
  clipping_rejects_a_question_pointing_into_removed_bytes
  by (simp add: clipping_rejects_a_question_pointing_into_removed_bytes_def pointing_response_def query_bytes_def
      set_bits_def udp_sends_def query_udp_def udp_accepts_def wire_eval replicate_six word_le_nat_alt del: replicate_numeral)

definition response_of_size :: "bytes \<Rightarrow> nat \<Rightarrow> bytes" where
  "response_of_size request n =
     (let response = patch (set_bits 2 0x80 request) 6 (to_be16 1) @ [0xc0, 0x0c, 0, 10, 0, 1, 0, 0, 0, 60];
          response = response @ to_be16 (word_of_nat (n - length response - 2)) in
      response @ replicate (n - length response) 0)"

definition oversized_udp_responses_are_marked_truncated_and_tcp_gets_the_full_answer :: bool where
  "oversized_udp_responses_are_marked_truncated_and_tcp_gets_the_full_answer \<longleftrightarrow>
     list_all (\<lambda>n. list_all (\<lambda>tcp_retry.
       let request = query_bytes 0x1234; full = response_of_size request n in
       (case legacy_query (udp_sends [full]) (if n > 4096 \<and> tcp_retry then tcp_sends (frame full) else no_listener)
               request tcp_retry of
          Some (Inr response) \<Rightarrow>
            if n \<le> 4096 \<or> tcp_retry then response = full
            else is_truncated response \<and> length response = length request \<and> take 6 (drop 6 response) = replicate 6 0
                 \<and> validate_response request response = Inr ()
        | _ \<Rightarrow> False)) [False, True]) [4096, 4097, 6344]"

lemma oversized_udp_responses_are_marked_truncated_and_tcp_gets_the_full_answer_passes:
  oversized_udp_responses_are_marked_truncated_and_tcp_gets_the_full_answer
  by (simp add: oversized_udp_responses_are_marked_truncated_and_tcp_gets_the_full_answer_def response_of_size_def query_bytes_def
      set_bits_def udp_sends_def query_udp_def udp_accepts_def wire_eval replicate_six word_le_nat_alt legacy_query_def query_tcp_def is_truncated_def
      frame_def tcp_sends_def no_listener_def read_exact_def del: replicate_numeral)

section \<open>Servers and the schedule\<close>

text \<open>A server answers a query with a datagram after a while, or never.\<close>

datatype test_server = Blackhole | Replies nat "bytes \<Rightarrow> bytes"

fun udp_of :: "test_server \<Rightarrow> bytes \<Rightarrow> udp_net" where
  "udp_of Blackhole query = udp_sends []"
| "udp_of (Replies _ reply) query = udp_sends [reply query]"

fun delay_of :: "test_server \<Rightarrow> nat option" where
  "delay_of Blackhole = None"
| "delay_of (Replies delay _) = Some delay"

text \<open>A parser that accepts every query, for an encrypted upstream behind the same server.\<close>

definition plain_view :: message_view where
  "plain_view = \<lparr>mv_is_query = True, mv_opcode_query = True, mv_queries = 1, mv_answers = 0, mv_authorities = 0,
     mv_additionals = 0, mv_signed = False\<rparr>"

definition net_of :: "test_server \<Rightarrow> bytes \<Rightarrow> attempt_net" where
  "net_of server query =
     \<lparr>an_resolve = \<lambda>_ _. Inl ''unused'', an_udp = \<lambda>_. udp_of server query, an_tcp = \<lambda>_. no_listener,
      an_from_vec = \<lambda>_. Inr plain_view,
      an_channel = \<lambda>_ _. (case server of Blackhole \<Rightarrow> None | Replies _ reply \<Rightarrow> Some (Inr (reply query))),
      an_done_after = (case delay_of server of Some delay \<Rightarrow> delay | None \<Rightarrow> 0)\<rparr>"

text \<open>When an attempt is over: with the reply, or at its timeout.\<close>

definition over_after :: "upstream_entry \<Rightarrow> test_server \<Rightarrow> nat option" where
  "over_after entry server =
     (case (delay_of server, outer_timeout entry) of
        (Some delay, Some limit) \<Rightarrow> Some (min delay limit)
      | (None, limit) \<Rightarrow> limit
      | (delay, None) \<Rightarrow> delay)"

record race_lab =
  lb_servers :: "test_server list"
  lb_fallback :: "socket_addr \<Rightarrow> test_server"
  lb_budget :: nat

fun earliest :: "(nat \<times> 'e) list \<Rightarrow> (nat \<times> 'e) option" where
  "earliest [] = None"
| "earliest ((t, e) # rest) =
     (case earliest rest of Some (t', e') \<Rightarrow> if t' < t then Some (t', e') else Some (t, e) | None \<Rightarrow> Some (t, e))"

definition next_due :: "manager \<Rightarrow> race_lab \<Rightarrow> bytes \<Rightarrow> (nat \<times> nat) list \<Rightarrow> nat \<Rightarrow> hedge \<Rightarrow> (nat \<times> net_event) option" where
  "next_due m l query started now st =
     (case hd_phase st of
        Finished _ \<Rightarrow> None
      | Head \<Rightarrow> Some (now, NetTurn now now (length (running st) < lb_budget l))
      | _ \<Rightarrow> earliest
          (List.map_filter (\<lambda>i. case (map_of started i, over_after (mg_entries m ! i) (lb_servers l ! i)) of
               (Some t, Some after) \<Rightarrow> Some (t + after, NetDone i (net_of (lb_servers l ! i) query))
             | _ \<Rightarrow> None) (running st)
           @ (case hd_at st of Some t \<Rightarrow> [(t, NetTimer t)] | None \<Rightarrow> [])))"

text \<open>The events of a race, the starts of its attempts and the time of its last event.\<close>

fun play ::
  "nat \<Rightarrow> manager \<Rightarrow> race_lab \<Rightarrow> bytes \<Rightarrow> (nat \<times> nat) list \<Rightarrow> nat \<Rightarrow> hedge \<Rightarrow> net_event list \<times> (nat \<times> nat) list \<times> nat \<times> hedge"
where
  "play 0 m l query started now st = ([], started, now, st)"
| "play (Suc fuel) m l query started now st =
     (case next_due m l query started now st of
        None \<Rightarrow> ([], started, now, st)
      | Some (t, e) \<Rightarrow>
          (case race_event m query False e of
             None \<Rightarrow> ([], started, now, st)
           | Some e' \<Rightarrow>
               (case hedge_step query e' st of
                  Panic \<Rightarrow> ([], started, now, st)
                | Ret st' \<Rightarrow>
                    map_prod ((#) e) id (play fuel m l query
                      (if hd_next st' > hd_next st then (hd_next st, t) # started else started) t st'))))"

text \<open>
  What a query comes to: the result of \<open>forward\<close> (\<open>None\<close> while it waits), which upstreams were sent
  how many queries, the permits free at the end, and the time the race took.
\<close>

record outcome =
  oc_result :: "(bytes option \<times> manager) option"
  oc_sent :: "nat list"
  oc_free :: nat
  oc_elapsed :: nat

definition system_net :: "race_lab \<Rightarrow> bytes \<Rightarrow> socket_addr \<Rightarrow> udp_net \<times> tcp_net \<times> nat" where
  "system_net l query addr =
     (udp_of (lb_fallback l addr) query, no_listener, case delay_of (lb_fallback l addr) of Some d \<Rightarrow> d | None \<Rightarrow> 0)"

definition lab_net :: "race_lab \<Rightarrow> net_event list \<Rightarrow> bytes \<Rightarrow> forward_net" where
  "lab_net l events query =
     \<lparr>fn_permit = lb_budget l > 0, fn_single = net_of (hd (lb_servers l)) query, fn_race = events,
      fn_system_permit = lb_budget l > 0, fn_system = system_net l query\<rparr>"

definition forwarding_one :: "manager \<Rightarrow> race_lab \<Rightarrow> bytes \<Rightarrow> outcome" where
  "forwarding_one m l query =
     \<lparr>oc_result = (if still_waiting m False (lab_net l [] query) query then None
                   else case manager_forward m query (net_env m False (lab_net l [] query) query) of Ret r \<Rightarrow> r | Panic \<Rightarrow> None),
      oc_sent = [if lb_budget l > 0 then 1 else 0], oc_free = lb_budget l,
      oc_elapsed = (case over_after (hd (mg_entries m)) (hd (lb_servers l)) of Some t \<Rightarrow> t | None \<Rightarrow> 0)\<rparr>"

definition forwarding_race :: "manager \<Rightarrow> race_lab \<Rightarrow> bytes \<Rightarrow> outcome" where
  "forwarding_race m l query =
     (case play 20 m l query [] 0 (hedge_init m) of (events, started, now, st) \<Rightarrow>
       \<lparr>oc_result = (case hd_phase st of
            Finished answer \<Rightarrow>
              (case or_system (answer, hd_manager st) (net_env m False (lab_net l [] query) query) of Ret r \<Rightarrow> Some r | Panic \<Rightarrow> None)
          | _ \<Rightarrow> None),
        oc_sent = map (\<lambda>i. count_list (map fst started) i) [0 ..< length (mg_entries m)],
        oc_free = lb_budget l - length (running st), oc_elapsed = now\<rparr>)"

text \<open>The schedule is one of the interleavings of the race: what it gives is what \<open>forward\<close> gives.\<close>

lemma play_is_a_race:
  "play fuel m l query started now st = (events, started', now', st') \<Longrightarrow>
     fold_run (hedge_step query) (List.map_filter (race_event m query False) events) st = Ret st'"
  by (induction fuel arbitrary: started now st events)
    (force simp: List.map_filter_simps map_prod_def split: option.splits run.splits prod.splits)+

lemma forwarding_race_is_forward:
  assumes "length (mg_entries m) \<noteq> 1" "play 20 m l query [] 0 (hedge_init m) = (events, started, now, st)"
  shows "oc_result (forwarding_race m l query) =
     (case manager_forward m query (net_env m False (lab_net l events query) query) of Ret r \<Rightarrow> r | Panic \<Rightarrow> None)"
  using play_is_a_race [OF assms(2)] assms
  by (auto simp: forwarding_race_def manager_forward_def forward_hedged_def net_env_def lab_net_def or_system_def
      split: phase.splits option.splits run.splits)

section \<open>The manager\<close>

definition local_addr :: "u16 \<Rightarrow> socket_addr" where
  "local_addr port = SocketV4 (IP4 127 0 0 1) port"

definition test_upstream :: "string \<Rightarrow> socket_addr \<Rightarrow> nat \<Rightarrow> upstream" where
  "test_upstream name addr timeout_ms =
     \<lparr>up_name = name, up_proto = Legacy, up_host = show_ip (sock_ip addr), up_port = sock_port addr, up_path = [],
      up_bootstrap_ip = Some (sock_ip addr), up_timeout_ms = timeout_ms, up_ip_stack = Both\<rparr>"

text \<open>Upstreams on local ports one after the other, and the servers behind them.\<close>

definition two_upstreams :: "nat \<Rightarrow> nat \<Rightarrow> upstream list" where
  "two_upstreams timeout1 timeout2 =
     [test_upstream ''primary'' (local_addr 5001) timeout1, test_upstream ''backup'' (local_addr 5002) timeout2]"

definition with_manager ::
  "upstream list \<Rightarrow> socket_addr list \<Rightarrow> socket_addr list \<Rightarrow> (manager \<Rightarrow> bool) \<Rightarrow> bool" where
  "with_manager upstreams listeners fallback test \<longleftrightarrow>
     (case manager_new upstreams listeners fallback of Inr m \<Rightarrow> test m | Inl _ \<Rightarrow> False)"

definition serving :: "test_server list \<Rightarrow> race_lab" where
  "serving servers = \<lparr>lb_servers = servers, lb_fallback = \<lambda>_. Blackhole, lb_budget = MAX_ATTEMPTS\<rparr>"

definition response_of :: "outcome \<Rightarrow> bytes option" where
  "response_of oc = Option.bind (oc_result oc) fst"

definition gave_up :: "outcome \<Rightarrow> (manager \<Rightarrow> bool) \<Rightarrow> bool" where
  "gave_up oc test = (case oc_result oc of Some (None, m) \<Rightarrow> test m | _ \<Rightarrow> False)"

definition TEST_QUERY :: bytes where
  "TEST_QUERY = [0x12, 0x34, 0x01, 0x00, 0x00, 0x01, 0x00, 0x00, 0x00, 0x00, 0x00, 0x00, 0x00, 0x00, 0x01, 0x00, 0x01]"

definition labeled_query :: "u16 \<Rightarrow> bytes" where
  "labeled_query ident = to_be16 ident @ [0x01, 0x00, 0, 1, 0, 0, 0, 0, 0, 0] @ [1, 97, 0, 0, 1, 0, 1]"

definition udp_responder :: "bool \<Rightarrow> bytes \<Rightarrow> bytes" where
  "udp_responder mutate_name message =
     (let message = set_bits 2 0x80 message in if mutate_name then message[13 := 122] else message)"

definition exhausted_upstreams_use_direct_system_fallback :: bool where
  "exhausted_upstreams_use_direct_system_fallback \<longleftrightarrow>
     with_manager [test_upstream ''dead primary'' (local_addr 5001) 20] [local_addr 5354] [local_addr 5002] (\<lambda>m.
       case oc_result (forwarding_one m ((serving [Blackhole])\<lparr>lb_fallback := \<lambda>addr.
           if addr = local_addr 5002 then Replies 0 (\<lambda>query. set_bits 3 0x80 (set_bits 2 0x80 query)) else Blackhole\<rparr>) TEST_QUERY) of
         Some (Some response, m) \<Rightarrow>
           take 2 response = take 2 TEST_QUERY \<and> response ! 2 AND 0x80 \<noteq> 0 \<and> mg_fallback_active m \<and> \<not> mg_fallback_failed m
       | _ \<Rightarrow> False)"

lemma exhausted_upstreams_use_direct_system_fallback_passes: exhausted_upstreams_use_direct_system_fallback
  by code_simp

definition zero_timeout_never_fails_over_past_a_blackhole :: bool where
  "zero_timeout_never_fails_over_past_a_blackhole \<longleftrightarrow>
     with_manager (two_upstreams 0 0) [local_addr 5354] [] (\<lambda>m.
       let oc = forwarding_race m (serving [Blackhole, Blackhole]) TEST_QUERY in
       oc_result oc = None \<and> oc_sent oc = [1, 0])"

lemma zero_timeout_never_fails_over_past_a_blackhole_passes: zero_timeout_never_fails_over_past_a_blackhole
  by code_simp

definition responses_answering_a_different_question_are_rejected :: bool where
  "responses_answering_a_different_question_are_rejected \<longleftrightarrow>
     with_manager (two_upstreams 200 200) [local_addr 5354] [] (\<lambda>m.
       let oc = forwarding_race m (serving [Replies 0 (udp_responder True), Replies 0 (udp_responder False)]) (labeled_query 0x4242) in
       (case response_of oc of Some response \<Rightarrow> response ! 13 = 97 | None \<Rightarrow> False) \<and> oc_sent oc = [1, 1])"

lemma responses_answering_a_different_question_are_rejected_passes: responses_answering_a_different_question_are_rejected
  by code_simp

definition fallback_responses_are_validated_too :: bool where
  "fallback_responses_are_validated_too \<longleftrightarrow>
     with_manager [test_upstream ''dead'' (local_addr 5001) 20] [local_addr 5354] [local_addr 5002] (\<lambda>m.
       gave_up (forwarding_one m ((serving [Blackhole])\<lparr>lb_fallback := \<lambda>_. Replies 0 (udp_responder True)\<rparr>) (labeled_query 0x4243))
         mg_fallback_failed)"

lemma fallback_responses_are_validated_too_passes: fallback_responses_are_validated_too
  by code_simp

definition bounded_timeout_fails_over_to_the_healthy_upstream :: bool where
  "bounded_timeout_fails_over_to_the_healthy_upstream \<longleftrightarrow>
     with_manager (two_upstreams 200 200) [local_addr 5354] [] (\<lambda>m.
       let oc = forwarding_race m (serving [Blackhole, Replies 0 (udp_responder False)]) TEST_QUERY in
       (case response_of oc of
          Some response \<Rightarrow> take 2 response = take 2 TEST_QUERY \<and> response ! 2 AND 0x80 \<noteq> 0 \<and> oc_sent oc = [1, 1]
        | None \<Rightarrow> False))"

lemma bounded_timeout_fails_over_to_the_healthy_upstream_passes: bounded_timeout_fails_over_to_the_healthy_upstream
  by code_simp

definition silent_upstream_is_raced_well_before_its_timeout :: bool where
  "silent_upstream_is_raced_well_before_its_timeout \<longleftrightarrow>
     with_manager (two_upstreams 5000 5000) [local_addr 5354] [] (\<lambda>m.
       let oc = forwarding_race m (serving [Blackhole, Replies 0 (udp_responder False)]) TEST_QUERY in
       (case response_of oc of
          Some response \<Rightarrow>
            take 2 response = take 2 TEST_QUERY \<and> oc_elapsed oc \<ge> HEDGE_DELAY \<and> oc_elapsed oc < 1000 \<and> oc_sent oc = [1, 1]
        | None \<Rightarrow> False))"

lemma silent_upstream_is_raced_well_before_its_timeout_passes: silent_upstream_is_raced_well_before_its_timeout
  by code_simp

definition servfail_racer_does_not_discard_a_successful_primary :: bool where
  "servfail_racer_does_not_discard_a_successful_primary \<longleftrightarrow>
     with_manager (two_upstreams 1000 1000) [] [] (\<lambda>m.
       let oc = forwarding_race m (serving [Replies (HEDGE_DELAY + 20) (set_bits 2 0x80),
           Replies 0 (\<lambda>query. (set_bits 2 0x80 query)[3 := 0x82])]) TEST_QUERY in
       (case response_of oc of Some response \<Rightarrow> response ! 3 AND 0x0f = 0 \<and> oc_sent oc = [1, 1] | None \<Rightarrow> False))"

lemma servfail_racer_does_not_discard_a_successful_primary_passes: servfail_racer_does_not_discard_a_successful_primary
  by code_simp

definition negative_answers_are_not_treated_as_server_failure :: bool where
  "negative_answers_are_not_treated_as_server_failure \<longleftrightarrow>
     list_all (\<lambda>rcode.
       with_manager [test_upstream ''answer'' (local_addr 5001) 1000] [] [] (\<lambda>m.
         (case response_of (forwarding_one m (serving [Replies 0 (\<lambda>query. (set_bits 2 0x80 query)[3 := 0x80 OR rcode])]) TEST_QUERY) of
            Some response \<Rightarrow> response ! 3 AND 0x0f = rcode
          | None \<Rightarrow> False))) [0, 3, 5]"

lemma negative_answers_are_not_treated_as_server_failure_passes: negative_answers_are_not_treated_as_server_failure
  by code_simp

definition losing_legacy_attempts_release_their_budget_before_the_timeout :: bool where
  "losing_legacy_attempts_release_their_budget_before_the_timeout \<longleftrightarrow>
     with_manager (two_upstreams 5000 5000) [] [] (\<lambda>m.
       let oc = forwarding_race m (serving [Blackhole, Replies 0 (udp_responder False)]) TEST_QUERY in
       response_of oc \<noteq> None \<and> oc_free oc = MAX_ATTEMPTS)"

lemma losing_legacy_attempts_release_their_budget_before_the_timeout_passes: losing_legacy_attempts_release_their_budget_before_the_timeout
  by code_simp

definition promoting_a_slow_attempt_to_a_task_never_resends_it :: bool where
  "promoting_a_slow_attempt_to_a_task_never_resends_it \<longleftrightarrow>
     with_manager (two_upstreams 5000 5000) [] [] (\<lambda>m.
       let oc = forwarding_race m (serving [Blackhole, Replies 0 (udp_responder False)]) TEST_QUERY in
       response_of oc \<noteq> None \<and> hd (oc_sent oc) = 1 \<and> oc_free oc = MAX_ATTEMPTS)"

lemma promoting_a_slow_attempt_to_a_task_never_resends_it_passes: promoting_a_slow_attempt_to_a_task_never_resends_it
  by code_simp

definition budget_blocked_hedge_still_tries_the_backup_after_primary_timeout :: bool where
  "budget_blocked_hedge_still_tries_the_backup_after_primary_timeout \<longleftrightarrow>
     with_manager (two_upstreams 400 1000) [] [] (\<lambda>m.
       let oc = forwarding_race m ((serving [Blackhole, Replies 0 (udp_responder False)])\<lparr>lb_budget := 1\<rparr>) TEST_QUERY in
       (case response_of oc of
          Some response \<Rightarrow> response ! 3 AND 0x0f = 0 \<and> oc_elapsed oc < 2000 \<and> oc_sent oc = [1, 1] \<and> oc_free oc = 1
        | None \<Rightarrow> False))"

lemma budget_blocked_hedge_still_tries_the_backup_after_primary_timeout_passes: budget_blocked_hedge_still_tries_the_backup_after_primary_timeout
  by code_simp

definition exhausted_attempt_budget_never_opens_an_upstream_socket :: bool where
  "exhausted_attempt_budget_never_opens_an_upstream_socket \<longleftrightarrow>
     with_manager [test_upstream ''blocked'' (local_addr 5001) 1000] [] [local_addr 5001] (\<lambda>m.
       let oc = forwarding_one m ((serving [Replies 0 (udp_responder False)])\<lparr>lb_budget := 0\<rparr>) TEST_QUERY in
       gave_up oc (\<lambda>_. oc_sent oc = [0]))"

lemma exhausted_attempt_budget_never_opens_an_upstream_socket_passes: exhausted_attempt_budget_never_opens_an_upstream_socket
  by code_simp

definition zero_timeout_upstream_is_never_started_as_a_race :: bool where
  "zero_timeout_upstream_is_never_started_as_a_race \<longleftrightarrow>
     with_manager (two_upstreams 5000 0) [local_addr 5354] [] (\<lambda>m.
       let oc = forwarding_race m (serving [Replies (HEDGE_DELAY + 100) (udp_responder False), Blackhole]) TEST_QUERY in
       response_of oc \<noteq> None \<and> oc_sent oc = [1, 0])"

lemma zero_timeout_upstream_is_never_started_as_a_race_passes: zero_timeout_upstream_is_never_started_as_a_race
  by code_simp

definition answering_upstream_is_not_raced :: bool where
  "answering_upstream_is_not_raced \<longleftrightarrow>
     with_manager (two_upstreams 5000 5000) [local_addr 5354] [] (\<lambda>m.
       let oc = forwarding_race m (serving [Replies 0 (udp_responder False), Blackhole]) TEST_QUERY in
       response_of oc \<noteq> None \<and> oc_sent oc = [1, 0])"

lemma answering_upstream_is_not_raced_passes: answering_upstream_is_not_raced
  by code_simp

definition exhausted_upstreams_record_missing_system_fallback_once :: bool where
  "exhausted_upstreams_record_missing_system_fallback_once \<longleftrightarrow>
     with_manager [test_upstream ''dead primary'' (local_addr 5001) 20] [local_addr 5354] [] (\<lambda>m.
       gave_up (forwarding_one m (serving [Blackhole]) TEST_QUERY) (\<lambda>m.
         mg_fallback_failed m \<and> \<not> mg_fallback_active m
         \<and> gave_up (forwarding_one m (serving [Blackhole]) TEST_QUERY) mg_fallback_failed))"

lemma exhausted_upstreams_record_missing_system_fallback_once_passes: exhausted_upstreams_record_missing_system_fallback_once
  by code_simp

section \<open>Requests and targets\<close>

text \<open>The parser is an argument; it is called once and its answer kept, a failure too.\<close>

definition requests_borrow_until_shared_and_parse_encrypted_queries_only_once :: bool where
  "requests_borrow_until_shared_and_parse_encrypted_queries_only_once \<longleftrightarrow>
     (let query = labeled_query 1;
          view = \<lparr>mv_is_query = True, mv_opcode_query = True, mv_queries = 1, mv_answers = 0, mv_authorities = 0,
                  mv_additionals = 0, mv_signed = False\<rparr>;
          parser = (\<lambda>b. if b = query then Inr view else Inl ''invalid'');
          request = request_new query;
          (first, shared) = request_message parser request;
          (next_attempt, _) = request_message (\<lambda>_. Inl ''parsed again'') shared;
          (failed, invalid) = request_message parser (request_new (replicate 12 0)) in
      rq_parsed request = None \<and> first = Inr view \<and> next_attempt = first \<and> rq_bytes shared = query
      \<and> failed = Inl (Unparseable ''invalid'') \<and> rq_parsed invalid = Some failed)"

lemma requests_borrow_until_shared_and_parse_encrypted_queries_only_once_passes:
  requests_borrow_until_shared_and_parse_encrypted_queries_only_once
  by code_simp

definition self_dial_checks_normalize_mapped_addresses_and_keep_remote_targets :: bool where
  "self_dial_checks_normalize_mapped_addresses_and_keep_remote_targets \<longleftrightarrow>
     (let listeners = [SocketV4 (IP4 127 0 0 1) 53, SocketV4 (IP4 192 0 2 1) 5354] in
      list_all (\<lambda>addr. is_self_address addr listeners)
        [SocketV4 (IP4 127 0 0 2) 53, SocketV6 (IP6 0 0 0 0 0 0 0 1) 53 0,
         SocketV6 (IP6 0 0 0 0 0 0xffff 0x7f00 1) 53 0, SocketV4 (IP4 0 0 0 0) 53, SocketV4 (IP4 192 0 2 1) 5354]
      \<and> list_all (\<lambda>addr. \<not> is_self_address addr listeners)
        [SocketV4 (IP4 127 0 0 1) 853, SocketV4 (IP4 192 0 2 2) 53, SocketV6 (IP6 0x2001 0xdb8 0 0 0 0 0 0x53) 53 0])"

lemma self_dial_checks_normalize_mapped_addresses_and_keep_remote_targets_passes:
  self_dial_checks_normalize_mapped_addresses_and_keep_remote_targets
  by code_simp

text \<open>What the codec tells of each of the test's messages.\<close>

definition encrypted_encoder_accepts_only_single_question_queries :: bool where
  "encrypted_encoder_accepts_only_single_question_queries \<longleftrightarrow>
     (let query = \<lparr>mv_is_query = True, mv_opcode_query = True, mv_queries = 1, mv_answers = 0, mv_authorities = 0,
                   mv_additionals = 0, mv_signed = False\<rparr>;
          message = (\<lambda>view. fst (request_message (\<lambda>_. Inr view) (request_new []))) in
      message query = Inr query
      \<and> list_all (\<lambda>invalid. \<not> safe_encrypted_query invalid \<and> message invalid = Inl UnsupportedShape)
         [query\<lparr>mv_answers := 1\<rparr>, query\<lparr>mv_authorities := 1\<rparr>, query\<lparr>mv_additionals := 1\<rparr>, query\<lparr>mv_queries := 0\<rparr>,
          query\<lparr>mv_queries := 2\<rparr>, query\<lparr>mv_is_query := False\<rparr>, query\<lparr>mv_opcode_query := False\<rparr>, query\<lparr>mv_signed := True\<rparr>])"

lemma encrypted_encoder_accepts_only_single_question_queries_passes: encrypted_encoder_accepts_only_single_question_queries
  by code_simp

end
