(* ===== verification/Channel_Tests.thy ===== *)
theory Channel_Tests
  imports Channel
begin

text \<open>
  The tests of \<open>src/src/upstream/encrypted.rs\<close> on the model: those of the slot, and those of
  queries that race with a reconnection.  A connection is a number; the clocks, which the code's
  tests read, are given.
\<close>

section \<open>The slot\<close>

definition at_second :: "nat \<Rightarrow> stamp" where
  "at_second s = \<lparr>st_mono = s * second, st_wall = (s + 1000000) * second\<rparr>"

definition store_bumps_generation_and_clears_backoff_state :: bool where
  "store_bumps_generation_and_clears_backoff_state \<longleftrightarrow>
     (let slot = conn_slot_default\<lparr>cs_failures := 3, cs_cooldown := Some (5 * second)\<rparr>;
          (generation, slot) = slot_store slot (1 :: nat) (at_second 5) in
      generation = 1 \<and> cs_failures slot = 0 \<and> cs_cooldown slot = None \<and> slot_lease slot = Some (1, 1))"

lemma store_bumps_generation_and_clears_backoff_state_passes: store_bumps_generation_and_clears_backoff_state
  by code_simp

definition invalidate_ignores_stale_generations :: bool where
  "invalidate_ignores_stale_generations \<longleftrightarrow>
     (let (old, slot) = slot_store conn_slot_default (1 :: nat) (at_second 5);
          (new, slot) = slot_store slot 2 (at_second 6);
          (stale, slot) = slot_invalidate slot old;
          kept = slot_lease slot;
          (current, slot) = slot_invalidate slot new;
          gone = slot_lease slot;
          (again, slot) = slot_invalidate slot new in
      \<not> stale \<and> kept = Some (2, new) \<and> current \<and> gone = None \<and> \<not> again)"

lemma invalidate_ignores_stale_generations_passes: invalidate_ignores_stale_generations
  by code_simp

definition sleep_drops_the_connection_without_backoff :: bool where
  "sleep_drops_the_connection_without_backoff \<longleftrightarrow>
     (let last = at_second 5;
          (generation, slot) = slot_store conn_slot_default (1 :: nat) last;
          awake = \<lparr>st_mono = st_mono last + 60 * second, st_wall = st_wall last + 61 * second\<rparr>;
          (drift, slot) = drop_if_slept slot awake;
          kept = slot_lease slot;
          woke = \<lparr>st_mono = st_mono awake + 1 * second, st_wall = st_wall awake + 3600 * second\<rparr>;
          (slept, slot) = drop_if_slept slot woke;
          (again, slot') = drop_if_slept slot woke in
      drift = None \<and> kept = Some (1, generation) \<and> slept = Some (3599 * second) \<and> slot_lease slot = None
      \<and> cs_failures slot = 0 \<and> cs_cooldown slot = None \<and> again = None)"

lemma sleep_drops_the_connection_without_backoff_passes: sleep_drops_the_connection_without_backoff
  by code_simp

definition wall_clock_stepping_back_is_not_sleep :: bool where
  "wall_clock_stepping_back_is_not_sleep \<longleftrightarrow>
     (let last = at_second 5;
          (_, slot) = slot_store conn_slot_default (1 :: nat) last;
          stepped = \<lparr>st_mono = st_mono last + 10 * second, st_wall = st_wall last - 3600 * second\<rparr>;
          (slept, slot) = drop_if_slept slot stepped in
      slept = None \<and> slot_lease slot \<noteq> None)"

lemma wall_clock_stepping_back_is_not_sleep_passes: wall_clock_stepping_back_is_not_sleep
  by code_simp

fun backing_off :: "nat \<Rightarrow> nat conn_slot \<Rightarrow> nat conn_slot" where
  "backing_off 0 slot = slot"
| "backing_off (Suc n) slot = (case slot_backoff slot 0 of (_, slot) \<Rightarrow> backing_off n slot)"

definition backoff_grows_exponentially_and_caps :: bool where
  "backoff_grows_exponentially_and_caps \<longleftrightarrow>
     fst (slot_backoff (backing_off 0 conn_slot_default) 0) = 2 * second
     \<and> fst (slot_backoff (backing_off 1 conn_slot_default) 0) = 4 * second
     \<and> fst (slot_backoff (backing_off 12 conn_slot_default) 0) = 32 * second"

lemma backoff_grows_exponentially_and_caps_passes: backoff_grows_exponentially_and_caps
  by code_simp

definition redial_budget_respects_the_deadline :: bool where
  "redial_budget_respects_the_deadline \<longleftrightarrow>
     (let now = 5 * second in
      budget_allows_redial None now \<and> budget_allows_redial (Some (now + second)) now
      \<and> \<not> budget_allows_redial (Some (now + 50000000)) now)"

lemma redial_budget_respects_the_deadline_passes: redial_budget_respects_the_deadline
  by code_simp

section \<open>Queries and a reconnection\<close>

text \<open>A channel with a connection, as \<open>test_manager\<close> makes it; nothing is dialled in these tests.\<close>

definition test_channel :: channel where
  "test_channel = \<lparr>ch_up = \<lparr>up_name = ''in-memory encrypted transport'', up_proto = Doh, up_host = ''resolver.test'',
      up_port = 443, up_path = ''/dns-query'', up_bootstrap_ip = Some (V4 (IP4 192 0 2 53)), up_timeout_ms = 0,
      up_ip_stack = OnlyV4\<rparr>, ch_deny = []\<rparr>"

definition storing :: "nat \<Rightarrow> nat channel_state \<Rightarrow> nat channel_state" where
  "storing conn st = st\<lparr>cst_slot := snd (slot_store (cst_slot st) conn (at_second 5))\<rparr>"

definition unreachable :: "nat connect_env" where
  "unreachable = \<lparr>ce_stamp = at_second 5, ce_clock = 5 * second, ce_resolved = Inr [], ce_server_name = \<lambda>_. None,
     ce_handshake = \<lambda>_ _. (Some (Inl ''unreachable''), 0), ce_now = \<lambda>_. 5 * second, ce_end = at_second 5\<rparr>"

definition stale :: "nat \<Rightarrow> nat channel_event" where
  "stale i = SendDone i (Some (Inl ''stale connection''), 0) (5 * second)"

definition sent_back :: "nat \<Rightarrow> bytes \<Rightarrow> nat channel_event" where
  "sent_back i answer = SendDone i (Some (Inr answer), 0) (5 * second)"

text \<open>The events up to a reconnection to connection 2, and those after it.\<close>

definition reconnecting ::
  "nat channel_event list \<Rightarrow> nat channel_event list \<Rightarrow> (nat channel_state \<times> nat channel_state) option" where
  "reconnecting before after =
     (case fold_run (channel_step test_channel) before (storing 1 channel_new) of
        Panic \<Rightarrow> None
      | Ret st \<Rightarrow>
          (case fold_run (channel_step test_channel) after (storing 2 st) of
             Panic \<Rightarrow> None
           | Ret st' \<Rightarrow> Some (storing 2 st, st')))"

definition concluded :: "nat channel_state \<Rightarrow> nat \<Rightarrow> (channel_error + bytes) option" where
  "concluded st i = (case qt_state (cst_tasks st ! i) of Concluded r \<Rightarrow> Some r | _ \<Rightarrow> None)"

text \<open>The slot has kept its connection, or has lost it and backs off.\<close>

fun slot_kept :: "nat channel_state \<times> nat channel_state \<Rightarrow> bool" where
  "slot_kept (stored, st) \<longleftrightarrow>
     cs_generation (cst_slot st) = cs_generation (cst_slot stored) \<and> cs_exchange (cst_slot st) = Some 2
     \<and> cs_failures (cst_slot st) = 0 \<and> cs_cooldown (cst_slot st) = None"

fun slot_lost :: "nat channel_state \<times> nat channel_state \<Rightarrow> bool" where
  "slot_lost (stored, st) \<longleftrightarrow>
     cs_generation (cst_slot st) = cs_generation (cst_slot stored) \<and> cs_exchange (cst_slot st) = None
     \<and> cs_failures (cst_slot st) = 1 \<and> cs_cooldown (cst_slot st) = Some (7 * second)"

text \<open>At the level of the channel: what the manager does with the answers is in theory Encrypted_Tests.\<close>

definition concurrent_stale_failures_share_successor_without_fallback :: bool where
  "concurrent_stale_failures_share_successor_without_fallback \<longleftrightarrow>
     (case reconnecting
         [NewQuery None, NewQuery None, NewQuery None, Acquire 0 unreachable, Acquire 1 unreachable, Acquire 2 unreachable]
         [stale 0, stale 1, stale 2, Acquire 0 unreachable, Acquire 1 unreachable, Acquire 2 unreachable,
          sent_back 0 [0], sent_back 1 [1], sent_back 2 [2]] of
        None \<Rightarrow> False
      | Some sts \<Rightarrow> slot_kept sts \<and> map (concluded (snd sts)) [0, 1, 2] = [Some (Inr [0]), Some (Inr [1]), Some (Inr [2])])"

lemma concurrent_stale_failures_share_successor_without_fallback_passes:
  concurrent_stale_failures_share_successor_without_fallback
  by code_simp

text \<open>The first query fails on both connections, then the other one on the first.\<close>

definition late_failure :: "nat channel_event list \<Rightarrow> (nat channel_state \<times> nat channel_state) option" where
  "late_failure later =
     reconnecting [NewQuery None, Acquire 0 unreachable, NewQuery None, Acquire 1 unreachable]
       ([stale 0, Acquire 0 unreachable, stale 0] @ later)"

definition failed_successor_backs_off_once_and_late_stale_failure_respects_cooldown :: bool where
  "failed_successor_backs_off_once_and_late_stale_failure_respects_cooldown \<longleftrightarrow>
     (case late_failure [] of
        None \<Rightarrow> False
      | Some sts \<Rightarrow> slot_lost sts \<and> concluded (snd sts) 0 = Some (Inl (SendFailed ''stale connection'')))
     \<and> (case late_failure [stale 1, Acquire 1 unreachable] of
        None \<Rightarrow> False
      | Some sts \<Rightarrow>
          slot_lost sts
          \<and> concluded (snd sts) 1 = Some (Inl (RedialFailed ''stale connection'' (InCooldown (2 * second)))))"

lemma failed_successor_backs_off_once_and_late_stale_failure_respects_cooldown_passes:
  failed_successor_backs_off_once_and_late_stale_failure_respects_cooldown
  by code_simp

definition stale_failure_without_retry_budget_preserves_successor :: bool where
  "stale_failure_without_retry_budget_preserves_successor \<longleftrightarrow>
     (case reconnecting [NewQuery (Some (5 * second + MIN_REDIAL_BUDGET)), Acquire 0 unreachable] [stale 0] of
        None \<Rightarrow> False
      | Some sts \<Rightarrow> slot_kept sts \<and> concluded (snd sts) 0 = Some (Inl (SendFailed ''stale connection'')))"

lemma stale_failure_without_retry_budget_preserves_successor_passes:
  stale_failure_without_retry_budget_preserves_successor
  by code_simp

end
