(* ===== verification/Encrypted_Tests.thy ===== *)
theory Encrypted_Tests
  imports Network_Tests Channel_Tests
begin

text \<open>
  The tests of \<open>src/src/upstream/encrypted.rs\<close> that forward a query through a manager with an encrypted
  upstream, on the schedule of theory Network_Tests.  The transport of the tests answers with the
  query itself under the ID 0, which stands for the message the codec would encode.
\<close>

definition encrypted_test_query :: "nat \<Rightarrow> bytes" where
  "encrypted_test_query padding =
     [0x12, 0x34, 0x01, 0x00, 0, 1, 0, 0, 0, 0, 0, if padding > 0 then 1 else 0] @ label ''example'' @ label ''com'' @ [0, 0, 1, 0, 1]
     @ (if padding > 0 then [0, 0, 41, 4, 208, 0, 0, 0, 0] @ to_be16 (word_of_nat (padding + 4)) @ [0, 12]
          @ to_be16 (word_of_nat padding) @ replicate padding 0 else [])"

definition encrypted_upstream :: "proto \<Rightarrow> nat \<Rightarrow> upstream" where
  "encrypted_upstream proto timeout_ms =
     \<lparr>up_name = ''in-memory encrypted transport'', up_proto = proto, up_host = ''resolver.test'', up_port = 443,
      up_path = ''/dns-query'', up_bootstrap_ip = Some (V4 (IP4 192 0 2 53)), up_timeout_ms = timeout_ms, up_ip_stack = OnlyV4\<rparr>"

text \<open>\<open>TestTransport\<close>: the query as a response with ID 0, or with another question.\<close>

definition test_transport :: "bool \<Rightarrow> bytes \<Rightarrow> bytes" where
  "test_transport wrong_question query =
     patch (set_bits 2 0x80 (if wrong_question
       then take 12 query @ label ''wrong'' @ label ''invalid'' @ drop 24 query else query)) 0 [0, 0]"

definition encrypted_mismatched_questions_are_rejected_on_both_dispatch_paths :: bool where
  "encrypted_mismatched_questions_are_rejected_on_both_dispatch_paths \<longleftrightarrow>
     with_manager [encrypted_upstream Doh 0] [] [] (\<lambda>m.
       gave_up (forwarding_one m (serving [Replies 0 (test_transport True)]) (encrypted_test_query 0)) (\<lambda>_. True)
       \<and> gave_up (forwarding_race (m\<lparr>mg_entries := mg_entries m @ mg_entries m\<rparr>)
             (serving [Replies 0 (test_transport True), Replies 0 (test_transport True)]) (encrypted_test_query 0)) (\<lambda>_. True))"

lemma encrypted_mismatched_questions_are_rejected_on_both_dispatch_paths_passes:
  encrypted_mismatched_questions_are_rejected_on_both_dispatch_paths
  by code_simp

text \<open>The padding is shorter here.\<close>

definition encrypted_forward_preserves_question_id_and_edns :: bool where
  "encrypted_forward_preserves_question_id_and_edns \<longleftrightarrow>
     with_manager [encrypted_upstream Doh 0] [] [] (\<lambda>m.
       list_all (\<lambda>padding.
         let query = encrypted_test_query padding in
         response_of (forwarding_one m (serving [Replies 0 (test_transport False)]) query) = Some (set_bits 2 0x80 query)) [0, 8])"

lemma encrypted_forward_preserves_question_id_and_edns_passes: encrypted_forward_preserves_question_id_and_edns
  by code_simp

text \<open>
  The raced-out attempt keeps its permit; at its own deadline of 600 ms, and not 600 ms after the hedge,
  it drops the connection and backs off.
\<close>

definition raced_out_encrypted_upstream_still_backs_off_at_its_deadline :: bool where
  "raced_out_encrypted_upstream_still_backs_off_at_its_deadline \<longleftrightarrow>
     with_manager [encrypted_upstream Doh3 600, test_upstream ''standby'' (local_addr 5002) 600] [] [] (\<lambda>m.
       let oc = forwarding_race m (serving [Blackhole, Replies 0 (set_bits 2 0x80)]) (encrypted_test_query 0) in
       (case response_of oc of
          Some response \<Rightarrow> validate_response (encrypted_test_query 0) response = Inr () | None \<Rightarrow> False)
       \<and> oc_sent oc = [1, 1] \<and> oc_free oc = MAX_ATTEMPTS - 1)
     \<and> (let deadline = 5 * second + 600000000 in
        case fold_run (channel_step test_channel) [NewQuery (Some deadline), Acquire 0 unreachable] (storing 1 channel_new) of
          Panic \<Rightarrow> False
        | Ret st \<Rightarrow>
            cs_exchange (cst_slot st) \<noteq> None
            \<and> (case task_sent 0 (None, 0) deadline st of
                 st \<Rightarrow> cs_exchange (cst_slot st) = None \<and> cs_cooldown (cst_slot st) \<noteq> None))"

lemma raced_out_encrypted_upstream_still_backs_off_at_its_deadline_passes:
  raced_out_encrypted_upstream_still_backs_off_at_its_deadline
  by code_simp

end
