(* ===== verification/Bootstrap_Tests.thy ===== *)
theory Bootstrap_Tests
  imports Bootstrap Manager
begin

text \<open>
  The tests of \<open>src/src/upstream/bootstrap.rs\<close> on the model.  The codec that the tests take from
  the crate hickory is given by a small one, servers are what their sockets send, and a call is
  followed by the events of the resolver that the test waits for.  How long a wait takes is left
  out; which events wait for which is not.
\<close>

section \<open>Servers\<close>

definition V4_ADDR :: ip4 where "V4_ADDR = IP4 192 0 2 1"
definition V6_ADDR :: ip6 where "V6_ADDR = IP6 0x2001 0xdb8 0 0 0 0 0 1"

definition test_codec :: "string codec" where
  "test_codec =
     \<lparr>cd_name = Inr,
      cd_encode = (\<lambda>ident _ rtype. Inr (to_be16 ident @ [0x01, 0x00, 0, 1, 0, 0, 0, 0, 0, 0] @ [1, 97, 0]
        @ [0, case rtype of A \<Rightarrow> 1 | AAAA \<Rightarrow> 28, 0, 1])),
      cd_answers = (\<lambda>response. Inr [(if response ! 16 = 1 then RA V4_ADDR else RAAAA V6_ADDR, 300)])\<rparr>"

text \<open>The response to a request: it answers the question, whatever record data it carries.\<close>

definition answer_to :: "bytes \<Rightarrow> bytes" where
  "answer_to request = request[2 := request ! 2 OR 0x80]"

definition no_udp :: udp_net where
  "no_udp = \<lparr>udp_bind = None, udp_connect = None, udp_send = None, udp_recv = []\<rparr>"

definition request_for :: "record_type \<Rightarrow> bytes" where
  "request_for rtype = (case cd_encode test_codec 7 ''dns.example'' rtype of Inr query \<Rightarrow> query | Inl _ \<Rightarrow> [])"

definition udp_blackhole_server :: "record_type \<Rightarrow> exchange_net" where
  "udp_blackhole_server rtype =
     \<lparr>xn_udp = no_udp, xn_udp_after = 0,
      xn_tcp = \<lparr>tcp_connect = None, tcp_write = None, tcp_input = frame (answer_to (request_for rtype)), tcp_read_error = []\<rparr>,
      xn_tcp_after = 0\<rparr>"

text \<open>UDP is refused by a dead server and unanswered by a counting one; TCP is refused.\<close>

definition refused :: tcp_net where
  "refused = \<lparr>tcp_connect = Some ''refused'', tcp_write = None, tcp_input = [], tcp_read_error = []\<rparr>"

definition dead_server :: "record_type \<Rightarrow> exchange_net" where
  "dead_server _ = \<lparr>xn_udp = no_udp\<lparr>udp_recv := [Inl ''refused'']\<rparr>, xn_udp_after = 0, xn_tcp = refused, xn_tcp_after = 0\<rparr>"

definition counting_blackhole_server :: "record_type \<Rightarrow> exchange_net" where
  "counting_blackhole_server _ = \<lparr>xn_udp = no_udp, xn_udp_after = 0, xn_tcp = refused, xn_tcp_after = 0\<rparr>"

definition server_at :: socket_addr where "server_at = SocketV4 (IP4 127 0 0 1) 5301"

definition looked_up :: "(record_type \<Rightarrow> exchange_net) \<Rightarrow> ip_stack \<Rightarrow> boot_error + (ip_addr list \<times> nat)" where
  "looked_up server stack =
     lookup test_codec (\<lambda>name addr rtype. boot_query test_codec 7 (\<lambda>_. server) addr name rtype) [server_at] ''dns.example'' stack"

section \<open>Lookups\<close>

definition ipv6_stack_prefers_ipv6_bootstrap_servers :: bool where
  "ipv6_stack_prefers_ipv6_bootstrap_servers \<longleftrightarrow>
     (let servers = ordered_servers (rs_servers bootstrap_new) OnlyV6 in
      list_all is_ipv6 (take 2 servers) \<and> list_all is_ipv4 (drop 2 servers))"

lemma ipv6_stack_prefers_ipv6_bootstrap_servers_passes: ipv6_stack_prefers_ipv6_bootstrap_servers
  by code_simp

definition bootstrap_server_addresses_include_both_ip_stacks :: bool where
  "bootstrap_server_addresses_include_both_ip_stacks \<longleftrightarrow>
     list_ex (\<lambda>ip. \<not> ip_is_ipv6 ip) SERVERS \<and> list_ex ip_is_ipv6 SERVERS"

lemma bootstrap_server_addresses_include_both_ip_stacks_passes: bootstrap_server_addresses_include_both_ip_stacks
  by code_simp

definition lost_udp_falls_back_to_tcp_with_a_and_aaaa_in_parallel :: bool where
  "lost_udp_falls_back_to_tcp_with_a_and_aaaa_in_parallel \<longleftrightarrow>
     (case looked_up udp_blackhole_server Both of Inr (ips, _) \<Rightarrow> ips = [V4 V4_ADDR, V6 V6_ADDR] | Inl _ \<Rightarrow> False)"

lemma lost_udp_falls_back_to_tcp_with_a_and_aaaa_in_parallel_passes:
  lost_udp_falls_back_to_tcp_with_a_and_aaaa_in_parallel
  by code_simp

section \<open>Callers\<close>

definition key_v4 :: host_key where "key_v4 = (''dns.example'', OnlyV4)"

definition insert_cached :: "resolver \<Rightarrow> ip_addr list \<Rightarrow> nat \<Rightarrow> resolver" where
  "insert_cached boot ips expires =
     boot\<lparr>rs_slots := (rs_slots boot)(key_v4 \<mapsto> (slot_of boot key_v4)\<lparr>sl_entry := Some \<lparr>he_ips = ips, he_expires = expires\<rparr>\<rparr>)\<rparr>"

definition outcomes :: "resolver_event list \<Rightarrow> resolver \<Rightarrow> progress list" where
  "outcomes events boot = map (\<lambda>(_, _, p). p) (fst (resolver_run events boot))"

text \<open>The lookups that reach the server are the refreshes.\<close>

definition lookups :: "progress list \<Rightarrow> nat" where
  "lookups ps = length (filter (\<lambda>p. case p of Refreshing \<Rightarrow> True | _ \<Rightarrow> False) ps)"

fun failed_lookup :: "progress \<Rightarrow> bool" where
  "failed_lookup (Returned (Inl (BootstrapFailed host _))) = (host = ''dns.example'')"
| "failed_lookup _ = False"

definition invalidated_entry_survives_as_fallback_when_refresh_fails :: bool where
  "invalidated_entry_survives_as_fallback_when_refresh_fails \<longleftrightarrow>
     (let now = 10 * second;
          boot = invalidate (insert_cached (with_servers [server_at]) [V4 V4_ADDR] (now + 300 * second)) ''DNS.example'' now in
      (case sl_entry (slot_of boot key_v4) of Some entry \<Rightarrow> \<not> is_fresh entry now | None \<Rightarrow> False)
      \<and> outcomes [Call ''dns.example'' OnlyV4 now, Done key_v4 (looked_up dead_server OnlyV4) now] boot
          = [Refreshing, Returned (Inr [V4 V4_ADDR])])"

lemma invalidated_entry_survives_as_fallback_when_refresh_fails_passes:
  invalidated_entry_survives_as_fallback_when_refresh_fails
  by code_simp

definition concurrent_callers_share_one_failed_lookup_and_then_pause :: bool where
  "concurrent_callers_share_one_failed_lookup_and_then_pause \<longleftrightarrow>
     (let now = 10 * second; later = now + UDP_TIMEOUT;
          ps = outcomes [Call ''dns.example'' OnlyV4 now, Call ''dns.example'' OnlyV4 now,
                 Done key_v4 (looked_up counting_blackhole_server OnlyV4) later, Woken key_v4 later,
                 Call ''dns.example'' OnlyV4 later] (with_servers [server_at]) in
      take 2 ps = [Refreshing, WaitingForLock] \<and> list_all failed_lookup (drop 2 ps) \<and> lookups ps = 1)"

lemma concurrent_callers_share_one_failed_lookup_and_then_pause_passes:
  concurrent_callers_share_one_failed_lookup_and_then_pause
  by code_simp

text \<open>The second caller is answered while the refresh of the first is still running.\<close>

definition stale_callers_do_not_wait_for_an_inflight_refresh :: bool where
  "stale_callers_do_not_wait_for_an_inflight_refresh \<longleftrightarrow>
     (let now = 10 * second;
          ps = outcomes [Call ''dns.example'' OnlyV4 now, Call ''dns.example'' OnlyV4 (now + 50000000),
                 Done key_v4 (looked_up counting_blackhole_server OnlyV4) (now + UDP_TIMEOUT)]
               (insert_cached (with_servers [server_at]) [V4 V4_ADDR] now) in
      ps = [Refreshing, Returned (Inr [V4 V4_ADDR]), Returned (Inr [V4 V4_ADDR])] \<and> lookups ps = 1)"

lemma stale_callers_do_not_wait_for_an_inflight_refresh_passes: stale_callers_do_not_wait_for_an_inflight_refresh
  by code_simp

text \<open>The refresh goes on without its caller; a later call finds the pause it has left.\<close>

definition cancelled_caller_still_records_the_failed_refresh :: bool where
  "cancelled_caller_still_records_the_failed_refresh \<longleftrightarrow>
     (let now = 10 * second;
          ps = outcomes [Call ''dns.example'' OnlyV4 now,
                 Done key_v4 (looked_up counting_blackhole_server OnlyV4) (now + UDP_TIMEOUT),
                 Call ''dns.example'' OnlyV4 (now + UDP_TIMEOUT + 400000000)]
               (insert_cached (with_servers [server_at]) [V4 V4_ADDR] now) in
      ps ! 2 = Returned (Inr [V4 V4_ADDR]) \<and> lookups ps = 1)"

lemma cancelled_caller_still_records_the_failed_refresh_passes: cancelled_caller_still_records_the_failed_refresh
  by code_simp

definition refresh_failure_without_cache_is_an_error :: bool where
  "refresh_failure_without_cache_is_an_error \<longleftrightarrow>
     (let now = 10 * second in
      failed_lookup (last (outcomes [Call ''dns.example'' OnlyV4 now, Done key_v4 (looked_up dead_server OnlyV4) now]
        (with_servers [server_at]))))"

lemma refresh_failure_without_cache_is_an_error_passes: refresh_failure_without_cache_is_an_error
  by code_simp

text \<open>Every address would answer, but none is asked.\<close>

definition legacy_resolution_rejects_self_addresses_before_sending :: bool where
  "legacy_resolution_rejects_self_addresses_before_sending \<longleftrightarrow>
     (let port = 5302; self_ip = V4 (IP4 192 0 2 53);
          up = \<lparr>up_name = ''resolved legacy'', up_proto = Legacy, up_host = ''dns.example'', up_port = port, up_path = [],
                up_bootstrap_ip = None, up_timeout_ms = 1000, up_ip_stack = OnlyV4\<rparr>;
          ips = [self_ip, V4 (IP4 127 0 0 1), V6 (IP6 0 0 0 0 0 0xffff 0x7f00 1)];
          query = request_for A;
          env = \<lparr>ae_resolve = \<lambda>_ _. Inr ips, ae_legacy = \<lambda>_. Some (Inr (answer_to query)),
                 ae_from_vec = \<lambda>_. Inl ''unused'', ae_channel = \<lambda>_ _. None\<rparr> in
      case manager_new [up] [sock_new self_ip port] [] of
        Inl _ \<Rightarrow> False
      | Inr m \<Rightarrow>
          attempt env (mg_deny m) (en_backend (hd (mg_entries m))) (request_new query)
            = Some (Inl (SelfDial (sock_new (V6 (IP6 0 0 0 0 0 0xffff 0x7f00 1)) port))))"

lemma legacy_resolution_rejects_self_addresses_before_sending_passes:
  legacy_resolution_rejects_self_addresses_before_sending
  by code_simp

definition stale_entry_is_servable_for_one_day_after_expiry :: bool where
  "stale_entry_is_servable_for_one_day_after_expiry \<longleftrightarrow>
     (let expires = 10 * second; entry = \<lparr>he_ips = [V4 V4_ADDR], he_expires = expires\<rparr> in
      \<not> is_fresh entry expires \<and> is_servable entry (expires + MAX_STALE)
      \<and> \<not> is_servable entry (expires + MAX_STALE + second))"

lemma stale_entry_is_servable_for_one_day_after_expiry_passes: stale_entry_is_servable_for_one_day_after_expiry
  by code_simp

end
