(* ===== verification/Osdns_Tests.thy ===== *)
theory Osdns_Tests
  imports Dns_Reference
begin

text \<open>
  The tests of \<open>src/src/osdns/macos.rs\<close> on the model.  The fixture of the restore tests is the
  reference machine of theory Dns_Reference with the backup as its file; the closures that the tests
  hand to \<open>restore_at\<close>, \<open>prepare_watchdog_backup\<close> and \<open>takeover_intact_with\<close> are written out.  Error
  texts are not modelled: a test that looks for a service in one looks for its \<open>Refused\<close> error.
\<close>

section \<open>Texts and addresses\<close>

definition no_interface :: "string \<Rightarrow> u32 option" where
  "no_interface _ = None"

definition text_of :: "string list \<Rightarrow> string" where
  "text_of ls = concat (map (\<lambda>l. l @ newline) ls)"

definition sock4 :: "u8 \<Rightarrow> u8 \<Rightarrow> u8 \<Rightarrow> u8 \<Rightarrow> socket_addr" where
  "sock4 a b c d = SocketV4 (IP4 a b c d) 53"

definition parses_enabled_network_services :: bool where
  "parses_enabled_network_services \<longleftrightarrow>
     (let text = text_of [''An asterisk (*) denotes that a network service is disabled.'', ''Wi-Fi'', ''*Thunderbolt Bridge'',
           ''iPhone USB''] in
      parse_services text = [''Wi-Fi'', ''iPhone USB'']
      \<and> parse_all_services text = [''Wi-Fi'', ''Thunderbolt Bridge'', ''iPhone USB''])"

lemma parses_enabled_network_services_passes: parses_enabled_network_services
  by code_simp

definition parses_dns_server_lists_and_empty_marker :: bool where
  "parses_dns_server_lists_and_empty_marker \<longleftrightarrow>
     parse_dns_servers no_interface (text_of [''1.1.1.1'', ''2606:4700:4700::1111'']) = Some [''1.1.1.1'', ''2606:4700:4700::1111'']
     \<and> parse_dns_servers no_interface (text_of [''There aren't any DNS Servers set on Wi-Fi.'']) = Some []
     \<and> parse_dns_servers no_interface (text_of [''unexpected output'']) = None"

lemma parses_dns_server_lists_and_empty_marker_passes: parses_dns_server_lists_and_empty_marker
  by code_simp

definition parses_and_filters_effective_dns_servers :: bool where
  "parses_and_filters_effective_dns_servers \<longleftrightarrow>
     (let text = text_of ['''', ''DNS configuration'', '''', ''resolver #1'', ''  nameserver[0] : 192.168.1.1'',
           ''  nameserver[1] : 127.0.0.1'', ''resolver #2'', ''  nameserver[0] : 192.168.1.1'',
           ''  nameserver[1] : fe80::1%7'', ''  nameserver[2] : 2001:db8::53''] in
      map_sum id (\<lambda>servers. filter_fallback_servers servers [V4 (IP4 127 0 0 1)]) (parse_scutil_global_dns no_interface text)
        = Inr [sock4 192 168 1 1, SocketV6 (IP6 0xfe80 0 0 0 0 0 0 1) 53 7, SocketV6 (IP6 0x2001 0xdb8 0 0 0 0 0 0x53) 53 0])"

lemma parses_and_filters_effective_dns_servers_passes: parses_and_filters_effective_dns_servers
  by code_simp

definition global_parser_excludes_domain_and_scoped_resolvers :: bool where
  "global_parser_excludes_domain_and_scoped_resolvers \<longleftrightarrow>
     (let text = text_of ['''', ''DNS configuration'', '''', ''resolver #1'', ''  search domain[0] : lan'',
           ''  nameserver[0] : 192.168.1.1'', ''  nameserver[1] : fdfd:3b1d:1c26::1'', '''', ''resolver #2'',
           ''  domain   : corp.example'', ''  nameserver[0] : 10.0.0.53'', '''', ''resolver #3'', ''  domain   : local'',
           ''  options  : mdns'', '''', ''DNS configuration (for scoped queries)'', '''', ''resolver #1'',
           ''  nameserver[0] : 10.9.9.9'', ''  if_index : 12 (en0)''] in
      parse_scutil_global_dns no_interface text
        = Inr [sock4 192 168 1 1, SocketV6 (IP6 0xfdfd 0x3b1d 0x1c26 0 0 0 0 1) 53 0])"

lemma global_parser_excludes_domain_and_scoped_resolvers_passes: global_parser_excludes_domain_and_scoped_resolvers
  by code_simp

definition parses_and_serializes_scoped_ipv6_dns_servers :: bool where
  "parses_and_serializes_scoped_ipv6_dns_servers \<longleftrightarrow>
     parse_dns_socket no_interface ''fe80::1%7'' = Inr (SocketV6 (IP6 0xfe80 0 0 0 0 0 0 1) 53 7)
     \<and> serialize_dns_socket (SocketV6 (IP6 0xfe80 0 0 0 0 0 0 1) 53 7) = ''fe80::1%7''
     \<and> map_sum id serialize_dns_socket (parse_dns_socket no_interface ''2001:db8::53'') = Inr ''2001:db8::53''"

lemma parses_and_serializes_scoped_ipv6_dns_servers_passes: parses_and_serializes_scoped_ipv6_dns_servers
  by code_simp

section \<open>Decisions\<close>

definition runtime_fallback_rejects_only_loopback_servers :: bool where
  "runtime_fallback_rejects_only_loopback_servers \<longleftrightarrow>
     usable_runtime_fallback [sock4 127 0 0 1] (V4 (IP4 127 0 0 1)) = Inl (Refused ''no non-loopback global DNS server'')
     \<and> usable_runtime_fallback [sock4 192 0 2 53] (V4 (IP4 127 0 0 1)) = Inr [sock4 192 0 2 53]"

lemma runtime_fallback_rejects_only_loopback_servers_passes: runtime_fallback_rejects_only_loopback_servers
  by code_simp

definition drift_requires_exactly_the_takeover_address :: bool where
  "drift_requires_exactly_the_takeover_address \<longleftrightarrow>
     services_needing_reassert [(''Wi-Fi'', [''127.0.0.1'']), (''USB LAN'', [''127.0.0.1'', ''8.8.8.8'']), (''Bridge'', [])]
       ''127.0.0.1'' = [''USB LAN'', ''Bridge'']"

lemma drift_requires_exactly_the_takeover_address_passes: drift_requires_exactly_the_takeover_address
  by code_simp

definition new_service_snapshots_are_added_once_before_reassertion :: bool where
  "new_service_snapshots_are_added_once_before_reassertion \<longleftrightarrow>
     (let b = \<lparr>bk_version = 2, bk_services = [\<lparr>sd_name = ''Wi-Fi'', sd_servers = [''192.0.2.53'']\<rparr>], bk_fallback = [],
               bk_takeovers = None\<rparr> in
      case add_new_service_snapshots no_interface ''127.0.0.1'' [(''Wi-Fi'', [''192.0.2.53'']), (''iPhone USB'', [])] b False of
        Inl _ \<Rightarrow> False
      | Inr (added, b) \<Rightarrow>
          added \<and> length (bk_services b) = 2 \<and> bk_services b ! 1 = \<lparr>sd_name = ''iPhone USB'', sd_servers = []\<rparr>
          \<and> add_new_service_snapshots no_interface ''127.0.0.1'' [(''iPhone USB'', [])] b False = Inr (False, b))"

lemma new_service_snapshots_are_added_once_before_reassertion_passes: new_service_snapshots_are_added_once_before_reassertion
  by code_simp

definition new_service_already_pointing_at_proxy_is_rejected :: bool where
  "new_service_already_pointing_at_proxy_is_rejected \<longleftrightarrow>
     add_new_service_snapshots no_interface ''127.0.0.1'' [(''iPhone USB'', [''127.0.0.1''])]
       \<lparr>bk_version = 2, bk_services = [], bk_fallback = [], bk_takeovers = None\<rparr> False = Inl (Refused ''iPhone USB'')"

lemma new_service_already_pointing_at_proxy_is_rejected_passes: new_service_already_pointing_at_proxy_is_rejected
  by code_simp

definition takeover_state_matrix :: bool where
  "takeover_state_matrix \<longleftrightarrow>
     classify False False = NotTakenOver \<and> classify True True = Active \<and> classify True False = Indeterminate
     \<and> classify False True = Corrupted"

lemma takeover_state_matrix_passes: takeover_state_matrix
  by code_simp

end
