(* ===== verification/Takeover_Tests.thy ===== *)
theory Takeover_Tests
  imports Osdns_Tests
begin

text \<open>
  The tests of \<open>src/src/osdns/macos.rs\<close> that restore a backup, verify a takeover and prepare the
  watchdog's backup, over the fixture they share.
\<close>

section \<open>The fixture\<close>

definition fixture :: "backup \<Rightarrow> (string \<times> string list) list \<Rightarrow> lab" where
  "fixture b current = \<lparr>lb_enabled = [], lb_services = [], lb_dns = current, lb_files = [(BACKUP_PATH, raw_encode b)],
     lb_fuel = 100, lb_loaded = False, lb_clock = 0\<rparr>"

definition fixture_list :: "(lab, string list) io" where
  "fixture_list = (\<lambda>m. (Inr (map fst (lb_dns m)), m))"

definition fixture_get :: "string option \<Rightarrow> string \<Rightarrow> (lab, string list) io" where
  "fixture_get fail_read name = (\<lambda>m.
     if fail_read = Some name then (Inl (RunFailed ''read'' name), m)
     else (case map_of (lb_dns m) name of Some servers \<Rightarrow> Inr servers | None \<Rightarrow> Inl (RunFailed ''no service'' name), m))"

definition fixture_set :: "string option \<Rightarrow> string \<Rightarrow> string list \<Rightarrow> (lab, unit) io" where
  "fixture_set fail_write name servers = (\<lambda>m.
     if fail_write = Some name then (Inl (RunFailed ''write'' name), m) else (Inr (), put_dns name servers m))"

definition fixture_restore :: "string option \<Rightarrow> string option \<Rightarrow> (lab, unit) io" where
  "fixture_restore fail_read fail_write =
     restore_at lab_dns fixture_list (fixture_get fail_read) (fixture_set fail_write)"

definition saved :: "lab \<Rightarrow> string option" where
  "saved m = map_of (lb_files m) BACKUP_PATH"

definition saved_backup :: "lab \<Rightarrow> backup option" where
  "saved_backup m = (case read_backup lab_dns m of (Inr b, _) \<Rightarrow> Some b | (Inl _, _) \<Rightarrow> None)"

fun reports :: "os_error \<Rightarrow> os_error + unit \<Rightarrow> bool" where
  "reports e (Inl (Several errors)) = (e \<in> set errors)"
| "reports e _ = False"

definition restore_backup :: backup where
  "restore_backup = \<lparr>bk_version = 2, bk_services = [\<lparr>sd_name = ''Wi-Fi'', sd_servers = [''192.0.2.53'']\<rparr>,
       \<lparr>sd_name = ''USB LAN'', sd_servers = []\<rparr>], bk_fallback = [], bk_takeovers = Some [V4 (IP4 127 0 0 1)]\<rparr>"

section \<open>Restoring\<close>

text \<open>Restoring succeeds, the backup is gone and the services are as given.\<close>

definition restored :: "(os_error + unit) \<times> lab \<Rightarrow> (string \<times> string list) list \<Rightarrow> bool" where
  "restored rm expected \<longleftrightarrow>
     fst rm = Inr () \<and> saved (snd rm) = None \<and> list_all (\<lambda>(name, servers). map_of (lb_dns (snd rm)) name = Some servers) expected"

text \<open>It reports the errors, the backup is still the one it was.\<close>

definition blocked :: "lab \<Rightarrow> (os_error + unit) \<times> lab \<Rightarrow> os_error list \<Rightarrow> bool" where
  "blocked m rm errors \<longleftrightarrow> list_all (\<lambda>e. reports e (fst rm)) errors \<and> saved m \<noteq> None \<and> saved (snd rm) = saved m"

definition renamed_service_blocks_restore_and_retains_original_backup :: bool where
  "renamed_service_blocks_restore_and_retains_original_backup \<longleftrightarrow>
     (let m = fixture restore_backup [(''Renamed Wi-Fi'', [''127.0.0.1'']), (''USB LAN'', [''127.0.0.1''])];
          first = fixture_restore None None m in
      blocked m first [Refused ''Renamed Wi-Fi'']
      \<and> map_of (lb_dns (snd first)) ''Renamed Wi-Fi'' = Some [''127.0.0.1''] \<and> map_of (lb_dns (snd first)) ''USB LAN'' = Some []
      \<and> restored (fixture_restore None None
            (put_dns ''Wi-Fi'' [''127.0.0.1''] ((snd first)\<lparr>lb_dns := drop_key ''Renamed Wi-Fi'' (lb_dns (snd first))\<rparr>)))
          [(''Wi-Fi'', [''192.0.2.53''])])"

lemma renamed_service_blocks_restore_and_retains_original_backup_passes:
  renamed_service_blocks_restore_and_retains_original_backup
  by code_simp

definition removed_service_is_safe_when_remaining_dns_is_restored :: bool where
  "removed_service_is_safe_when_remaining_dns_is_restored \<longleftrightarrow>
     restored (fixture_restore None None (fixture restore_backup [(''USB LAN'', [''127.0.0.1''])])) [(''USB LAN'', [])]"

lemma removed_service_is_safe_when_remaining_dns_is_restored_passes: removed_service_is_safe_when_remaining_dns_is_restored
  by code_simp

definition renamed_service_with_changed_dns_is_left_untouched :: bool where
  "renamed_service_with_changed_dns_is_left_untouched \<longleftrightarrow>
     restored (fixture_restore None None
         (fixture restore_backup [(''Renamed Wi-Fi'', [''198.51.100.53'']), (''USB LAN'', [''127.0.0.1''])]))
       [(''Renamed Wi-Fi'', [''198.51.100.53''])]"

lemma renamed_service_with_changed_dns_is_left_untouched_passes: renamed_service_with_changed_dns_is_left_untouched
  by code_simp

definition untracked_service_with_extra_resolver_still_blocks_stop :: bool where
  "untracked_service_with_extra_resolver_still_blocks_stop \<longleftrightarrow>
     (let m = fixture restore_backup [(''New service'', [''198.51.100.53'', ''127.0.0.1'']), (''Wi-Fi'', [''127.0.0.1''])] in
      blocked m (fixture_restore None None m) [Refused ''New service''])"

lemma untracked_service_with_extra_resolver_still_blocks_stop_passes: untracked_service_with_extra_resolver_still_blocks_stop
  by code_simp

definition partial_write_and_verification_errors_retain_backup_for_retry :: bool where
  "partial_write_and_verification_errors_retain_backup_for_retry \<longleftrightarrow>
     (let m = fixture restore_backup [(''USB LAN'', [''127.0.0.1'']), (''Wi-Fi'', [''127.0.0.1''])];
          first = fixture_restore (Some ''USB LAN'') (Some ''Wi-Fi'') m in
      blocked m first [RunFailed ''write'' ''Wi-Fi'', RunFailed ''read'' ''USB LAN'', Refused ''Wi-Fi'']
      \<and> map_of (lb_dns (snd first)) ''USB LAN'' = Some []
      \<and> restored (fixture_restore None None (snd first)) [])"

lemma partial_write_and_verification_errors_retain_backup_for_retry_passes:
  partial_write_and_verification_errors_retain_backup_for_retry
  by code_simp

definition normal_restore_preserves_other_loopback_dns :: bool where
  "normal_restore_preserves_other_loopback_dns \<longleftrightarrow>
     (let b = restore_backup\<lparr>bk_services := [\<lparr>sd_name = ''Wi-Fi'', sd_servers = [''127.0.0.2'', ''::1'']\<rparr>,
            \<lparr>sd_name = ''USB LAN'', sd_servers = []\<rparr>]\<rparr>;
          m = fixture b [(''Other tool'', [''127.0.0.3'']), (''USB LAN'', [''127.0.0.1'']), (''Wi-Fi'', [''127.0.0.1''])] in
      restored (fixture_restore None None m)
        [(''Wi-Fi'', [''127.0.0.2'', ''::1'']), (''Other tool'', [''127.0.0.3'']), (''USB LAN'', [])])"

lemma normal_restore_preserves_other_loopback_dns_passes: normal_restore_preserves_other_loopback_dns
  by code_simp

definition legacy_backups_preserve_proven_original_loopback_but_reject_unknown_loopback :: bool where
  "legacy_backups_preserve_proven_original_loopback_but_reject_unknown_loopback \<longleftrightarrow>
     list_all (\<lambda>version.
       let b = \<lparr>bk_version = version, bk_services = [\<lparr>sd_name = ''Wi-Fi'', sd_servers = [''127.0.0.2'']\<rparr>], bk_fallback = [],
                bk_takeovers = None\<rparr>;
           m = fixture b [(''Unknown'', [''127.0.0.1'']), (''Wi-Fi'', [''127.0.0.1''])];
           first = fixture_restore None None m in
       blocked m first [Refused ''Unknown''] \<and> map_of (lb_dns (snd first)) ''Wi-Fi'' = Some [''127.0.0.2'']
       \<and> restored (fixture_restore None None (put_dns ''Unknown'' [''198.51.100.53''] (snd first))) []) [1, 2]"

lemma legacy_backups_preserve_proven_original_loopback_but_reject_unknown_loopback_passes:
  legacy_backups_preserve_proven_original_loopback_but_reject_unknown_loopback
  by code_simp

text \<open>The listings of these two tests differ from one call to the next; the clock counts the calls.\<close>

definition listing_then :: "string list \<Rightarrow> os_error + string list \<Rightarrow> (lab, string list) io" where
  "listing_then first later = (\<lambda>m.
     (if lb_clock m = 0 then Inr first else later, m\<lparr>lb_clock := lb_clock m + 1\<rparr>))"

definition services_appearing_during_restore_are_verified :: bool where
  "services_appearing_during_restore_are_verified \<longleftrightarrow>
     (let m = fixture restore_backup [(''Wi-Fi'', [''127.0.0.1''])] in
      blocked m (restore_at lab_dns (listing_then [''Wi-Fi''] (Inr [''Wi-Fi'', ''New service'']))
          (\<lambda>name. io_return [if name = ''Wi-Fi'' then ''192.0.2.53'' else ''127.0.0.1'']) (\<lambda>_ _. io_return ()) m)
        [Refused ''New service''])"

lemma services_appearing_during_restore_are_verified_passes: services_appearing_during_restore_are_verified
  by code_simp

definition verification_list_error_retains_backup :: bool where
  "verification_list_error_retains_backup \<longleftrightarrow>
     (let m = fixture restore_backup [];
          (r, m') = restore_at lab_dns (listing_then [] (Inl (RunFailed ''list'' ''failed'')))
            (\<lambda>_. io_fail (Refused ''no service DNS should be read'')) (\<lambda>_ _. io_fail (Refused ''nor written'')) m in
      r = Inl (Several [RunFailed ''list'' ''failed'']) \<and> saved m' = saved m)"

lemma verification_list_error_retains_backup_passes: verification_list_error_retains_backup
  by code_simp

section \<open>The watchdog's backup\<close>

definition SERVER_A :: ip_addr where "SERVER_A = V4 (IP4 127 0 0 1)"
definition SERVER_B :: ip_addr where "SERVER_B = V4 (IP4 127 0 0 4)"

definition prepare :: "backup \<Rightarrow> (string \<times> string list) list \<Rightarrow> (backup \<Rightarrow> (lab, unit) io) \<Rightarrow> (lab, backup) io" where
  "prepare b snapshots persist = prepare_watchdog_backup no_interface b snapshots SERVER_B persist"

text \<open>A closure of a test that must not be called.\<close>

definition must_not_run :: "backup \<Rightarrow> (lab, unit) io" where
  "must_not_run _ = io_fail (Refused ''must not run'')"

definition changed_takeover_address_is_persisted_and_blocks_renamed_service_restore :: bool where
  "changed_takeover_address_is_persisted_and_blocks_renamed_service_restore \<longleftrightarrow>
     (let m = fixture restore_backup [(''Wi-Fi'', [''127.0.0.1''])] in
      case prepare restore_backup [] (write_backup lab_dns) m of
        (Inl _, _) \<Rightarrow> False
      | (Inr b, m) \<Rightarrow>
          lb_dns m = [(''Wi-Fi'', [''127.0.0.1''])]
          \<and> map_option bk_takeovers (saved_backup m) = Some (Some [SERVER_A, SERVER_B])
          \<and> fst (prepare b [] must_not_run m) = Inr b
          \<and> list_all (\<lambda>servers.
              let m = m\<lparr>lb_dns := [(''Renamed Wi-Fi'', servers)]\<rparr>; again = fixture_restore None None m in
              blocked m again [Refused ''Renamed Wi-Fi''] \<and> lb_dns (snd again) = lb_dns m)
            [[''127.0.0.4''], [''127.0.0.1'']])"

lemma changed_takeover_address_is_persisted_and_blocks_renamed_service_restore_passes:
  changed_takeover_address_is_persisted_and_blocks_renamed_service_restore
  by code_simp

definition watchdog_cannot_reassert_after_address_history_persistence_fails :: bool where
  "watchdog_cannot_reassert_after_address_history_persistence_fails \<longleftrightarrow>
     (let m = fixture restore_backup [(''Wi-Fi'', [''127.0.0.1''])];
          (r, m') = io_bind (prepare restore_backup [] (\<lambda>_. io_fail (RunFailed ''backup write'' ''failed''))) (\<lambda>_.
            (\<lambda>m. (Inr (), put_dns ''Wi-Fi'' [''127.0.0.4''] m))) m in
      r = Inl (RunFailed ''backup write'' ''failed'') \<and> lb_dns m' = [(''Wi-Fi'', [''127.0.0.1''])] \<and> saved m' = saved m)"

lemma watchdog_cannot_reassert_after_address_history_persistence_fails_passes:
  watchdog_cannot_reassert_after_address_history_persistence_fails
  by code_simp

definition watchdog_keeps_legacy_history_unknown_and_rejects_old_untracked_loopback :: bool where
  "watchdog_keeps_legacy_history_unknown_and_rejects_old_untracked_loopback \<longleftrightarrow>
     list_all (\<lambda>version.
       let b = restore_backup\<lparr>bk_version := version, bk_takeovers := None\<rparr>;
           m = fixture b [(''Renamed Wi-Fi'', [''127.0.0.1''])] in
       case prepare b [(''New service'', [''198.51.100.53''])] (write_backup lab_dns) m of
         (Inl _, _) \<Rightarrow> False
       | (Inr b, m) \<Rightarrow>
           map_option bk_takeovers (saved_backup m) = Some None
           \<and> blocked m (fixture_restore None None m) [Refused ''Renamed Wi-Fi'']
           \<and> fst (prepare b [(''Renamed Wi-Fi'', [''127.0.0.1''])] must_not_run m) = Inl (Refused ''Renamed Wi-Fi''))
       [1, 2]"

lemma watchdog_keeps_legacy_history_unknown_and_rejects_old_untracked_loopback_passes:
  watchdog_keeps_legacy_history_unknown_and_rejects_old_untracked_loopback
  by code_simp

definition watchdog_rejects_new_name_still_using_a_previous_takeover_address :: bool where
  "watchdog_rejects_new_name_still_using_a_previous_takeover_address \<longleftrightarrow>
     fst (prepare restore_backup [(''Renamed Wi-Fi'', [''127.0.0.1''])] must_not_run (fixture restore_backup []))
       = Inl (Refused ''Renamed Wi-Fi'')"

lemma watchdog_rejects_new_name_still_using_a_previous_takeover_address_passes:
  watchdog_rejects_new_name_still_using_a_previous_takeover_address
  by code_simp

section \<open>Verification\<close>

definition intact ::
  "string \<Rightarrow> string list \<Rightarrow> string list \<Rightarrow> (string \<Rightarrow> os_error + string list) \<Rightarrow> os_error + bool" where
  "intact expected enabled names dns =
     fst (takeover_intact_with no_interface restore_backup expected enabled (io_return names)
       (\<lambda>name m. (dns name, m)) (fixture restore_backup []))"

definition takeover_verification_observes_renamed_services_and_never_passes_vacuously :: bool where
  "takeover_verification_observes_renamed_services_and_never_passes_vacuously \<longleftrightarrow>
     intact ''127.0.0.4'' [] [''Renamed Wi-Fi''] (\<lambda>_. Inr [''127.0.0.1'']) = Inr False
     \<and> intact ''127.0.0.1'' [] [''Renamed Wi-Fi''] (\<lambda>_. Inr [''127.0.0.1'']) = Inr True
     \<and> intact ''127.0.0.1'' [] [] (\<lambda>_. Inl (Refused ''unreachable'')) = Inr False
     \<and> intact ''127.0.0.1'' [] [''Renamed Wi-Fi''] (\<lambda>_. Inl (RunFailed ''cannot read'' ''DNS''))
         = Inl (RunFailed ''cannot read'' ''DNS'')"

lemma takeover_verification_observes_renamed_services_and_never_passes_vacuously_passes:
  takeover_verification_observes_renamed_services_and_never_passes_vacuously
  by code_simp

definition takeover_verification_includes_new_enabled_services_but_not_unrelated_disabled_ones :: bool where
  "takeover_verification_includes_new_enabled_services_but_not_unrelated_disabled_ones \<longleftrightarrow>
     (let dns = (\<lambda>name. Inr [if name = ''Wi-Fi'' then ''127.0.0.1'' else ''192.0.2.53'']) in
      intact ''127.0.0.1'' [''New adapter''] [''Wi-Fi'', ''New adapter''] dns = Inr False
      \<and> intact ''127.0.0.1'' [] [''Wi-Fi'', ''New adapter''] dns = Inr True)"

lemma takeover_verification_includes_new_enabled_services_but_not_unrelated_disabled_ones_passes:
  takeover_verification_includes_new_enabled_services_but_not_unrelated_disabled_ones
  by code_simp

end
