(* ===== verification/Config_Tests.thy ===== *)
theory Config_Tests
  imports Cli Launchd "HOL-Library.Sublist"
begin

text \<open>
  The tests of \<open>src/src/config.rs\<close>, \<open>src/src/cli.rs\<close> and \<open>src/src/service/launchd.rs\<close> on the model.
  What the TOML library reads from the text of a test is given, and so is the splitting of
  \<open>--option=value\<close> by the lexer.
\<close>

section \<open>Configuration\<close>

definition parses_ipv4_hostname_and_ipv6_endpoints :: bool where
  "parses_ipv4_hostname_and_ipv6_endpoints \<longleftrightarrow>
     split_host_port ''dns.example:853'' 53 = Some (''dns.example'', 853)
     \<and> split_host_port ''[::1]:5354'' 53 = Some (''::1'', 5354)
     \<and> split_host_port ''2606:4700::1111'' 53 = Some (''2606:4700::1111'', 53)"

lemma parses_ipv4_hostname_and_ipv6_endpoints_passes: parses_ipv4_hostname_and_ipv6_endpoints
  by code_simp

definition raw_upstream_default :: raw_upstream where
  "raw_upstream_default = \<lparr>ru_name = [], ru_kind = [], ru_endpoint = [], ru_bootstrap_ip = [], ru_timeout = None, ru_ip_stack = []\<rparr>"

definition infers_protocol_and_default_doh_path :: bool where
  "infers_protocol_and_default_doh_path \<longleftrightarrow>
     (case parse_upstream ''0'' (raw_upstream_default\<lparr>ru_endpoint := ''https://dns.example''\<rparr>) of
        Inl _ \<Rightarrow> False
      | Inr (upstream, _) \<Rightarrow>
          up_proto upstream = Doh \<and> up_host upstream = ''dns.example'' \<and> up_port upstream = 443 \<and> up_path upstream = ''/dns-query'')"

lemma infers_protocol_and_default_doh_path_passes: infers_protocol_and_default_doh_path
  by code_simp

definition zero_cache_size_disables_cache_with_warning :: bool where
  "zero_cache_size_disables_cache_with_warning \<longleftrightarrow>
     (case parse_service (raw_service_default\<lparr>rs_cache_enable := True, rs_cache_size := 0\<rparr>) of
        Inl _ \<Rightarrow> False
      | Inr (service, warnings) \<Rightarrow> \<not> sv_cache_enable service \<and> sv_cache_size service = 1 \<and> CacheDisabled \<in> set warnings)"

lemma zero_cache_size_disables_cache_with_warning_passes: zero_cache_size_disables_cache_with_warning
  by code_simp

text \<open>A library that reads back what it printed.\<close>

definition reading :: "config_error + raw_config \<Rightarrow> toml_codec" where
  "reading raw = \<lparr>tc_parse = \<lambda>_. Inr [], tc_decode = \<lambda>_. map_sum (\<lambda>_. []) id raw, tc_print = \<lambda>_. Inr ''printed''\<rparr>"

definition quick_config_round_trips_through_toml_parser :: bool where
  "quick_config_round_trips_through_toml_parser \<longleftrightarrow>
     (let listeners = [''127.0.0.1:5354''];
          upstreams = [''doh3=https://resolver.example/profile'', ''dot=resolver-backup.example''];
          library = reading (quick_raw listeners upstreams (Some 750) (Some 128) False) in
      case quick_toml library listeners upstreams (Some 750) (Some 128) False of
        Inl _ \<Rightarrow> False
      | Inr text \<Rightarrow>
          (case load_text library text of
             Inl _ \<Rightarrow> False
           | Inr loaded \<Rightarrow>
               (let c = ld_config loaded in
                map sock_port (cf_listeners c) = [5354] \<and> map up_proto (cf_upstreams c) = [Doh3, Dot]
                \<and> up_timeout_ms (hd (cf_upstreams c)) = 750 \<and> sv_cache_size (cf_service c) = 128)))"

lemma quick_config_round_trips_through_toml_parser_passes: quick_config_round_trips_through_toml_parser
  by code_simp

definition quick_config_rejects_ambiguous_hostname_without_type :: bool where
  "quick_config_rejects_ambiguous_hostname_without_type \<longleftrightarrow>
     (case quick_toml (reading (quick_raw [] [''resolver.example''] None None False)) [] [''resolver.example''] None None False of
        Inl (TypeRequired _ _) \<Rightarrow> True | _ \<Rightarrow> False)"

lemma quick_config_rejects_ambiguous_hostname_without_type_passes: quick_config_rejects_ambiguous_hostname_without_type
  by code_simp

text \<open>The text of the three tests: one upstream, with or without a timeout.\<close>

definition loaded_timeout :: "nat option \<Rightarrow> nat option" where
  "loaded_timeout timeout =
     (case load_text (reading (Inr \<lparr>rc_service = raw_service_default, rc_listener = [],
          rc_upstream = [(''0'', raw_upstream_default\<lparr>ru_kind := ''doh'', ru_endpoint := ''https://resolver.example/dns-query'',
            ru_timeout := timeout\<rparr>)]\<rparr>)) ''[upstream.0]'' of
        Inl _ \<Rightarrow> None
      | Inr loaded \<Rightarrow> Some (up_timeout_ms (hd (cf_upstreams (ld_config loaded)))))"

definition omitted_timeout_defaults_to_5000 :: bool where
  "omitted_timeout_defaults_to_5000 \<longleftrightarrow> loaded_timeout None = Some 5000"

definition explicit_zero_timeout_stays_disabled :: bool where
  "explicit_zero_timeout_stays_disabled \<longleftrightarrow> loaded_timeout (Some 0) = Some 0"

definition explicit_timeout_is_preserved :: bool where
  "explicit_timeout_is_preserved \<longleftrightarrow> loaded_timeout (Some 800) = Some 800"

lemma timeouts_pass: omitted_timeout_defaults_to_5000 explicit_zero_timeout_stays_disabled explicit_timeout_is_preserved
  by code_simp+

section \<open>Command line\<close>

definition split_equals :: "string list \<Rightarrow> string list" where
  "split_equals ws = concat (map (\<lambda>w. if starts_with w ''--'' then
      (case split_once ''='' w of Some (option, value) \<Rightarrow> [option, value] | None \<Rightarrow> [w]) else [w]) ws)"

definition parsed_args :: "string list \<Rightarrow> (cli_error + command) option" where
  "parsed_args ws = parse_args plain_lexer (split_equals ws)"

definition quick_args_detect_any_override :: bool where
  "quick_args_detect_any_override \<longleftrightarrow>
     quick_is_empty quick_args_default \<and> \<not> quick_is_empty (quick_args_default\<lparr>qa_timeout_ms := Some 5000\<rparr>)"

lemma quick_args_detect_any_override_passes: quick_args_detect_any_override
  by code_simp

definition parses_one_line_service_configuration :: bool where
  "parses_one_line_service_configuration \<longleftrightarrow>
     (case parsed_args [''start'', ''--upstream'', ''doh3=https://resolver.example/profile'', ''--timeout=700'', ''--cache-size=256''] of
        Some (Inr (Start config quick)) \<Rightarrow>
          config = None \<and> length (qa_upstreams quick) = 1 \<and> qa_timeout_ms quick = Some 700 \<and> qa_cache_size quick = Some 256
      | _ \<Rightarrow> False)"

lemma parses_one_line_service_configuration_passes: parses_one_line_service_configuration
  by code_simp

definition config_file_and_quick_options_are_mutually_exclusive :: bool where
  "config_file_and_quick_options_are_mutually_exclusive \<longleftrightarrow>
     (case parsed_args [''restart'', ''--config'', ''dnsrivet.toml'', ''--upstream'', ''doh=https://resolver.example/dns-query''] of
        Some (Inl (Custom message)) \<Rightarrow> split_once ''cannot be combined'' message \<noteq> None
      | _ \<Rightarrow> False)"

lemma config_file_and_quick_options_are_mutually_exclusive_passes: config_file_and_quick_options_are_mutually_exclusive
  by code_simp

definition parses_config_init_destination :: bool where
  "parses_config_init_destination \<longleftrightarrow>
     (case parsed_args [''config'', ''init'', ''--upstream'', ''doq=resolver.example'', ''--output'', ''custom.toml''] of
        Some (Inr (ConfigInit output _ _)) \<Rightarrow> output = ''custom.toml''
      | _ \<Rightarrow> False)"

lemma parses_config_init_destination_passes: parses_config_init_destination
  by code_simp

section \<open>The launchd job\<close>

definition loaded_query_preserves_normal_exit_statuses :: bool where
  "loaded_query_preserves_normal_exit_statuses \<longleftrightarrow>
     list_all (\<lambda>(status, loaded).
       loaded_from_output (Inr \<lparr>out_success = status = (0 :: nat), out_stdout = [], out_utf8 = True, out_stderr = []\<rparr>) = Inr loaded)
       [(0, True), (1, False)]"

lemma loaded_query_preserves_normal_exit_statuses_passes: loaded_query_preserves_normal_exit_statuses
  by code_simp

definition loaded_query_reports_execution_errors :: bool where
  "loaded_query_reports_execution_errors \<longleftrightarrow>
     list_all (\<lambda>e. loaded_from_output (Inl e) = Inl (RunFailed ''query launchd service'' e)) [''not found'', ''permission denied'']"

lemma loaded_query_reports_execution_errors_passes: loaded_query_reports_execution_errors
  by code_simp

definition plist_escapes_paths_and_contains_required_service_keys :: bool where
  "plist_escapes_paths_and_contains_required_service_keys \<longleftrightarrow>
     (let plist = render_plist ''/tmp/a&b'' ''/tmp/<config>'' in
      list_all (\<lambda>text. sublist text plist)
        [''/tmp/a&amp;b'', ''/tmp/&lt;config&gt;'', ''<key>KeepAlive</key>'', ''<key>RunAtLoad</key>'', LABEL])"

lemma sublist_render_plist:
  assumes "list_ex (sublist text) (plist_lines binary config)"
  shows "sublist text (render_plist binary config)"
proof -
  from assms obtain l where "sublist text l" "l \<in> set (plist_lines binary config)" by (auto simp: list_ex_iff)
  moreover from this(2) obtain ys zs where "plist_lines binary config = ys @ l # zs"
    by (auto simp: in_set_conv_decomp)
  then have "sublist l (render_plist binary config)"
    by (simp add: render_plist_def)
  ultimately show ?thesis by (blast intro: sublist_order.order_trans)
qed

lemma plist_escapes_paths_and_contains_required_service_keys_passes: plist_escapes_paths_and_contains_required_service_keys
proof -
  have "list_all (\<lambda>text. list_ex (sublist text) (plist_lines ''/tmp/a&b'' ''/tmp/<config>''))
      [''/tmp/a&amp;b'', ''/tmp/&lt;config&gt;'', ''<key>KeepAlive</key>'', ''<key>RunAtLoad</key>'', LABEL]"
    by code_simp
  then show ?thesis
    by (auto simp: plist_escapes_paths_and_contains_required_service_keys_def Let_def list_all_iff intro: sublist_render_plist)
qed

end
