(* ===== verification/Service_Tests.thy ===== *)
theory Service_Tests
  imports Service_Reference
begin

text \<open>
  Tests of \<open>src/src/service/mod.rs\<close> and \<open>src/src/atomic_file.rs\<close> on the model.  Closures of the tests
  are code on a small state of their own; the tests that lay out a directory with links run on the
  machine \<open>links\<close> below.
\<close>

section \<open>Replacing the configuration\<close>

text \<open>What is installed, what runs, and how often it was loaded.\<close>

record reload_state =
  rl_installed :: string
  rl_running :: string
  rl_loads :: nat

definition installing :: "string \<Rightarrow> (reload_state, unit) io" where
  "installing text = (\<lambda>s. (Inr (), s\<lparr>rl_installed := text\<rparr>))"

definition config_restart_rolls_back_when_probe_succeeds_but_takeover_fails :: bool where
  "config_restart_rolls_back_when_probe_succeeds_but_takeover_fails \<longleftrightarrow>
     (case restart_config_transaction ''A'' ''B'' installing
         (\<lambda>s. (Inr (), s\<lparr>rl_running := rl_installed s, rl_loads := rl_loads s + 1\<rparr>))
         (\<lambda>s. (if rl_running s = ''B'' then Inl (Refused ''system DNS still points at A'') else Inr (), s))
         \<lparr>rl_installed = ''A'', rl_running = ''A'', rl_loads = 0\<rparr> of (r, s) \<Rightarrow>
       r = Inl (Context ''previous configuration restored and restarted'' (Refused ''system DNS still points at A''))
       \<and> rl_installed s = ''A'' \<and> rl_running s = ''A'' \<and> rl_loads s = 2)"

lemma config_restart_rolls_back_when_probe_succeeds_but_takeover_fails_passes:
  config_restart_rolls_back_when_probe_succeeds_but_takeover_fails
  by code_simp

definition verified_config_restart_keeps_replacement_and_reports_rollback_failures :: bool where
  "verified_config_restart_keeps_replacement_and_reports_rollback_failures \<longleftrightarrow>
     list_all (\<lambda>verify_ok.
       case restart_config_transaction ''A'' ''B'' installing
         (\<lambda>s. (if rl_loads s = 1 then Inl (Refused ''old listener failed'') else Inr (), s\<lparr>rl_loads := rl_loads s + 1\<rparr>))
         (\<lambda>s. (if verify_ok then Inr () else Inl (Refused ''takeover failed''), s))
         \<lparr>rl_installed = [], rl_running = [], rl_loads = 0\<rparr> of (r, s) \<Rightarrow>
       if verify_ok then r = Inr () \<and> rl_installed s = ''B'' \<and> rl_loads s = 1
       else r = Inl (Context ''previous configuration was restored but its restart failed''
                  (Several [Refused ''takeover failed'', Refused ''old listener failed'']))
            \<and> rl_installed s = ''A'') [True, False]"

lemma verified_config_restart_keeps_replacement_and_reports_rollback_failures_passes:
  verified_config_restart_keeps_replacement_and_reports_rollback_failures
  by code_simp

section \<open>Cleaning up a failed start\<close>

text \<open>The state is whether stopping has finished and whether the property list is removed.\<close>

definition failed_start_keeps_plist_when_stopping_fails :: bool where
  "failed_start_keeps_plist_when_stopping_fails \<longleftrightarrow>
     cleanup_failed_start (Refused ''DNS takeover failed: original error'')
         (io_fail (RunFailed ''launchctl bootout'' ''failed'')) (\<lambda>(stopped, removed). (Inr (), stopped, True)) (False, False)
       = (Inr (Context ''could not stop service; the launchd plist was retained''
            (Several [Refused ''DNS takeover failed: original error'', RunFailed ''launchctl bootout'' ''failed''])),
          False, False)"

lemma failed_start_keeps_plist_when_stopping_fails_passes: failed_start_keeps_plist_when_stopping_fails
  by code_simp

definition failed_start_removes_plist_after_confirming_service_is_stopped :: bool where
  "failed_start_removes_plist_after_confirming_service_is_stopped \<longleftrightarrow>
     list_all (\<lambda>stopped.
       cleanup_failed_start (Refused ''DNS probe failed'')
           (\<lambda>(_, removed). (Inr stopped, True, removed))
           (\<lambda>(stop_finished, _). (Inr (), stop_finished, stop_finished)) (False, False)
         = (Inr (Context (if stopped then ''service was stopped'' else ''service was not loaded'') (Refused ''DNS probe failed'')),
            True, True)) [True, False]"

lemma failed_start_removes_plist_after_confirming_service_is_stopped_passes:
  failed_start_removes_plist_after_confirming_service_is_stopped
  by code_simp

definition failed_start_reports_plist_removal_failure :: bool where
  "failed_start_reports_plist_removal_failure \<longleftrightarrow>
     fst (cleanup_failed_start (Refused ''DNS probe failed'') (io_return True) (io_fail (Refused ''permission denied'')) ())
       = Inr (Context ''could not remove launchd plist''
           (Several [Context ''service was stopped'' (Refused ''DNS probe failed''), Refused ''permission denied'']))"

lemma failed_start_reports_plist_removal_failure_passes: failed_start_reports_plist_removal_failure
  by code_simp

section \<open>Listeners\<close>

definition chooses_ipv4_loopback_listener_on_port_53 :: bool where
  "chooses_ipv4_loopback_listener_on_port_53 \<longleftrightarrow>
     map_sum id show_ip (takeover_address [SocketV6 (IP6 0 0 0 0 0 0 0 1) 53 0, SocketV4 (IP4 127 0 0 1) 53]) = Inr ''127.0.0.1''"

lemma chooses_ipv4_loopback_listener_on_port_53_passes: chooses_ipv4_loopback_listener_on_port_53
  by code_simp

definition rejects_nonstandard_service_listener :: bool where
  "rejects_nonstandard_service_listener \<longleftrightarrow> isl (takeover_address [SocketV4 (IP4 127 0 0 1) 5354])"

lemma rejects_nonstandard_service_listener_passes: rejects_nonstandard_service_listener
  by code_simp

definition preflight_reports_an_occupied_tcp_listener :: bool where
  "preflight_reports_an_occupied_tcp_listener \<longleftrightarrow>
     (let occupied = lab_control\<lparr>ct_bind_tcp := (\<lambda>_ m. (Some ''address in use'', m))\<rparr> in
      fst (preflight_listeners occupied [SocketV4 (IP4 127 0 0 1) 5301] (io_return ()) (lab_over 3))
        = Inl (IoError ''TCP listener is unavailable'' ''address in use''))"

lemma preflight_reports_an_occupied_tcp_listener_passes: preflight_reports_an_occupied_tcp_listener
  by code_simp

section \<open>A directory with links\<close>

text \<open>A file has its contents and its mode (384, 420 and 493 are 0600, 0644 and 0755); a rename fails onto a directory.\<close>

datatype node = TextFile string nat | LinkTo string | Directory

type_synonym links = "(string \<times> node) list"

fun text_at :: "links \<Rightarrow> string \<Rightarrow> string option" where
  "text_at m p = (case map_of m p of Some (TextFile text _) \<Rightarrow> Some text | _ \<Rightarrow> None)"

definition inspect_at :: "string \<Rightarrow> links \<Rightarrow> path_kind" where
  "inspect_at p m = (case map_of m p of
     None \<Rightarrow> Missing | Some (LinkTo target) \<Rightarrow> Symlink (Inr target) | Some _ \<Rightarrow> NotALink)"

definition resolve_at :: "string \<Rightarrow> links \<Rightarrow> string option" where
  "resolve_at p m = (case map_of m p of
     None \<Rightarrow> None | Some (LinkTo target) \<Rightarrow> (case map_of m target of Some (TextFile _ _) \<Rightarrow> Some target | _ \<Rightarrow> None)
   | Some _ \<Rightarrow> Some p)"

definition remove_at :: "string \<Rightarrow> links \<Rightarrow> remove_error option \<times> links" where
  "remove_at p m = (if map_of m p = None then (Some NotFound, m) else (None, drop_key p m))"

definition rename_at :: "string \<Rightarrow> string \<Rightarrow> links \<Rightarrow> string option \<times> links" where
  "rename_at p q m = (case map_of m p of
     None \<Rightarrow> (Some ''not found'', m)
   | Some node \<Rightarrow> if map_of m q = Some Directory then (Some ''is a directory'', m) else (None, drop_key p (put q node m)))"

definition links_fs :: "links fs" where
  "links_fs = \<lparr>
     fs_pid = \<lambda>_. 1, fs_nanos = \<lambda>_. 7,
     fs_create_new = (\<lambda>p m. if map_of m p \<noteq> None then (Some AlreadyExists, m) else (None, put p (TextFile [] 384) m)),
     fs_write = (\<lambda>p text m. case map_of m p of
        Some (TextFile _ mode) \<Rightarrow> (None, put p (TextFile text mode) m) | _ \<Rightarrow> (Some ''not a file'', m)),
     fs_chmod = (\<lambda>p mode m. case map_of m p of
        Some (TextFile text _) \<Rightarrow> (None, put p (TextFile text mode) m) | _ \<Rightarrow> (Some ''not a file'', m)),
     fs_sync = (\<lambda>_ m. (None, m)), fs_rename = rename_at, fs_unlink = (\<lambda>p m. (None, drop_key p m))\<rparr>"

definition links_dns :: "links dns_host" where
  "links_dns = \<lparr>
     dh_host = \<lparr>h_is_file = (\<lambda>p m. text_at m p \<noteq> None),
       h_read = (\<lambda>p m. case text_at m p of Some text \<Rightarrow> Inr text | None \<Rightarrow> Inl ''not found''),
       h_install = (\<lambda>p text m. (None, put p (TextFile text 384) m)), h_remove = remove_at,
       h_touch = (\<lambda>p m. (None, put p (TextFile [] 384) m)), h_lock = (\<lambda>_ m. (None, m)),
       h_run = (\<lambda>_ _ m. (Inl ''unused'', m))\<rparr>,
     dh_encode = \<lambda>_. Inl ''unused'', dh_decode = \<lambda>_. Inl ''unused'', dh_ifindex = \<lambda>_. None\<rparr>"

definition links_control :: "links control" where
  "links_control = \<lparr>
     ct_dns = links_dns, ct_fs = links_fs, ct_toml = sample_codec, ct_utf8 = \<lambda>_. True, ct_root = \<lambda>_. True,
     ct_read = (\<lambda>p m. case text_at m p of Some text \<Rightarrow> Inr text | None \<Rightarrow> Inl ''not found''),
     ct_mkdir = (\<lambda>_ m. (None, m)),
     ct_open = (\<lambda>p m. if text_at m p = None then Some ''not found'' else None),
     ct_copy = (\<lambda>p q m. case (map_of m p, map_of m q) of
        (Some (TextFile text _), Some (TextFile _ mode)) \<Rightarrow> (None, put q (TextFile text mode) m) | _ \<Rightarrow> (Some ''not found'', m)),
     ct_is_dir = (\<lambda>p m. map_of m p = Some Directory), ct_open_log = \<lambda>_ _. None, ct_runtime = \<lambda>_. None,
     ct_current_exe = \<lambda>_. Inl ''unused'', ct_canonicalize = resolve_at, ct_inspect = inspect_at,
     ct_symlink = (\<lambda>target p m. (None, put p (LinkTo target) m)),
     ct_bind_udp = (\<lambda>_ m. (None, m)), ct_bind_tcp = (\<lambda>_ m. (None, m)), ct_unbind = \<lambda>m. m,
     ct_now = \<lambda>_. 0, ct_nanos = \<lambda>_. 0, ct_sleep = (\<lambda>_ m. m), ct_send = (\<lambda>_ _ _ _ m. (Inl ''unused'', m))\<rparr>"

definition command_link_install_and_remove_are_ownership_safe :: bool where
  "command_link_install_and_remove_are_ownership_safe \<longleftrightarrow>
     (let binary = ''/root/installed/dnsrivet''; command = ''/root/bin/dnsrivet'';
          install = install_command_at links_control command binary binary;
          remove = remove_command_at links_control command binary;
          m = [(binary, TextFile ''binary'' 493)] in
      case install m of
        (r1, m1) \<Rightarrow>
      (case remove m1 of
        (r2, m2) \<Rightarrow>
      (case install (put command (TextFile ''unrelated'' 420) m2) of
        (r3, m3) \<Rightarrow>
      (case remove m3 of
        (r4, m4) \<Rightarrow>
          r1 = Inr () \<and> inspect_at command m1 = Symlink (Inr binary)
          \<and> r2 = Inr () \<and> inspect_at command m2 = Missing
          \<and> isl r3 \<and> r4 = Inr () \<and> text_at m4 command = Some ''unrelated''))))"

lemma command_link_install_and_remove_are_ownership_safe_passes: command_link_install_and_remove_are_ownership_safe
  by code_simp

definition leaves_package_manager_command_link_owned_by_package_manager :: bool where
  "leaves_package_manager_command_link_owned_by_package_manager \<longleftrightarrow>
     (let package_binary = ''/root/cellar/dnsrivet''; installed_binary = ''/root/support/dnsrivet''; command = ''/root/bin/dnsrivet'';
          m = [(package_binary, TextFile ''package binary'' 493), (installed_binary, TextFile ''installed binary'' 493),
               (command, LinkTo package_binary)] in
      case install_command_at links_control command installed_binary package_binary m of
        (r1, m1) \<Rightarrow>
      (case remove_command_at links_control command installed_binary m1 of
        (r2, m2) \<Rightarrow>
          r1 = Inr () \<and> inspect_at command m1 = Symlink (Inr package_binary)
          \<and> r2 = Inr () \<and> inspect_at command m2 = Symlink (Inr package_binary)))"

lemma leaves_package_manager_command_link_owned_by_package_manager_passes:
  leaves_package_manager_command_link_owned_by_package_manager
  by code_simp

text \<open>The contents are short here; the source may be the destination.\<close>

definition binary_install_streams_large_files_and_can_replace_its_source :: bool where
  "binary_install_streams_large_files_and_can_replace_its_source \<longleftrightarrow>
     (case install_binary_at links_control ''/root/source'' ''/root/installed'' [(''/root/source'', TextFile ''original'' 420)] of
        (r1, m1) \<Rightarrow>
      (case install_binary_at links_control ''/root/installed'' ''/root/installed'' m1 of
        (r2, m2) \<Rightarrow>
          r1 = Inr () \<and> r2 = Inr () \<and> map_of m2 ''/root/installed'' = Some (TextFile ''original'' 493) \<and> length m2 = 2))"

lemma binary_install_streams_large_files_and_can_replace_its_source_passes:
  binary_install_streams_large_files_and_can_replace_its_source
  by code_simp

section \<open>Atomic replacement\<close>

definition no_temporary_files :: "links \<Rightarrow> bool" where
  "no_temporary_files m \<longleftrightarrow> list_all (\<lambda>(p, _). \<not> ends_with p ''.tmp'') m"

definition writes_privately_then_installs_with_requested_permissions :: bool where
  "writes_privately_then_installs_with_requested_permissions \<longleftrightarrow>
     (let destination = ''/dir/binary'' in
      case atomic_write links_fs destination 493 (\<lambda>path m.
          if map_of m path = Some (TextFile [] 384) \<and> text_at m destination = Some ''old'' \<and> path \<noteq> destination
          then write_text links_fs ''new'' path m else (Inl (Refused ''assertion''), m))
        [(destination, TextFile ''old'' 420)] of (r, m) \<Rightarrow>
      r = Inr () \<and> map_of m destination = Some (TextFile ''new'' 493) \<and> no_temporary_files m)"

lemma writes_privately_then_installs_with_requested_permissions_passes:
  writes_privately_then_installs_with_requested_permissions
  by code_simp

definition failed_write_preserves_original_and_removes_temporary_file :: bool where
  "failed_write_preserves_original_and_removes_temporary_file \<longleftrightarrow>
     (case atomic_write links_fs ''/dir/config'' 384 (\<lambda>path.
          io_bind (write_text links_fs ''incomplete'' path) (\<lambda>_. io_fail (Refused ''injected write failure'')))
        [(''/dir/config'', TextFile ''original'' 384)] of (r, m) \<Rightarrow>
      r = Inl (Refused ''injected write failure'') \<and> text_at m ''/dir/config'' = Some ''original'' \<and> no_temporary_files m)"

lemma failed_write_preserves_original_and_removes_temporary_file_passes:
  failed_write_preserves_original_and_removes_temporary_file
  by code_simp

definition failed_commit_preserves_destination_and_removes_temporary_file :: bool where
  "failed_commit_preserves_destination_and_removes_temporary_file \<longleftrightarrow>
     (case atomic_write links_fs ''/dir/config'' 384 (write_text links_fs ''replacement'')
        [(''/dir/config'', Directory), (''/dir/config/existing'', TextFile ''original'' 420)] of (r, m) \<Rightarrow>
      isl r \<and> text_at m ''/dir/config/existing'' = Some ''original'' \<and> no_temporary_files m)"

lemma failed_commit_preserves_destination_and_removes_temporary_file_passes:
  failed_commit_preserves_destination_and_removes_temporary_file
  by code_simp

definition replacement_does_not_follow_destination_symlinks :: bool where
  "replacement_does_not_follow_destination_symlinks \<longleftrightarrow>
     (case atomic_write links_fs ''/dir/config'' 384 (write_text links_fs ''replacement'')
        [(''/dir/target'', TextFile ''unrelated'' 420), (''/dir/config'', LinkTo ''/dir/target'')] of (r, m) \<Rightarrow>
      r = Inr () \<and> text_at m ''/dir/config'' = Some ''replacement'' \<and> text_at m ''/dir/target'' = Some ''unrelated''
      \<and> no_temporary_files m)"

lemma replacement_does_not_follow_destination_symlinks_passes: replacement_does_not_follow_destination_symlinks
  by code_simp

end
