(* ===== verification/Spec2Isabelle.thy ===== *)
theory Spec2Isabelle
  imports Proxy Channel Bootstrap Legacy_Transport Dns_Reference Osdns_Text Config Watchdog Service_Reference Program_Facts
    Daemon Wire_Tests Cache_Tests Encrypted_Tests Bootstrap_Tests Takeover_Tests Config_Tests Service_Tests
begin

text \<open>
  DNSRivet is a DNS forwarder for macOS.  Its daemon answers DNS queries on local sockets, from a
  cache or through encrypted and plain upstream resolvers; its control side installs it as a
  launchd service, points the DNS settings of the machine at it, and puts them back.

  Parts and theories (paths are under \<open>src/src/\<close>).

  \<^item> Wire format, \<open>wire.rs\<close>: theories Wire_Names (\<open>read_name\<close>, \<open>skip_name\<close> and the label walker),
    Wire_Records (\<open>adjust_ttls\<close>, \<open>cache_ttl\<close>), Wire_Query (\<open>parse_query_meta\<close>, \<open>udp_payload_size\<close>,
    \<open>truncate_to\<close>, \<open>validate_response\<close>).  Bytes are lists of 8-bit words; an index out of range is the
    outcome \<open>Panic\<close> or \<open>None\<close>, as the code has it.  The lemmas give total reading with bounds, the
    equality of the one-pass scans with sectioned specifications, and the exact effect of ageing.
  \<^item> Cache, \<open>proxy/cache.rs\<close>: theory Cache.  The LRU map of the crate lru is an argument with its laws as
    the locale \<open>lru_store\<close>; a reference map meets them.
  \<^item> Listeners, \<open>proxy/mod.rs\<close>: theory Proxy is a machine whose events are datagrams, connections and
    completed forwards in any order; theory Watchdog is the takeover watchdog's cadence; theory
    Program has the start-up \<open>serve\<close>.
  \<^item> Upstreams, \<open>upstream/mod.rs\<close>, \<open>legacy.rs\<close>, \<open>bootstrap.rs\<close>, \<open>encrypted.rs\<close>: theories Manager
    (failover, racing, the system fallback), Legacy_Transport (UDP and TCP exchanges), Bootstrap (the
    resolver's slots and lookups) and Channel (the connection slot, dialling and retries).  Each is
    a step function over events, so every interleaving is a list of events.
  \<^item> The data path as a whole: theory Daemon puts the listeners, the cache, the manager, its attempts and
    the exchanges of \<open>legacy.rs\<close> together over a network that may answer anything.  Its lemmas trace every
    reply to where it came from (\<open>replies_authentic\<close>) and let a genuine answer through (\<open>genuine_answer_delivered\<close>).
  \<^item> Configuration, \<open>config.rs\<close>: theories Config_Types and Config, from the decoded TOML to the checked
    configuration and from quick options to TOML.  Texts and addresses are parsed as the standard
    library does: theories Text, Net_Addr, Net_Text and Net_Roundtrip.
  \<^item> Takeover, \<open>osdns/macos.rs\<close> and \<open>osdns/lock.rs\<close>: theory Host has code on a machine state that returns a value or an
    error, theory Osdns the tools and texts, theory Takeover the transactions, Dns_Machine and
    Dns_Watch their specification under the contract \<open>dns_machine\<close>, Dns_Reference a machine that
    meets it, Osdns_Text the round trips of what is written and read.
  \<^item> Service control, \<open>atomic_file.rs\<close>, \<open>service/launchd.rs\<close>, \<open>service/mod.rs\<close>: theories Atomic_File,
    Launchd and Service; Service_Waits has the clock and the waiting loops, Takeover_Keeps what the
    takeover leaves alone, Service_Control the contract \<open>service_machine\<close> that joins DNS, files and
    the job, Service_Reference a machine that meets it.
  \<^item> Command line and program, \<open>cli.rs\<close>, \<open>main.rs\<close>, \<open>logger.rs\<close>: theories Cli, Program, Program_Facts and
    Logger.
  \<^item> The tests of the repository, run on the model: theories Wire_Eval, Wire_Tests, Cache_Tests, Network_Tests,
    Channel_Tests, Encrypted_Tests, Bootstrap_Tests, Osdns_Tests, Takeover_Tests, Config_Tests and Service_Tests.
    A test is a definition with the name it has in the code, and the lemma after it evaluates its assertions on
    the model: evidence that the model computes what the code does.  In Network_Tests a schedule of an idle
    runtime plays the races; it is one of the interleavings of the machine (\<open>play_is_a_race\<close>).

  State and errors.  The daemon's parts keep their state in records that each step returns
  updated.  The control side runs on a machine of any type \<open>'o\<close>; a call is a function from the machine to
  a value or an \<open>os_error\<close> and the next machine.  Error texts are abbreviated: an \<open>os_error\<close> keeps the
  case and the underlying message, not the full sentence.  Panics are explicit where the code indexes,
  slices or expects.

  Contracts.  Third-party code and the system are arguments: the LRU map, hickory's message codec and
  handshakes, the TOML library, the lexer lexopt, sockets, files, system tools, clocks.  What the
  lemmas assume of them is stated in locales (\<open>lru_store\<close>, \<open>dns_machine\<close>, \<open>file_system\<close>,
  \<open>host_invariant\<close>, \<open>clock\<close>, \<open>service_machine\<close>, \<open>arguments\<close>), each interpreted on a concrete instance.  A call may
  fail at any point, which also covers a machine that stops there.

  Time and fuel.  Instants are nanoseconds in natural numbers (\<open>second\<close>).  The name walker and the
  other loops over a message recur on what is left of it.  The two waits of the service commands have
  fuel for one round per pause until the deadline and one more; \<open>waits_end\<close> shows that suffices.  The
  argument loop is a partial function that \<open>parse_args_terminates\<close> shows to return.  The schedule \<open>play\<close> of
  the tests has 20 steps, more than the races of two upstreams take.

  Not modelled: the texts of log lines and most messages, the asynchronous runtime itself, TLS, HTTP and QUIC inside their
  crates, and signal handling (\<open>wait_for_shutdown\<close>).  Of the tests, those are left out that measure time, that
  only exercise the runtime, a process or a library (handshakes, file locks between processes, threads, plutil, the
  TOML library), and those whose messages are too long to evaluate (128 pointers, 32 records).  Sequential composition stands for
  the locks and semaphores of the daemon, whose tasks interleave at their awaits.
\<close>

section \<open>Properties of the whole program\<close>


definition sample_config :: config where
  "sample_config = \<lparr>cf_service = \<lparr>sv_log_level = LevelInfo, sv_log_path = None, sv_cache_enable = True, sv_cache_size = 4\<rparr>,
     cf_listeners = [SocketV6 (IP6 0 0 0 0 0 0 0 1) 53 0, SocketV4 (IP4 127 0 0 1) 53], cf_upstreams = []\<rparr>"





definition sample_quick :: quick_args where
  "sample_quick = quick_args_default\<lparr>qa_listeners := [''[::1]:5353''], qa_upstreams := [''9.9.9.9'', ''doh=dns.test'']\<rparr>"

definition sample_init :: "(os_error + unit) run \<times> lab" where
  "sample_init = config_init (lab_control\<lparr>ct_toml := quick_codec\<rparr>) ''my.toml'' False sample_quick
     ((lab_over 9)\<lparr>lb_files := [(''my.toml'', [])]\<rparr>)"


end
